(* ===== verification/Nemu_Prelude.thy ===== *)
theory Nemu_Prelude
  imports Main "HOL-Library.Word"
begin

text \<open>
  Shared vocabulary of the development: the C integer types as machine words, the
  result type that carries failed assertions, panics and undefined behaviour, the
  little-endian access to a byte store, and the generic lemmas and hint collections
  every component uses.
\<close>

unbundle bit_operations_syntax

section \<open>C integer types\<close>

type_synonym u8 = "8 word"
type_synonym u16 = "16 word"
type_synonym u32 = "32 word"
type_synonym u64 = "64 word"

named_theorems result_simps "evaluation and inversion of fallible steps"
named_theorems frame_simps "what an operation leaves unchanged"

section \<open>Fallible steps\<close>

text \<open>
  A C step either returns a value or stops the emulator. It stops by a failed
  \<open>assert\<close>/\<open>Assert\<close>, by \<open>panic\<close>, or by executing an operation whose behaviour C
  leaves undefined (access outside an object, division by zero, a null pointer). The
  string names the place.
\<close>

datatype failure = Assert_failed string | Panicked string | Undefined string

type_synonym 'a result = "failure + 'a"

fun bindR :: "'a result \<Rightarrow> ('a \<Rightarrow> 'b result) \<Rightarrow> 'b result" where
  "bindR (Inl e) f = Inl e"
| "bindR (Inr x) f = f x"

definition assertR :: "bool \<Rightarrow> string \<Rightarrow> unit result" where
  "assertR b msg = (if b then Inr () else Inl (Assert_failed msg))"

fun foldR :: "('a \<Rightarrow> 's \<Rightarrow> 's result) \<Rightarrow> 'a list \<Rightarrow> 's \<Rightarrow> 's result" where
  "foldR f [] s = Inr s"
| "foldR f (x # xs) s = bindR (f x s) (foldR f xs)"

lemma bindR_eq_Inr [result_simps]:
  "bindR m f = Inr y \<longleftrightarrow> (\<exists>x. m = Inr x \<and> f x = Inr y)"
  by (cases m) auto

lemma bindR_eq_Inl [result_simps]:
  "bindR m f = Inl e \<longleftrightarrow> m = Inl e \<or> (\<exists>x. m = Inr x \<and> f x = Inl e)"
  by (cases m) auto

lemma bindR_assoc: "bindR (bindR m f) g = bindR m (\<lambda>x. bindR (f x) g)"
  by (cases m) auto

lemma bindR_cong [fundef_cong]:
  "m = m' \<Longrightarrow> (\<And>x. m' = Inr x \<Longrightarrow> f x = g x) \<Longrightarrow> bindR m f = bindR m' g"
  by (cases m') auto

lemma assertR_eq_Inr [result_simps]: "assertR b w = Inr u \<longleftrightarrow> b"
  by (simp add: assertR_def)

lemma assertR_True [simp]: "assertR True w = Inr ()"
  by (simp add: assertR_def)

lemma foldR_append: "foldR f (xs @ ys) s = bindR (foldR f xs s) (foldR f ys)"
proof (induction xs arbitrary: s)
  case (Cons x xs)
  then show ?case by (cases "f x s") auto
qed simp

lemma foldR_over_map: "foldR f (map g xs) s = foldR (\<lambda>x. f (g x)) xs s"
  by (induction xs arbitrary: s) (auto intro!: bindR_cong)

lemma foldR_concat: "foldR f (concat xss) s = foldR (foldR f) xss s"
  by (induction xss arbitrary: s) (auto simp: foldR_append intro!: bindR_cong)

lemma foldR_invariant:
  assumes "foldR f xs s = Inr t" and "I s"
    and "\<And>x s t. x \<in> set xs \<Longrightarrow> I s \<Longrightarrow> f x s = Inr t \<Longrightarrow> I t"
  shows "I t"
  using assms
proof (induction xs arbitrary: s)
  case (Cons x xs)
  from Cons.prems(1) obtain u where u: "f x s = Inr u" "foldR f xs u = Inr t"
    by (auto simp: result_simps)
  with Cons show ?case by (metis list.set_intros(1,2))
qed simp

section \<open>Bits of a word\<close>

lemma take_bit_ucast_8_32: "(ucast (ucast (w :: u32) :: u8) :: u32) = take_bit 8 w"
  by (rule bit_word_eqI) (auto simp: bit_ucast_iff bit_take_bit_iff)

lemma and_mask_eq_take_bit: "(w :: 'a::len word) AND mask n = take_bit n w"
  by (simp add: take_bit_eq_mask)

lemma take_bit_32_u32 [simp]: "take_bit 32 (w :: u32) = w"
  by (rule bit_word_eqI) (simp add: bit_take_bit_iff)

lemma unat_of_nat_u32: "n < 2 ^ 32 \<Longrightarrow> unat (of_nat n :: u32) = n"
  by (simp add: unat_of_nat)

lemma of_nat_u32_inj: "i < 2 ^ 32 \<Longrightarrow> j < 2 ^ 32 \<Longrightarrow> (of_nat i :: u32) = of_nat j \<longleftrightarrow> i = j"
  by (metis unat_of_nat_u32)

lemma int_and_not_mask: "(k :: int) AND NOT (mask n) = k div 2 ^ n * 2 ^ n"
proof -
  have "k AND NOT (mask n) = push_bit n (drop_bit n k)"
    by (rule bit_eqI)
      (auto simp: bit_and_iff bit_not_iff bit_mask_iff bit_push_bit_iff bit_drop_bit_eq)
  then show ?thesis
    by (simp add: push_bit_eq_mult drop_bit_eq_div)
qed

section \<open>Little-endian access to a byte store\<close>

text \<open>
  Every memory of the program (the host arrays behind guest memory, the device register
  space, the flat memory the C library works on) is read and written in units of bytes;
  a wider access goes through consecutive bytes, low byte first, as on the
  little-endian host and guest.
\<close>

fun load_le :: "('i \<Rightarrow> u8) \<Rightarrow> 'i list \<Rightarrow> u32" where
  "load_le get [] = 0"
| "load_le get (i # is) = ucast (get i) OR push_bit 8 (load_le get is)"

fun store_le :: "('i \<Rightarrow> u8 \<Rightarrow> 'm \<Rightarrow> 'm) \<Rightarrow> 'i list \<Rightarrow> u32 \<Rightarrow> 'm \<Rightarrow> 'm" where
  "store_le put [] d m = m"
| "store_le put (i # is) d m = store_le put is (drop_bit 8 d) (put i (ucast d) m)"

lemma load_le_cong: "(\<And>i. i \<in> set is \<Longrightarrow> f i = g i) \<Longrightarrow> load_le f is = load_le g is"
  by (induction "is") auto

lemma byte_then_rest:
  "(ucast (ucast (d :: u32) :: u8) :: u32) OR push_bit 8 (take_bit (8 * n) (drop_bit 8 d)) =
   take_bit (8 * Suc n) d"
  by (rule bit_word_eqI)
    (auto simp: take_bit_ucast_8_32 bit_or_iff bit_take_bit_iff bit_push_bit_iff bit_drop_bit_eq)

lemma bit_load_le_length: "bit (load_le f is) n \<Longrightarrow> n < 8 * length is"
proof (induction "is" arbitrary: n)
  case (Cons i "is")
  show ?case
  proof (cases "n < 8")
    case False
    with Cons.prems have "bit (load_le f is) (n - 8)"
      by (auto simp: bit_or_iff bit_ucast_iff bit_push_bit_iff dest: bit_imp_le_length)
    with Cons.IH show ?thesis by fastforce
  qed simp
qed simp

text \<open>
  The contract of a byte store, and what follows for multi-byte accesses once and for
  all: reading back the bytes just written gives the value truncated to the access
  width, and an access to other bytes sees nothing of the write.
\<close>

locale byte_store =
  fixes get :: "'m \<Rightarrow> 'i \<Rightarrow> u8"
    and put :: "'i \<Rightarrow> u8 \<Rightarrow> 'm \<Rightarrow> 'm"
  assumes get_put_same: "get (put i b m) i = b"
    and get_put_other: "i \<noteq> j \<Longrightarrow> get (put i b m) j = get m j"
begin

lemma get_store_frame: "j \<notin> set is \<Longrightarrow> get (store_le put is d m) j = get m j"
  by (induction "is" arbitrary: d m) (auto simp: get_put_other)

lemma load_store: "distinct is \<Longrightarrow>
    load_le (get (store_le put is d m)) is = take_bit (8 * length is) d"
proof (induction "is" arbitrary: d m)
  case (Cons i "is")
  then show ?case
    using byte_then_rest [of d "length is"] by (simp add: get_store_frame get_put_same)
qed simp

lemma load_store_disjoint: "set is \<inter> set js = {} \<Longrightarrow>
    load_le (get (store_le put is d m)) js = load_le (get m) js"
  by (rule load_le_cong) (auto intro: get_store_frame)

end

end
