(* ===== verification/Nemu_State.thy ===== *)
theory Nemu_State
  imports Nemu_Prelude
begin

text \<open>
  The data model of NEMU: the build configuration (the \<open>CONFIG_*\<close> macros of
  \<open>nemu/Kconfig\<close> and its included files), the CPU state and CSR numbers of
  \<open>nemu/include/isa/isa-def.h\<close>, the emulator state of \<open>nemu/include/utils.h\<close>, the
  memory-mapped regions of \<open>nemu/include/device/map.h\<close>, and the record that gathers
  every static variable the modelled C files keep.
\<close>

section \<open>Build configuration\<close>

text \<open>
  The preprocessor picks the code that is compiled from these macros. The model keeps
  every branch and takes the configuration as an argument.
\<close>

record config =
  CONFIG_RVE :: bool
  CONFIG_RT_CHECK :: bool
  CONFIG_NPC :: bool
  CONFIG_SYS_SOC :: bool
  CONFIG_SYS_NPC :: bool
  CONFIG_TARGET_SHARE :: bool
  YSYXSOC_ON_NEMU :: bool
  CONFIG_DEVICE :: bool
  CONFIG_DIFFTEST :: bool
  CONFIG_DIFFTEST_MEM :: bool
  CONFIG_ITRACE :: bool
  CONFIG_WATCHPOINT :: bool
  CONFIG_TARGET_NATIVE_ELF :: bool
  CONFIG_TRACE :: bool
  CONFIG_TRACE_START :: u64
  CONFIG_TRACE_END :: u64
  CONFIG_MBASE :: u32
  CONFIG_MSIZE :: u32
  CONFIG_MROM_BASE :: u32
  CONFIG_MROM_SIZE :: u32
  CONFIG_FLASH_BASE :: u32
  CONFIG_FLASH_SIZE :: u32
  CONFIG_SRAM_BASE :: u32
  CONFIG_SRAM_SIZE :: u32
  CONFIG_PSRAM_BASE :: u32
  CONFIG_PSRAM_SIZE :: u32
  CONFIG_SDRAM_BASE :: u32
  CONFIG_SDRAM_SIZE :: u32
  CONFIG_PC_RESET_OFFSET :: u32

text \<open>
  A configuration for a native riscv32 NEMU with devices: the
  defaults of the Kconfig files, \<open>CONFIG_DEVICE\<close> switched on, and the reset offset 0
\<close>

definition native_config :: config where
  "native_config = \<lparr>
     CONFIG_RVE = False, CONFIG_RT_CHECK = True, CONFIG_NPC = False,
     CONFIG_SYS_SOC = False, CONFIG_SYS_NPC = False, CONFIG_TARGET_SHARE = False,
     YSYXSOC_ON_NEMU = False, CONFIG_DEVICE = True, CONFIG_DIFFTEST = False,
     CONFIG_DIFFTEST_MEM = False, CONFIG_ITRACE = True, CONFIG_WATCHPOINT = False,
     CONFIG_TARGET_NATIVE_ELF = True, CONFIG_TRACE = True,
     CONFIG_TRACE_START = 0, CONFIG_TRACE_END = 10000,
     CONFIG_MBASE = 0x80000000, CONFIG_MSIZE = 0x8000000,
     CONFIG_MROM_BASE = 0x20000000, CONFIG_MROM_SIZE = 0x1000,
     CONFIG_FLASH_BASE = 0x30000000, CONFIG_FLASH_SIZE = 0x10000000,
     CONFIG_SRAM_BASE = 0x0f000000, CONFIG_SRAM_SIZE = 0x2000,
     CONFIG_PSRAM_BASE = 0x80000000, CONFIG_PSRAM_SIZE = 0x400000,
     CONFIG_SDRAM_BASE = 0xa0000000, CONFIG_SDRAM_SIZE = 0x20000000,
     CONFIG_PC_RESET_OFFSET = 0 \<rparr>"

section \<open>CPU state\<close>

type_synonym word_t = u32
type_synonym vaddr_t = u32
type_synonym paddr_t = u32

text \<open>
  \<open>gpr\<close> is the array of general-purpose registers (its bound is checked where it is
  indexed, by \<open>check_reg_idx\<close>), \<open>sr\<close> the 4096 control and status registers.
\<close>

record CPU_state =
  gpr :: "nat \<Rightarrow> word_t"
  pc :: vaddr_t
  sr :: "nat \<Rightarrow> word_t"
  priv :: u32
  last_inst_priv :: u32
  cpc :: vaddr_t
  cpc_for_pipeline :: vaddr_t
  npc_for_pipeline :: vaddr_t

abbreviation (input) CSR_SSTATUS :: nat where "CSR_SSTATUS \<equiv> 0x100"
abbreviation (input) CSR_SIE :: nat where "CSR_SIE \<equiv> 0x104"
abbreviation (input) CSR_STVEC :: nat where "CSR_STVEC \<equiv> 0x105"
abbreviation (input) CSR_SCOUNTEREN :: nat where "CSR_SCOUNTEREN \<equiv> 0x106"
abbreviation (input) CSR_SSCRATCH :: nat where "CSR_SSCRATCH \<equiv> 0x140"
abbreviation (input) CSR_SEPC :: nat where "CSR_SEPC \<equiv> 0x141"
abbreviation (input) CSR_SCAUSE :: nat where "CSR_SCAUSE \<equiv> 0x142"
abbreviation (input) CSR_STVAL :: nat where "CSR_STVAL \<equiv> 0x143"
abbreviation (input) CSR_SIP :: nat where "CSR_SIP \<equiv> 0x144"
abbreviation (input) CSR_SATP :: nat where "CSR_SATP \<equiv> 0x180"
abbreviation (input) CSR_MSTATUS :: nat where "CSR_MSTATUS \<equiv> 0x300"
abbreviation (input) CSR_MISA :: nat where "CSR_MISA \<equiv> 0x301"
abbreviation (input) CSR_MEDELEG :: nat where "CSR_MEDELEG \<equiv> 0x302"
abbreviation (input) CSR_MIDELEG :: nat where "CSR_MIDELEG \<equiv> 0x303"
abbreviation (input) CSR_MIE :: nat where "CSR_MIE \<equiv> 0x304"
abbreviation (input) CSR_MTVEC :: nat where "CSR_MTVEC \<equiv> 0x305"
abbreviation (input) CSR_MSTATUSH :: nat where "CSR_MSTATUSH \<equiv> 0x310"
abbreviation (input) CSR_MSCRATCH :: nat where "CSR_MSCRATCH \<equiv> 0x340"
abbreviation (input) CSR_MEPC :: nat where "CSR_MEPC \<equiv> 0x341"
abbreviation (input) CSR_MCAUSE :: nat where "CSR_MCAUSE \<equiv> 0x342"
abbreviation (input) CSR_MTVAL :: nat where "CSR_MTVAL \<equiv> 0x343"
abbreviation (input) CSR_MIP :: nat where "CSR_MIP \<equiv> 0x344"
abbreviation (input) CSR_MCYCLE :: nat where "CSR_MCYCLE \<equiv> 0xb00"
abbreviation (input) CSR_MCYCLEH :: nat where "CSR_MCYCLEH \<equiv> 0xb80"
abbreviation (input) CSR_CYCLE :: nat where "CSR_CYCLE \<equiv> 0xc00"
abbreviation (input) CSR_TIME :: nat where "CSR_TIME \<equiv> 0xc01"
abbreviation (input) CSR_TIMEH :: nat where "CSR_TIMEH \<equiv> 0xc81"
abbreviation (input) CSR_MVENDORID :: nat where "CSR_MVENDORID \<equiv> 0xf11"
abbreviation (input) CSR_MARCHID :: nat where "CSR_MARCHID \<equiv> 0xf12"
abbreviation (input) CSR_IMPID :: nat where "CSR_IMPID \<equiv> 0xf13"
abbreviation (input) CSR_MHARTID :: nat where "CSR_MHARTID \<equiv> 0xf14"

abbreviation (input) MCA_ILLEGAL_INS :: word_t where "MCA_ILLEGAL_INS \<equiv> 0x2"
abbreviation (input) MCA_BREAK_POINT :: word_t where "MCA_BREAK_POINT \<equiv> 0x3"
abbreviation (input) MCA_ENV_CAL_UMO :: word_t where "MCA_ENV_CAL_UMO \<equiv> 0x8"
abbreviation (input) MCA_ENV_CAL_SMO :: word_t where "MCA_ENV_CAL_SMO \<equiv> 0x9"
abbreviation (input) MCA_ENV_CAL_MMO :: word_t where "MCA_ENV_CAL_MMO \<equiv> 0xb"

section \<open>Emulator state\<close>

datatype run_state = NEMU_RUNNING | NEMU_STOP | NEMU_END | NEMU_ABORT | NEMU_QUIT

record NEMUState =
  state :: run_state
  halt_pc :: u32
  halt_ret :: u32

record Mem_flag =
  flag :: int
  mf_addr :: paddr_t
  mf_len :: int

section \<open>Host memory\<close>

text \<open>
  The byte arrays the emulator allocates: the guest memories of \<open>paddr.c\<close>, the SRAM of
  the Verilog model, and \<open>io_space\<close> of \<open>map.c\<close>, from which device registers are cut.
  A host pointer into one of them is the array and an offset.
\<close>

datatype harea = A_pmem | A_mrom | A_flash | A_sram | A_npc_sram | A_psram | A_sdram | A_io

type_synonym hptr = "harea \<times> nat"
type_synonym harrays = "harea \<Rightarrow> nat \<Rightarrow> u8"

section \<open>Devices\<close>

text \<open>
  A function pointer stored in a region or in the alarm table is the name of the handler
  it points to; the handlers are defined in the theory of the devices.
\<close>

datatype io_callback = Rtc_io | Serial_io | I8042_io | Audio_io | Sdcard_io | Uart_io | Clint_io
datatype alarm_handler = Timer_intr

record IOMap =
  map_name :: string
  map_low :: paddr_t
  map_high :: paddr_t
  map_space :: nat
  map_callback :: "io_callback option"

datatype sdl_event = SDL_QUIT_EVENT | SDL_KEY u8 bool | SDL_OTHER

text \<open>
  The registers and queues of the devices. A \<open>*_base\<close> pointer into \<open>io_space\<close> is an
  offset, \<open>None\<close> for \<open>NULL\<close>. The host is represented by what it will deliver: the
  readings of its clock (\<open>host_clock\<close>, indexed by the number of readings taken), the SDL
  events waiting to be polled, the contents and position of the SD card image; and by
  what it has received: the bytes written to \<open>stderr\<close> and the number of frames shown.
\<close>

record dev_state =
  p_space :: nat
  boot_time :: u64
  host_clock :: "nat \<Rightarrow> u64"
  clock_reads :: nat
  last_update :: u64
  sdl_queue :: "sdl_event list"
  rtc_port_base :: "nat option"
  serial_base :: "nat option"
  i8042_data_port_base :: "nat option"
  keymap :: "u8 \<Rightarrow> u32"
  key_queue :: "nat \<Rightarrow> u32"
  key_f :: nat
  key_r :: nat
  vgactl_port_base :: "nat option"
  vmem :: "nat option"
  frames :: nat
  audio_base :: "nat option"
  sbuf :: "nat option"
  uart_port_base :: "nat option"
  clint_port_base :: "nat option"
  alarms :: "alarm_handler list"
  host_stderr :: "u8 list"

record sd_state =
  sd_fp :: "(u8 list \<times> nat) option"
  sd_base :: "nat option"
  blkcnt :: u32
  blk_addr :: u64
  sd_addr :: u32
  write_cmd :: bool
  read_ext_csd :: bool

section \<open>Function-call tracing\<close>

record SymEntry =
  sym_name :: string
  sym_addr :: paddr_t
  sym_info :: u8
  sym_size :: u64

record ftrace_state =
  symbol_tbl :: "SymEntry list option"
  call_depth :: int
  tail_rec :: "(paddr_t \<times> paddr_t) list"

section \<open>Instruction tracing\<close>

text \<open>
  The ring of the last instructions (\<open>itrace_buf\<close>), and the compressed trace of program
  counters: \<open>bin_out\<close> holds the nodes written to the pipe, \<open>None\<close> while no pipe is open.
\<close>

record itrace_buffer =
  entries :: "nat \<Rightarrow> u8 list \<times> vaddr_t"
  it_head :: nat
  it_count :: nat

record itrace_bin =
  bin_out :: "(vaddr_t \<times> u32) list option"
  cur_start :: vaddr_t
  cur_count :: u32
  last_pc :: vaddr_t

section \<open>All static variables of the emulator\<close>

record system =
  cpu :: CPU_state
  harr :: harrays
  mem_flag :: Mem_flag
  nemu_state :: NEMUState
  is_skip_ref :: bool
  skip_dut_nr_inst :: int
  mmio_maps :: "IOMap list"
  pio_maps :: "IOMap list"
  dev :: dev_state
  sdcard :: sd_state
  ftrace :: ftrace_state
  itrace :: itrace_buffer
  itbin :: itrace_bin
  log_open :: bool
  g_nr_guest_inst :: u64

end
