(* ===== verification/Host_Memory.thy ===== *)
theory Host_Memory
  imports Nemu_State
begin

text \<open>
  Host-side access to the emulator's byte arrays (\<open>nemu/include/memory/host.h\<close>), the
  guest address ranges of \<open>nemu/include/memory/paddr.h\<close> and the translation from guest
  to host addresses of \<open>nemu/src/memory/paddr.c\<close>.
\<close>

section \<open>Sizes and bounds of the host arrays\<close>

definition IO_SPACE_MAX :: nat where
  "IO_SPACE_MAX = 32 * 1024 * 1024"

fun area_size :: "config \<Rightarrow> harea \<Rightarrow> nat" where
  "area_size cfg A_pmem = unat (CONFIG_MSIZE cfg)"
| "area_size cfg A_mrom = unat (CONFIG_MROM_SIZE cfg)"
| "area_size cfg A_flash = unat (CONFIG_FLASH_SIZE cfg)"
| "area_size cfg A_sram = unat (CONFIG_SRAM_SIZE cfg)"
| "area_size cfg A_npc_sram = unat (CONFIG_SRAM_SIZE cfg)"
| "area_size cfg A_psram = unat (CONFIG_PSRAM_SIZE cfg)"
| "area_size cfg A_sdram = unat (CONFIG_SDRAM_SIZE cfg)"
| "area_size cfg A_io = IO_SPACE_MAX"

fun hin_bounds :: "config \<Rightarrow> hptr \<Rightarrow> nat \<Rightarrow> bool" where
  "hin_bounds cfg (a, off) n \<longleftrightarrow> off + n \<le> area_size cfg a"

fun hrange :: "hptr \<Rightarrow> nat \<Rightarrow> hptr list" where
  "hrange (a, off) n = map (\<lambda>k. (a, off + k)) [0..<n]"

fun hget :: "harrays \<Rightarrow> hptr \<Rightarrow> u8" where
  "hget m (a, off) = m a off"

fun hput :: "hptr \<Rightarrow> u8 \<Rightarrow> harrays \<Rightarrow> harrays" where
  "hput (a, off) b m = m(a := (m a)(off := b))"

interpretation host: byte_store hget hput
  by unfold_locales (auto split: if_splits)

lemma length_hrange [simp]: "length (hrange p n) = n"
  by (cases p) simp

lemma distinct_hrange [simp]: "distinct (hrange p n)"
  by (cases p) (auto simp: distinct_map inj_on_def)

lemma hrange_disjoint: "j + n \<le> k \<Longrightarrow> set (hrange (a, k) l) \<inter> set (hrange (a, j) n) = {}"
  by auto

lemma hrange_area: "q \<in> set (hrange p n) \<Longrightarrow> fst q = fst p"
  by (cases p) auto

lemma hput_other_area: "a \<noteq> fst p \<Longrightarrow> hput p b m a = m a"
  by (cases p) auto

lemma store_other_area:
  "\<forall>q \<in> set ps. fst q \<noteq> a \<Longrightarrow> store_le hput ps d m a = m a"
  by (induction ps arbitrary: d m) (auto simp: hput_other_area)

declare hrange.simps [simp del]

section \<open>host.h\<close>

definition host_load :: "config \<Rightarrow> harrays \<Rightarrow> hptr \<Rightarrow> nat \<Rightarrow> word_t result" where
  "host_load cfg m p n =
     (if hin_bounds cfg p n then Inr (load_le (hget m) (hrange p n))
      else Inl (Undefined ''host read outside the array''))"

definition host_store :: "config \<Rightarrow> hptr \<Rightarrow> nat \<Rightarrow> word_t \<Rightarrow> harrays \<Rightarrow> harrays result" where
  "host_store cfg p n d m =
     (if hin_bounds cfg p n then Inr (store_le hput (hrange p n) d m)
      else Inl (Undefined ''host write outside the array''))"

definition host_read :: "config \<Rightarrow> harrays \<Rightarrow> hptr \<Rightarrow> int \<Rightarrow> word_t result" where
  "host_read cfg m p len =
     (if len = 1 then host_load cfg m p 1
      else if len = 2 then host_load cfg m p 2
      else if len = 4 then host_load cfg m p 4
      else if CONFIG_RT_CHECK cfg then Inl (Assert_failed ''host_read'')
      else Inr 0)"

definition host_write :: "config \<Rightarrow> hptr \<Rightarrow> int \<Rightarrow> word_t \<Rightarrow> harrays \<Rightarrow> harrays result" where
  "host_write cfg p len d m =
     (if len = 1 then host_store cfg p 1 d m
      else if len = 2 then host_store cfg p 2 d m
      else if len = 4 then host_store cfg p 4 d m
      else if CONFIG_RT_CHECK cfg then Inl (Assert_failed ''host_write'')
      else Inr m)"

lemma host_store_same_load:
  assumes "host_store cfg p n d m = Inr m'"
  shows "host_load cfg m' p n = Inr (take_bit (8 * n) d)"
  using assms by (auto simp: host_store_def host_load_def host.load_store split: if_splits)

lemma host_store_other_load:
  assumes "host_store cfg p n d m = Inr m'" and "set (hrange p n) \<inter> set (hrange q k) = {}"
  shows "host_load cfg m' q k = host_load cfg m q k"
  using assms
  by (auto simp: host_store_def host_load_def host.load_store_disjoint split: if_splits)

lemma host_store_other_area:
  assumes "host_store cfg p n d m = Inr m'" and "a \<noteq> fst p"
  shows "m' a = m a"
proof -
  have "\<forall>q \<in> set (hrange p n). fst q \<noteq> a"
    using assms(2) hrange_area by metis
  with assms(1) show ?thesis
    by (auto simp: host_store_def store_other_area split: if_splits)
qed

lemma host_write_other_area:
  assumes "host_write cfg p len d m = Inr m'" and "a \<noteq> fst p"
  shows "m' a = m a"
  using assms by (auto simp: host_write_def host_store_other_area split: if_splits)

lemma host_write_read:
  assumes "host_write cfg p len d m = Inr m'" and "len \<in> {1, 2, 4}"
  shows "host_read cfg m' p len = Inr (take_bit (8 * nat len) d)"
  using assms
  by (auto simp: host_write_def host_read_def dest!: host_store_same_load split: if_splits)

lemma host_write_read_disjoint:
  assumes "host_write cfg p len d m = Inr m'" and "len \<in> {1, 2, 4}" "len' \<in> {1, 2, 4}"
    and "set (hrange p (nat len)) \<inter> set (hrange q (nat len')) = {}"
  shows "host_read cfg m' q len' = host_read cfg m q len'"
  using assms
  by (auto simp: host_write_def host_read_def host_store_other_load split: if_splits)

lemma host_load_bound: "host_load cfg m p n = Inr v \<Longrightarrow> take_bit (8 * n) v = v"
  by (rule bit_word_eqI)
    (auto simp: host_load_def bit_take_bit_iff dest: bit_load_le_length split: if_splits)

section \<open>paddr.h\<close>

definition PMEM_LEFT :: "config \<Rightarrow> paddr_t" where
  "PMEM_LEFT cfg = CONFIG_MBASE cfg"

definition PMEM_RIGHT :: "config \<Rightarrow> paddr_t" where
  "PMEM_RIGHT cfg = CONFIG_MBASE cfg + CONFIG_MSIZE cfg - 1"

definition RESET_VECTOR :: "config \<Rightarrow> paddr_t" where
  "RESET_VECTOR cfg =
     (if YSYXSOC_ON_NEMU cfg then CONFIG_FLASH_BASE cfg
      else PMEM_LEFT cfg + CONFIG_PC_RESET_OFFSET cfg)"

definition in_pmem :: "config \<Rightarrow> paddr_t \<Rightarrow> bool" where
  "in_pmem cfg addr \<longleftrightarrow> addr - CONFIG_MBASE cfg < CONFIG_MSIZE cfg"

definition in_range :: "paddr_t \<Rightarrow> u32 \<Rightarrow> paddr_t \<Rightarrow> bool" where
  "in_range base sz addr \<longleftrightarrow> base \<le> addr \<and> addr < base + sz"

definition in_mrom :: "config \<Rightarrow> paddr_t \<Rightarrow> bool" where
  "in_mrom cfg addr = in_range (CONFIG_MROM_BASE cfg) (CONFIG_MROM_SIZE cfg) addr"

definition in_flash :: "config \<Rightarrow> paddr_t \<Rightarrow> bool" where
  "in_flash cfg addr = in_range (CONFIG_FLASH_BASE cfg) (CONFIG_FLASH_SIZE cfg) addr"

definition in_sram :: "config \<Rightarrow> paddr_t \<Rightarrow> bool" where
  "in_sram cfg addr = in_range (CONFIG_SRAM_BASE cfg) (CONFIG_SRAM_SIZE cfg) addr"

definition in_psram :: "config \<Rightarrow> paddr_t \<Rightarrow> bool" where
  "in_psram cfg addr = in_range (CONFIG_PSRAM_BASE cfg) (CONFIG_PSRAM_SIZE cfg) addr"

definition in_sdram :: "config \<Rightarrow> paddr_t \<Rightarrow> bool" where
  "in_sdram cfg addr = in_range (CONFIG_SDRAM_BASE cfg) (CONFIG_SDRAM_SIZE cfg) addr"

section \<open>Guest address to host address\<close>

text \<open>
  The order of the tests is the code's: where two ranges of the configuration overlap
  (the default PSRAM lies inside the main memory) the first one wins. The SRAM of an NPC
  build is the array of the Verilog model.
\<close>

definition guest_to_host :: "config \<Rightarrow> paddr_t \<Rightarrow> hptr result" where
  "guest_to_host cfg addr =
     (if in_pmem cfg addr then Inr (A_pmem, unat (addr - CONFIG_MBASE cfg))
      else if in_mrom cfg addr then Inr (A_mrom, unat (addr - CONFIG_MROM_BASE cfg))
      else if in_flash cfg addr then Inr (A_flash, unat (addr - CONFIG_FLASH_BASE cfg))
      else if in_sram cfg addr then
        Inr (if CONFIG_NPC cfg then A_npc_sram else A_sram, unat (addr - CONFIG_SRAM_BASE cfg))
      else if in_psram cfg addr then Inr (A_psram, unat (addr - CONFIG_PSRAM_BASE cfg))
      else if in_sdram cfg addr then Inr (A_sdram, unat (addr - CONFIG_SDRAM_BASE cfg))
      else Inl (Assert_failed ''guest_to_host''))"

definition host_to_guest :: "config \<Rightarrow> nat \<Rightarrow> paddr_t" where
  "host_to_guest cfg off = of_nat off + CONFIG_MBASE cfg"

definition guest_in_memory :: "config \<Rightarrow> paddr_t \<Rightarrow> bool" where
  "guest_in_memory cfg addr \<longleftrightarrow>
     in_pmem cfg addr \<or> in_mrom cfg addr \<or> in_sram cfg addr \<or>
     in_flash cfg addr \<or> in_psram cfg addr \<or> in_sdram cfg addr"

lemma in_range_offset: "in_range base sz addr \<Longrightarrow> unat (addr - base) < unat sz"
proof -
  assume "in_range base sz addr"
  then have le: "base \<le> addr" and less: "addr < base + sz"
    by (auto simp: in_range_def)
  have "unat (base + sz) \<le> unat base + unat sz"
    by (simp add: unat_word_ariths)
  with less have "unat addr < unat base + unat sz"
    by (simp add: word_less_nat_alt)
  with le show ?thesis
    by (simp add: unat_sub word_le_nat_alt)
qed

lemma guest_to_host_in_bounds:
  "guest_to_host cfg addr = Inr p \<Longrightarrow> hin_bounds cfg p 1"
  using in_range_offset
  by (auto simp: guest_to_host_def in_pmem_def word_less_nat_alt in_mrom_def in_flash_def
      in_sram_def in_psram_def in_sdram_def Suc_le_eq split: if_splits)

lemma guest_to_host_defined: "(\<exists>p. guest_to_host cfg addr = Inr p) \<longleftrightarrow> guest_in_memory cfg addr"
  by (auto simp: guest_to_host_def guest_in_memory_def)

lemma guest_to_host_not_io: "guest_to_host cfg addr = Inr p \<Longrightarrow> fst p \<noteq> A_io"
  by (auto simp: guest_to_host_def split: if_splits)

lemma host_to_guest_inverse:
  "in_pmem cfg addr \<Longrightarrow> guest_to_host cfg addr = Inr p \<Longrightarrow> host_to_guest cfg (snd p) = addr"
  by (auto simp: guest_to_host_def host_to_guest_def)

end
