(* ===== verification/Device_Map.thy ===== *)
theory Device_Map
  imports Host_Memory
begin

text \<open>
  Memory-mapped and port-mapped device regions: \<open>nemu/src/device/io/map.c\<close>,
  \<open>mmio.c\<close>, \<open>port-io.c\<close> and \<open>nemu/include/device/map.h\<close>. The functions that call a
  device handler take the dispatcher of handlers as an argument \<open>cb\<close>; the locale
  \<open>io_callbacks\<close> states what they rely on, and the theory of the devices interprets it
  with the emulator's handlers.
\<close>

section \<open>difftest\_skip\_ref\<close>

definition difftest_skip_ref :: "config \<Rightarrow> system \<Rightarrow> system" where
  "difftest_skip_ref cfg s =
     (if CONFIG_DIFFTEST cfg then s\<lparr>is_skip_ref := True, skip_dut_nr_inst := 0\<rparr> else s)"

section \<open>map.c\<close>

text \<open>
  \<open>new_space\<close> rounds the size up to whole pages, stores it back into the 32-bit \<open>int\<close>
  and advances the allocation pointer.
\<close>

definition PAGE_SIZE :: int where
  "PAGE_SIZE = push_bit 12 1"

definition PAGE_MASK :: int where
  "PAGE_MASK = PAGE_SIZE - 1"

definition new_space :: "u32 \<Rightarrow> system \<Rightarrow> (nat \<times> system) result" where
  "new_space size0 s =
     (let p = p_space (dev s);
          sz = signed_take_bit 31 ((sint size0 + (PAGE_SIZE - 1)) AND NOT PAGE_MASK);
          p' = int p + sz
      in if p' < 0 then Inl (Undefined ''new_space: pointer before io_space'')
         else bindR (assertR (p' < int IO_SPACE_MAX) ''new_space'')
           (\<lambda>_. Inr (p, s\<lparr>dev := (dev s)\<lparr>p_space := nat p'\<rparr>\<rparr>)))"

definition init_map :: "system \<Rightarrow> system" where
  "init_map s = s\<lparr>dev := (dev s)\<lparr>p_space := 0\<rparr>\<rparr>"

definition check_bound :: "IOMap option \<Rightarrow> paddr_t \<Rightarrow> unit result" where
  "check_bound m addr =
     (case m of
        None \<Rightarrow> Inl (Assert_failed ''check_bound: no map'')
      | Some im \<Rightarrow> assertR (addr \<le> map_high im \<and> map_low im \<le> addr) ''check_bound'')"

type_synonym dispatcher = "io_callback \<Rightarrow> u32 \<Rightarrow> int \<Rightarrow> bool \<Rightarrow> system \<Rightarrow> system result"

definition invoke_callback ::
    "dispatcher \<Rightarrow> io_callback option \<Rightarrow> u32 \<Rightarrow> int \<Rightarrow> bool \<Rightarrow> system \<Rightarrow> system result" where
  "invoke_callback cb c offset len is_write s =
     (case c of None \<Rightarrow> Inr s | Some h \<Rightarrow> cb h offset len is_write s)"

definition map_read ::
    "dispatcher \<Rightarrow> config \<Rightarrow> paddr_t \<Rightarrow> int \<Rightarrow> IOMap option \<Rightarrow> system \<Rightarrow> (word_t \<times> system) result" where
  "map_read cb cfg addr len m s =
     bindR (assertR (1 \<le> len \<and> len \<le> 8) ''map_read'') (\<lambda>_.
     bindR (check_bound m addr) (\<lambda>_.
     let im = the m; offset = addr - map_low im in
     bindR (invoke_callback cb (map_callback im) offset len False s) (\<lambda>t.
     bindR (host_read cfg (harr t) (A_io, map_space im + unat offset) len) (\<lambda>v.
     Inr (v, t)))))"

definition map_write ::
    "dispatcher \<Rightarrow> config \<Rightarrow> paddr_t \<Rightarrow> int \<Rightarrow> word_t \<Rightarrow> IOMap option \<Rightarrow> system \<Rightarrow> system result" where
  "map_write cb cfg addr len data m s =
     bindR (assertR (1 \<le> len \<and> len \<le> 8) ''map_write'') (\<lambda>_.
     bindR (check_bound m addr) (\<lambda>_.
     let im = the m; offset = addr - map_low im in
     bindR (host_write cfg (A_io, map_space im + unat offset) len data (harr s)) (\<lambda>h.
     invoke_callback cb (map_callback im) offset len True (s\<lparr>harr := h\<rparr>))))"

section \<open>map.h\<close>

definition map_inside :: "IOMap \<Rightarrow> paddr_t \<Rightarrow> bool" where
  "map_inside m addr \<longleftrightarrow> map_low m \<le> addr \<and> addr \<le> map_high m"

fun find_mapid_from :: "IOMap list \<Rightarrow> nat \<Rightarrow> paddr_t \<Rightarrow> nat option" where
  "find_mapid_from [] i addr = None"
| "find_mapid_from (m # ms) i addr =
     (if map_inside m addr then Some i else find_mapid_from ms (Suc i) addr)"

text \<open>The C function returns \<open>-1\<close> where the model returns \<open>None\<close>.\<close>

definition find_mapid_by_addr ::
    "config \<Rightarrow> IOMap list \<Rightarrow> paddr_t \<Rightarrow> system \<Rightarrow> nat option \<times> system" where
  "find_mapid_by_addr cfg maps addr s =
     (case find_mapid_from maps 0 addr of
        Some i \<Rightarrow> (Some i, difftest_skip_ref cfg s)
      | None \<Rightarrow> (None, s))"

section \<open>mmio.c\<close>

definition NR_MAP :: nat where
  "NR_MAP = 16"

definition fetch_mmio_map :: "config \<Rightarrow> paddr_t \<Rightarrow> system \<Rightarrow> IOMap option \<times> system" where
  "fetch_mmio_map cfg addr s =
     (case find_mapid_by_addr cfg (mmio_maps s) addr s of
        (None, t) \<Rightarrow> (None, t)
      | (Some i, t) \<Rightarrow> (Some (mmio_maps s ! i), t))"

definition add_mmio_map ::
    "config \<Rightarrow> string \<Rightarrow> paddr_t \<Rightarrow> nat \<Rightarrow> u32 \<Rightarrow> io_callback option \<Rightarrow> system \<Rightarrow> system result" where
  "add_mmio_map cfg name addr sp len callback s =
     bindR (assertR (length (mmio_maps s) < NR_MAP) ''add_mmio_map'') (\<lambda>_.
     let left = addr; right = addr + len - 1 in
     if in_pmem cfg left \<or> in_pmem cfg right then Inl (Panicked ''mmio overlaps pmem'')
     else if (\<exists>m \<in> set (mmio_maps s). left \<le> map_high m \<and> map_low m \<le> right)
     then Inl (Panicked ''mmio overlaps another map'')
     else Inr (s\<lparr>mmio_maps := mmio_maps s @
        [\<lparr>map_name = name, map_low = addr, map_high = addr + len - 1,
          map_space = sp, map_callback = callback\<rparr>]\<rparr>))"

definition mmio_read ::
    "dispatcher \<Rightarrow> config \<Rightarrow> paddr_t \<Rightarrow> int \<Rightarrow> system \<Rightarrow> (word_t \<times> system) result" where
  "mmio_read cb cfg addr len s =
     (case fetch_mmio_map cfg addr s of (m, t) \<Rightarrow> map_read cb cfg addr len m t)"

definition mmio_write ::
    "dispatcher \<Rightarrow> config \<Rightarrow> paddr_t \<Rightarrow> int \<Rightarrow> word_t \<Rightarrow> system \<Rightarrow> system result" where
  "mmio_write cb cfg addr len data s =
     (case fetch_mmio_map cfg addr s of (m, t) \<Rightarrow> map_write cb cfg addr len data m t)"

section \<open>port-io.c\<close>

definition PORT_IO_SPACE_MAX :: int where
  "PORT_IO_SPACE_MAX = 65535"

definition add_pio_map ::
    "string \<Rightarrow> u16 \<Rightarrow> nat \<Rightarrow> u32 \<Rightarrow> io_callback option \<Rightarrow> system \<Rightarrow> system result" where
  "add_pio_map name addr sp len callback s =
     bindR (assertR (length (pio_maps s) < NR_MAP) ''add_pio_map: full'') (\<lambda>_.
     bindR (assertR (uint (ucast addr + len :: u32) \<le> PORT_IO_SPACE_MAX) ''add_pio_map'') (\<lambda>_.
     Inr (s\<lparr>pio_maps := pio_maps s @
        [\<lparr>map_name = name, map_low = ucast addr, map_high = ucast addr + len - 1,
          map_space = sp, map_callback = callback\<rparr>]\<rparr>)))"

definition pio_map :: "config \<Rightarrow> u16 \<Rightarrow> int \<Rightarrow> system \<Rightarrow> (IOMap option \<times> system) result" where
  "pio_map cfg addr len s =
     bindR (assertR (uint addr + len - 1 < PORT_IO_SPACE_MAX) ''pio: address'') (\<lambda>_.
     case find_mapid_by_addr cfg (pio_maps s) (ucast addr) s of
       (None, t) \<Rightarrow> Inl (Assert_failed ''pio: no map'')
     | (Some i, t) \<Rightarrow> Inr (Some (pio_maps s ! i), t))"

definition pio_read ::
    "dispatcher \<Rightarrow> config \<Rightarrow> u16 \<Rightarrow> int \<Rightarrow> system \<Rightarrow> (u32 \<times> system) result" where
  "pio_read cb cfg addr len s =
     bindR (pio_map cfg addr len s) (\<lambda>(m, t). map_read cb cfg (ucast addr) len m t)"

definition pio_write ::
    "dispatcher \<Rightarrow> config \<Rightarrow> u16 \<Rightarrow> int \<Rightarrow> u32 \<Rightarrow> system \<Rightarrow> system result" where
  "pio_write cb cfg addr len data s =
     bindR (pio_map cfg addr len s) (\<lambda>(m, t). map_write cb cfg (ucast addr) len data m t)"

section \<open>Allocation of register space\<close>

lemma PAGE_MASK_eq: "PAGE_MASK = mask 12"
  by (simp add: PAGE_MASK_def PAGE_SIZE_def mask_eq_exp_minus_1)

text \<open>
  For every size the emulator asks for (below a gigabyte) the space handed out starts at
  the allocation pointer, which moves up by the size rounded up to whole pages and stays
  inside \<open>io_space\<close>.
\<close>

lemma new_space_eval:
  assumes "unat n < 2 ^ 30"
  shows "new_space n s =
    (let p = p_space (dev s); k = (unat n + 4095) div 4096 * 4096
     in if p + k < IO_SPACE_MAX then Inr (p, s\<lparr>dev := (dev s)\<lparr>p_space := p + k\<rparr>\<rparr>)
        else Inl (Assert_failed ''new_space''))"
proof -
  have sint_n: "sint n = int (unat n)"
  proof -
    have "uint n = int (unat n)" by simp
    moreover have "unat n < 1073741824" using assms by simp
    ultimately have "uint n < 2147483648" by linarith
    then show ?thesis
      using order_trans [OF _ uint_ge_0 [of n], of "- 2147483648"]
      by (auto simp: sint_uint intro!: signed_take_bit_int_eq_self)
  qed
  have "(sint n + (PAGE_SIZE - 1)) AND NOT PAGE_MASK = int ((unat n + 4095) div 4096 * 4096)"
    by (simp add: PAGE_MASK_eq int_and_not_mask sint_n PAGE_SIZE_def zdiv_int)
  moreover have "(unat n + 4095) div 4096 * 4096 < 2 ^ 31"
    by (rule le_less_trans [OF div_times_less_eq_dividend]) (use assms in simp)
  ultimately have eq: "signed_take_bit 31 ((sint n + (PAGE_SIZE - 1)) AND NOT PAGE_MASK) =
      int ((unat n + 4095) div 4096 * 4096)"
    by (simp add: signed_take_bit_int_eq_self)
  show ?thesis
    unfolding new_space_def eq
    by (simp add: Let_def assertR_def nat_int_add del: of_nat_mult of_nat_add flip: of_nat_add)
qed

section \<open>Regions do not overlap\<close>

text \<open>No address lies in two regions, and the table fits its array.\<close>

definition maps_ok :: "IOMap list \<Rightarrow> bool" where
  "maps_ok ms \<longleftrightarrow> length ms \<le> NR_MAP \<and>
     (\<forall>i < length ms. \<forall>j < length ms. \<forall>addr.
        map_inside (ms ! i) addr \<longrightarrow> map_inside (ms ! j) addr \<longrightarrow> i = j)"

lemma maps_ok_snoc:
  assumes "maps_ok ms" and "length ms < NR_MAP"
    and "\<And>m' addr. m' \<in> set ms \<Longrightarrow> \<not> (map_inside m' addr \<and> map_inside m addr)"
  shows "maps_ok (ms @ [m])"
  using assms by (auto simp: maps_ok_def nth_append less_Suc_eq) (metis nth_mem)+

lemma add_mmio_map_maps_ok:
  assumes "add_mmio_map cfg name addr sp len c s = Inr t" and "maps_ok (mmio_maps s)"
  shows "maps_ok (mmio_maps t)"
proof -
  let ?m = "\<lparr>map_name = name, map_low = addr, map_high = addr + len - 1,
    map_space = sp, map_callback = c\<rparr>"
  from assms(1) have t: "mmio_maps t = mmio_maps s @ [?m]" and len: "length (mmio_maps s) < NR_MAP"
    and sep: "\<forall>m \<in> set (mmio_maps s). \<not> (addr \<le> map_high m \<and> map_low m \<le> addr + len - 1)"
    by (auto simp: add_mmio_map_def Let_def result_simps split: if_splits)
  show ?thesis
    unfolding t
    by (rule maps_ok_snoc [OF assms(2) len])
      (use sep in \<open>auto simp: map_inside_def intro: order_trans\<close>)
qed

lemma find_mapid_from_bounds:
  "find_mapid_from ms k addr = Some i \<Longrightarrow> k \<le> i \<and> i - k < length ms \<and> map_inside (ms ! (i - k)) addr"
proof (induction ms arbitrary: k)
  case (Cons m ms)
  show ?case
  proof (cases "map_inside m addr")
    case False
    with Cons have "Suc k \<le> i \<and> i - Suc k < length ms \<and> map_inside (ms ! (i - Suc k)) addr"
      by simp
    then show ?thesis
      by (auto simp: nth_Cons' Suc_diff_Suc)
  qed (use Cons in auto)
qed simp

lemma find_mapid_from_None:
  "find_mapid_from ms k addr = None \<longleftrightarrow> (\<forall>m \<in> set ms. \<not> map_inside m addr)"
  by (induction ms arbitrary: k) auto

lemma find_mapid_from_unique:
  assumes "maps_ok ms" and "i < length ms" and "map_inside (ms ! i) addr"
  shows "find_mapid_from ms 0 addr = Some i"
proof (cases "find_mapid_from ms 0 addr")
  case None
  with assms(2,3) show ?thesis by (auto simp: find_mapid_from_None)
next
  case (Some j)
  with find_mapid_from_bounds [OF this] assms show ?thesis
    by (auto simp: maps_ok_def)
qed

section \<open>What handlers may change\<close>

text \<open>
  A bus access may change device registers (in \<open>io_space\<close>), the device state, the SD
  card and the difftest skip flags; nothing else.
\<close>

definition bus_frame :: "system \<Rightarrow> system \<Rightarrow> bool" where
  "bus_frame s t \<longleftrightarrow>
     cpu t = cpu s \<and> nemu_state t = nemu_state s \<and> mem_flag t = mem_flag s \<and>
     ftrace t = ftrace s \<and> itrace t = itrace s \<and> itbin t = itbin s \<and>
     log_open t = log_open s \<and> g_nr_guest_inst t = g_nr_guest_inst s \<and> mmio_maps t = mmio_maps s \<and> pio_maps t = pio_maps s \<and>
     (\<forall>a. a \<noteq> A_io \<longrightarrow> harr t a = harr s a)"

lemma bus_frame_refl [intro, simp]: "bus_frame s s"
  by (simp add: bus_frame_def)

lemma bus_frame_trans [trans]: "bus_frame s t \<Longrightarrow> bus_frame t u \<Longrightarrow> bus_frame s u"
  by (simp add: bus_frame_def)

lemma bus_frame_skip: "bus_frame s (difftest_skip_ref cfg s)"
  by (simp add: bus_frame_def difftest_skip_ref_def)

lemma fetch_mmio_map_frame: "fetch_mmio_map cfg addr s = (m, t) \<Longrightarrow> bus_frame s t"
  by (auto simp: fetch_mmio_map_def find_mapid_by_addr_def bus_frame_skip
      split: option.splits prod.splits)

lemma host_write_frame:
  "host_write cfg (A_io, off) len d (harr s) = Inr h \<Longrightarrow> bus_frame s (s\<lparr>harr := h\<rparr>)"
  using host_write_other_area [of cfg "(A_io, off)" len d "harr s" h]
  by (auto simp: bus_frame_def)

locale io_callbacks =
  fixes cb :: dispatcher
  assumes cb_frame: "cb c off len w s = Inr t \<Longrightarrow> bus_frame s t"
begin

lemma invoke_frame: "invoke_callback cb c off len w s = Inr t \<Longrightarrow> bus_frame s t"
  by (auto simp: invoke_callback_def cb_frame split: option.splits)

lemma read_frame: "map_read cb cfg addr len m s = Inr (v, t) \<Longrightarrow> bus_frame s t"
  by (auto simp: map_read_def Let_def result_simps dest: invoke_frame)

lemma write_frame: "map_write cb cfg addr len d m s = Inr t \<Longrightarrow> bus_frame s t"
  by (auto simp: map_write_def Let_def result_simps
      dest!: invoke_frame host_write_frame intro: bus_frame_trans)

lemma mmio_read_frame: "mmio_read cb cfg addr len s = Inr (v, t) \<Longrightarrow> bus_frame s t"
  by (auto simp: mmio_read_def dest!: fetch_mmio_map_frame read_frame
      intro: bus_frame_trans split: prod.splits)

lemma mmio_write_frame: "mmio_write cb cfg addr len d s = Inr t \<Longrightarrow> bus_frame s t"
  by (auto simp: mmio_write_def dest!: fetch_mmio_map_frame write_frame
      intro: bus_frame_trans split: prod.splits)

lemma mmio_unmapped:
  assumes "\<forall>m \<in> set (mmio_maps s). \<not> map_inside m addr"
  shows "\<exists>e. mmio_read cb cfg addr len s = Inl (Assert_failed e)"
    and "\<exists>e. mmio_write cb cfg addr len d s = Inl (Assert_failed e)"
proof -
  have "find_mapid_from (mmio_maps s) 0 addr = None"
    using assms by (simp add: find_mapid_from_None)
  then show "\<exists>e. mmio_read cb cfg addr len s = Inl (Assert_failed e)"
    and "\<exists>e. mmio_write cb cfg addr len d s = Inl (Assert_failed e)"
    by (auto simp: mmio_read_def mmio_write_def fetch_mmio_map_def find_mapid_by_addr_def
        map_read_def map_write_def check_bound_def assertR_def)
qed

text \<open>A region without a handler (the frame buffer) is plain memory.\<close>

lemma handlerless_region_is_memory:
  assumes w: "map_write cb cfg addr len d (Some m) s = Inr t"
    and "map_callback m = None" "len \<in> {1, 2, 4}"
  shows "map_read cb cfg addr len (Some m) t = Inr (take_bit (8 * nat len) d, t)"
  using assms host_write_read
  by (auto simp: map_write_def map_read_def Let_def result_simps check_bound_def
      invoke_callback_def)

end

end
