(* ===== verification/Devices.thy ===== *)
theory Devices
  imports Device_Map
begin

text \<open>
  The devices of \<open>nemu/src/device\<close>: timer, serial port, keyboard, VGA, audio, SD card,
  the ysyxSoC UART and CLINT, the alarm table and the polling loop of \<open>device.c\<close>. Device
  registers live in \<open>io_space\<close>; a handler reads and writes them through its base pointer.
\<close>

section \<open>Access to device registers\<close>

definition the_base :: "nat option \<Rightarrow> nat result" where
  "the_base b = (case b of None \<Rightarrow> Inl (Undefined ''null device base'') | Some p \<Rightarrow> Inr p)"

definition reg_load :: "config \<Rightarrow> nat option \<Rightarrow> nat \<Rightarrow> nat \<Rightarrow> system \<Rightarrow> u32 result" where
  "reg_load cfg b n i s =
     bindR (the_base b) (\<lambda>p. host_load cfg (harr s) (A_io, p + n * i) n)"

definition reg_store :: "config \<Rightarrow> nat option \<Rightarrow> nat \<Rightarrow> nat \<Rightarrow> u32 \<Rightarrow> system \<Rightarrow> system result" where
  "reg_store cfg b n i v s =
     bindR (the_base b) (\<lambda>p.
     bindR (host_store cfg (A_io, p + n * i) n v (harr s)) (\<lambda>h. Inr (s\<lparr>harr := h\<rparr>)))"

lemma reg_store_frame [frame_simps]: "reg_store cfg b n i v s = Inr t \<Longrightarrow> bus_frame s t"
  using host_store_other_area [of cfg "(A_io, _)" n v "harr s"]
  by (auto simp: reg_store_def bus_frame_def result_simps)

lemma reg_store_dev [simp]: "reg_store cfg b n i v s = Inr t \<Longrightarrow> dev t = dev s"
  by (auto simp: reg_store_def result_simps)

lemma reg_store_sdcard: "reg_store cfg b n i v s = Inr t \<Longrightarrow> sdcard t = sdcard s"
  by (auto simp: reg_store_def result_simps)

lemma reg_store_load: "reg_store cfg b n i v s = Inr t \<Longrightarrow> reg_load cfg b n i t = Inr (take_bit (8 * n) v)"
  by (auto simp: reg_store_def reg_load_def result_simps host_store_same_load)

lemma bus_frame_dev [simp]: "bus_frame s (t\<lparr>dev := d\<rparr>) = bus_frame s t"
  by (simp add: bus_frame_def)

lemma bus_frame_sdcard [simp]: "bus_frame s (t\<lparr>sdcard := d\<rparr>) = bus_frame s t"
  by (simp add: bus_frame_def)

lemma bus_frame_dev_left [simp]: "bus_frame (s\<lparr>dev := d\<rparr>) t = bus_frame s t"
  by (simp add: bus_frame_def)

lemma bus_frame_sdcard_left [simp]: "bus_frame (s\<lparr>sdcard := d\<rparr>) t = bus_frame s t"
  by (simp add: bus_frame_def)

section \<open>Host time (utils\_timer.c)\<close>

text \<open>\<open>get_time_internal\<close> is the host's clock: the next of the readings it will give.\<close>

definition get_time_internal :: "dev_state \<Rightarrow> u64 \<times> dev_state" where
  "get_time_internal d = (host_clock d (clock_reads d), d\<lparr>clock_reads := Suc (clock_reads d)\<rparr>)"

definition get_time :: "dev_state \<Rightarrow> u64 \<times> dev_state" where
  "get_time d =
     (let d1 = (if boot_time d = 0
                then (case get_time_internal d of (b, e) \<Rightarrow> e\<lparr>boot_time := b\<rparr>) else d)
      in case get_time_internal d1 of (now, d2) \<Rightarrow> (now - boot_time d2, d2))"

section \<open>timer.c\<close>

definition rtc_io_handler :: "config \<Rightarrow> u32 \<Rightarrow> int \<Rightarrow> bool \<Rightarrow> system \<Rightarrow> system result" where
  "rtc_io_handler cfg offset len is_write s =
     bindR (assertR (offset = 0 \<or> offset = 4) ''rtc_io_handler'') (\<lambda>_.
     if \<not> is_write \<and> offset = 4 then
       (case get_time (dev s) of (us, d) \<Rightarrow>
         bindR (reg_store cfg (rtc_port_base d) 4 0 (ucast us) (s\<lparr>dev := d\<rparr>)) (\<lambda>t.
         reg_store cfg (rtc_port_base d) 4 1 (ucast (drop_bit 32 us)) t))
     else Inr s)"

section \<open>serial.c\<close>

definition serial_putc :: "u8 \<Rightarrow> system \<Rightarrow> system" where
  "serial_putc ch s = s\<lparr>dev := (dev s)\<lparr>host_stderr := host_stderr (dev s) @ [ch]\<rparr>\<rparr>"

definition serial_io_handler :: "config \<Rightarrow> u32 \<Rightarrow> int \<Rightarrow> bool \<Rightarrow> system \<Rightarrow> system result" where
  "serial_io_handler cfg offset len is_write s =
     bindR (assertR (len = 1) ''serial_io_handler'') (\<lambda>_.
     if offset = 0 then
       (if is_write then
          bindR (reg_load cfg (serial_base (dev s)) 1 0 s) (\<lambda>v. Inr (serial_putc (ucast v) s))
        else Inl (Panicked ''do not support read''))
     else Inl (Panicked ''do not support offset''))"

section \<open>keyboard.c\<close>

definition KEYDOWN_MASK :: u32 where
  "KEYDOWN_MASK = 0x8000"

definition KEY_QUEUE_LEN :: nat where
  "KEY_QUEUE_LEN = 1024"

text \<open>The keys in the order of \<open>NEMU_KEYS\<close>; \<open>NEMU_KEY_NONE\<close> is 0 and the others follow.\<close>

definition nemu_keys :: "string list" where
  "nemu_keys = [''ESCAPE'', ''F1'', ''F2'', ''F3'', ''F4'', ''F5'', ''F6'', ''F7'', ''F8'',
     ''F9'', ''F10'', ''F11'', ''F12'',
     ''GRAVE'', ''1'', ''2'', ''3'', ''4'', ''5'', ''6'', ''7'', ''8'', ''9'', ''0'',
     ''MINUS'', ''EQUALS'', ''BACKSPACE'',
     ''TAB'', ''Q'', ''W'', ''E'', ''R'', ''T'', ''Y'', ''U'', ''I'', ''O'', ''P'',
     ''LEFTBRACKET'', ''RIGHTBRACKET'', ''BACKSLASH'',
     ''CAPSLOCK'', ''A'', ''S'', ''D'', ''F'', ''G'', ''H'', ''J'', ''K'', ''L'',
     ''SEMICOLON'', ''APOSTROPHE'', ''RETURN'',
     ''LSHIFT'', ''Z'', ''X'', ''C'', ''V'', ''B'', ''N'', ''M'', ''COMMA'', ''PERIOD'',
     ''SLASH'', ''RSHIFT'',
     ''LCTRL'', ''APPLICATION'', ''LALT'', ''SPACE'', ''RALT'', ''RCTRL'',
     ''UP'', ''DOWN'', ''LEFT'', ''RIGHT'', ''INSERT'', ''DELETE'', ''HOME'', ''END'',
     ''PAGEUP'', ''PAGEDOWN'']"

text \<open>\<open>sdl_scancode\<close> is SDL's table of scan codes, which the code takes from SDL's headers.\<close>

fun init_keymap_from :: "(string \<Rightarrow> u8) \<Rightarrow> string list \<Rightarrow> nat \<Rightarrow> (u8 \<Rightarrow> u32) \<Rightarrow> u8 \<Rightarrow> u32" where
  "init_keymap_from sdl_scancode [] i m = m"
| "init_keymap_from sdl_scancode (k # ks) i m =
     init_keymap_from sdl_scancode ks (Suc i) (m(sdl_scancode k := of_nat i))"

definition init_keymap :: "(string \<Rightarrow> u8) \<Rightarrow> dev_state \<Rightarrow> dev_state" where
  "init_keymap sdl_scancode d = d\<lparr>keymap := init_keymap_from sdl_scancode nemu_keys 1 (keymap d)\<rparr>"

definition key_enqueue :: "u32 \<Rightarrow> dev_state \<Rightarrow> dev_state result" where
  "key_enqueue am_scancode d =
     (let r = (key_r d + 1) mod KEY_QUEUE_LEN
      in bindR (assertR (r \<noteq> key_f d) ''key queue overflow!'') (\<lambda>_.
         Inr (d\<lparr>key_queue := (key_queue d)(key_r d := am_scancode), key_r := r\<rparr>)))"

definition key_dequeue :: "dev_state \<Rightarrow> u32 \<times> dev_state" where
  "key_dequeue d =
     (if key_f d \<noteq> key_r d
      then (key_queue d (key_f d), d\<lparr>key_f := (key_f d + 1) mod KEY_QUEUE_LEN\<rparr>)
      else (0, d))"

definition send_key :: "u8 \<Rightarrow> bool \<Rightarrow> system \<Rightarrow> system result" where
  "send_key scancode is_keydown s =
     (if state (nemu_state s) = NEMU_RUNNING \<and> keymap (dev s) scancode \<noteq> 0 then
        bindR (key_enqueue (keymap (dev s) scancode OR (if is_keydown then KEYDOWN_MASK else 0)) (dev s))
          (\<lambda>d. Inr (s\<lparr>dev := d\<rparr>))
      else Inr s)"

definition i8042_data_io_handler :: "config \<Rightarrow> u32 \<Rightarrow> int \<Rightarrow> bool \<Rightarrow> system \<Rightarrow> system result" where
  "i8042_data_io_handler cfg offset len is_write s =
     bindR (assertR (\<not> is_write) ''i8042: write'') (\<lambda>_.
     bindR (assertR (offset = 0) ''i8042: offset'') (\<lambda>_.
     case key_dequeue (dev s) of (key, d) \<Rightarrow>
       reg_store cfg (i8042_data_port_base d) 4 0 key (s\<lparr>dev := d\<rparr>)))"

section \<open>audio.c\<close>

definition audio_io_handler :: "u32 \<Rightarrow> int \<Rightarrow> bool \<Rightarrow> system \<Rightarrow> system result" where
  "audio_io_handler offset len is_write s = Inr s"

section \<open>ysyxsoc/uart.c and ysyxsoc/clint.c\<close>

definition UART_LSR_READY :: u32 where
  "UART_LSR_READY = 0x20 OR 0x40"

definition uart_io_handler :: "config \<Rightarrow> u32 \<Rightarrow> int \<Rightarrow> bool \<Rightarrow> system \<Rightarrow> system result" where
  "uart_io_handler cfg offset len is_write s =
     (if is_write then
        (if offset = 0 then
           bindR (reg_load cfg (uart_port_base (dev s)) 1 3 s) (\<lambda>lcr.
           if lcr AND 0x80 = 0 then
             bindR (reg_load cfg (uart_port_base (dev s)) 1 0 s) (\<lambda>c. Inr (serial_putc (ucast c) s))
           else Inr s)
         else Inr s)
      else if offset = 5 then reg_store cfg (uart_port_base (dev s)) 1 5 UART_LSR_READY s
      else Inr s)"

definition MTIME_OFFSET :: nat where
  "MTIME_OFFSET = 0x48"

definition clint_io_handler :: "config \<Rightarrow> u32 \<Rightarrow> int \<Rightarrow> bool \<Rightarrow> system \<Rightarrow> system result" where
  "clint_io_handler cfg offset len is_write s =
     (if \<not> is_write \<and> (offset = of_nat MTIME_OFFSET \<or> offset = of_nat MTIME_OFFSET + 4) then
        (case get_time (dev s) of (us, d) \<Rightarrow>
          bindR (reg_store cfg (clint_port_base d) 4 (MTIME_OFFSET div 4) (ucast us) (s\<lparr>dev := d\<rparr>)) (\<lambda>t.
          reg_store cfg (clint_port_base d) 4 (MTIME_OFFSET div 4 + 1) (ucast (drop_bit 32 us)) t))
      else Inr s)"

section \<open>sdcard.c\<close>

definition MEMORY_SIZE :: u64 where
  "MEMORY_SIZE = 16 * 1024 * 1024 * 1024"

abbreviation (input) READ_BL_LEN :: nat where "READ_BL_LEN \<equiv> 15"
abbreviation (input) C_SIZE_MULT :: nat where "C_SIZE_MULT \<equiv> 7"

definition BLOCK_LEN :: u64 where
  "BLOCK_LEN = push_bit READ_BL_LEN 1"

definition NR_BLOCK :: u64 where
  "NR_BLOCK = MEMORY_SIZE div BLOCK_LEN"

definition MULT :: u64 where
  "MULT = push_bit (C_SIZE_MULT + 2) 1"

definition C_SIZE :: u64 where
  "C_SIZE = NR_BLOCK div MULT - 1"

abbreviation (input) SDCMD :: nat where "SDCMD \<equiv> 0"
abbreviation (input) SDARG :: nat where "SDARG \<equiv> 1"
abbreviation (input) SDRSP0 :: nat where "SDRSP0 \<equiv> 4"
abbreviation (input) SDRSP1 :: nat where "SDRSP1 \<equiv> 5"
abbreviation (input) SDRSP2 :: nat where "SDRSP2 \<equiv> 6"
abbreviation (input) SDRSP3 :: nat where "SDRSP3 \<equiv> 7"
abbreviation (input) SDDATA :: nat where "SDDATA \<equiv> 16"

definition sd_set :: "config \<Rightarrow> nat \<Rightarrow> u32 \<Rightarrow> system \<Rightarrow> system result" where
  "sd_set cfg i v s = reg_store cfg (sd_base (sdcard s)) 4 i v s"

definition sd_set_all :: "config \<Rightarrow> (nat \<times> u32) list \<Rightarrow> system \<Rightarrow> system result" where
  "sd_set_all cfg = foldR (\<lambda>(i, v). sd_set cfg i v)"

text \<open>\<open>fseek\<close> on the image moves the position; it is skipped without an image.\<close>

definition prepare_rw :: "config \<Rightarrow> bool \<Rightarrow> system \<Rightarrow> system result" where
  "prepare_rw cfg is_write s =
     bindR (reg_load cfg (sd_base (sdcard s)) 4 SDARG s) (\<lambda>arg.
     let c = sdcard s; blk = ucast arg :: u64 in
     Inr (s\<lparr>sdcard := c\<lparr>blk_addr := blk, sd_addr := 0,
       sd_fp := map_option (\<lambda>(bytes, pos). (bytes, unat (push_bit 9 blk))) (sd_fp c),
       write_cmd := is_write\<rparr>\<rparr>))"

definition sdcard_handle_cmd :: "config \<Rightarrow> u32 \<Rightarrow> system \<Rightarrow> system result" where
  "sdcard_handle_cmd cfg cmd s =
     (if cmd = 0 then Inr s
      else if cmd = 1 then sd_set cfg SDRSP0 0x80ff8000 s
      else if cmd = 2 then
        sd_set_all cfg [(SDRSP0, 1), (SDRSP1, 0), (SDRSP2, 0), (SDRSP3, 0x15000000)] s
      else if cmd = 52 then Inr s
      else if cmd = 9 then
        sd_set_all cfg
          [(SDRSP0, 0x92404001),
           (SDRSP1, ucast (0x124b97e3 OR push_bit 30 (C_SIZE AND 3))),
           (SDRSP2, ucast (0x0f508000 OR drop_bit 2 C_SIZE OR push_bit 16 (of_nat READ_BL_LEN))),
           (SDRSP3, 0x9026012a)] s
      else if cmd = 8 then Inr (s\<lparr>sdcard := (sdcard s)\<lparr>read_ext_csd := True, sd_addr := 0\<rparr>\<rparr>)
      else if cmd = 5 \<or> cmd = 55 \<or> cmd = 3 \<or> cmd = 7 then Inr s
      else if cmd = 23 then
        bindR (reg_load cfg (sd_base (sdcard s)) 4 SDARG s) (\<lambda>arg.
        Inr (s\<lparr>sdcard := (sdcard s)\<lparr>blkcnt := arg AND 0xffff\<rparr>\<rparr>))
      else if cmd = 18 then prepare_rw cfg False s
      else if cmd = 25 then prepare_rw cfg True s
      else if cmd = 13 then
        sd_set_all cfg [(SDRSP0, 0x900), (SDRSP3, 0), (SDRSP2, 0), (SDRSP1, 0)] s
      else if cmd = 12 then Inr s
      else Inl (Panicked ''unhandled command''))"

text \<open>
  \<open>fread\<close> copies the bytes left in the image, up to four, over the data register;
  \<open>fwrite\<close> overwrites the image at the position, with zero bytes in a gap past its end.
\<close>

fun bytes_of_word :: "nat \<Rightarrow> u32 \<Rightarrow> u8 list" where
  "bytes_of_word 0 v = []"
| "bytes_of_word (Suc n) v = ucast v # bytes_of_word n (drop_bit 8 v)"

fun put_bytes :: "nat \<Rightarrow> u8 list \<Rightarrow> system \<Rightarrow> system" where
  "put_bytes p [] s = s"
| "put_bytes p (b # bs) s = put_bytes (Suc p) bs (s\<lparr>harr := hput (A_io, p) b (harr s)\<rparr>)"

definition sd_read_data :: "config \<Rightarrow> u8 list \<Rightarrow> nat \<Rightarrow> system \<Rightarrow> system result" where
  "sd_read_data cfg bytes pos s =
     bindR (the_base (sd_base (sdcard s))) (\<lambda>p.
     let chunk = take 4 (drop pos bytes) in
     if hin_bounds cfg (A_io, p + 4 * SDDATA) 4 then
       Inr ((put_bytes (p + 4 * SDDATA) chunk s)
              \<lparr>sdcard := (sdcard s)\<lparr>sd_fp := Some (bytes, pos + length chunk)\<rparr>\<rparr>)
     else Inl (Undefined ''fread outside the array''))"

definition sd_write_data :: "config \<Rightarrow> u8 list \<Rightarrow> nat \<Rightarrow> system \<Rightarrow> system result" where
  "sd_write_data cfg bytes pos s =
     bindR (reg_load cfg (sd_base (sdcard s)) 4 SDDATA s) (\<lambda>v.
     let padded = bytes @ replicate (pos - length bytes) 0 in
     Inr (s\<lparr>sdcard := (sdcard s)\<lparr>sd_fp :=
       Some (take pos padded @ bytes_of_word 4 v @ drop (pos + 4) padded, pos + 4)\<rparr>\<rparr>))"

definition sd_ext_csd_data :: "u32 \<Rightarrow> u32" where
  "sd_ext_csd_data a =
     (if a = 192 then 2 else if a = 212 then ucast (MEMORY_SIZE div 512) else 0)"

definition sdcard_data :: "config \<Rightarrow> system \<Rightarrow> system result" where
  "sdcard_data cfg s =
     (let c = sdcard s in
      if read_ext_csd c then
        bindR (sd_set cfg SDDATA (sd_ext_csd_data (sd_addr c)) s) (\<lambda>t.
        Inr (if sd_addr c = 512 - 4 then t\<lparr>sdcard := (sdcard t)\<lparr>read_ext_csd := False\<rparr>\<rparr> else t))
      else (case sd_fp c of
          None \<Rightarrow> Inr s
        | Some (bytes, pos) \<Rightarrow>
            if \<not> write_cmd c then sd_read_data cfg bytes pos s
            else sd_write_data cfg bytes pos s))"

definition sdcard_io_handler :: "config \<Rightarrow> u32 \<Rightarrow> int \<Rightarrow> bool \<Rightarrow> system \<Rightarrow> system result" where
  "sdcard_io_handler cfg offset len is_write s =
     (let idx = unat (offset div 4) in
      if idx = SDCMD then
        bindR (reg_load cfg (sd_base (sdcard s)) 4 SDCMD s) (\<lambda>c.
        sdcard_handle_cmd cfg (c AND 0x3f) s)
      else if idx \<in> {SDARG, SDRSP0, SDRSP1, SDRSP2, SDRSP3} then Inr s
      else if idx = SDDATA then
        bindR (sdcard_data cfg s) (\<lambda>t.
        Inr (t\<lparr>sdcard := (sdcard t)\<lparr>sd_addr := sd_addr (sdcard t) + 4\<rparr>\<rparr>))
      else Inl (Panicked ''unhandle offset''))"

section \<open>Dispatch of the handlers\<close>

fun io_handler :: "config \<Rightarrow> dispatcher" where
  "io_handler cfg Rtc_io = rtc_io_handler cfg"
| "io_handler cfg Serial_io = serial_io_handler cfg"
| "io_handler cfg I8042_io = i8042_data_io_handler cfg"
| "io_handler cfg Audio_io = audio_io_handler"
| "io_handler cfg Sdcard_io = sdcard_io_handler cfg"
| "io_handler cfg Uart_io = uart_io_handler cfg"
| "io_handler cfg Clint_io = clint_io_handler cfg"

lemma put_bytes_frame: "bus_frame s (put_bytes p bs s)"
proof (induction bs arbitrary: p s)
  case (Cons b bs)
  have "bus_frame s (s\<lparr>harr := hput (A_io, p) b (harr s)\<rparr>)"
    by (auto simp: bus_frame_def)
  with Cons show ?case by (auto intro: bus_frame_trans)
qed simp

lemma sd_set_all_frame: "sd_set_all cfg xs s = Inr t \<Longrightarrow> bus_frame s t"
  unfolding sd_set_all_def
  by (erule foldR_invariant [where I = "bus_frame s"])
    (auto simp: sd_set_def dest!: reg_store_frame intro: bus_frame_trans)

lemma sdcard_handle_cmd_frame: "sdcard_handle_cmd cfg cmd s = Inr t \<Longrightarrow> bus_frame s t"
  by (auto simp: sdcard_handle_cmd_def prepare_rw_def sd_set_def Let_def result_simps
      dest: sd_set_all_frame reg_store_frame split: if_splits)

lemma sdcard_data_frame: "sdcard_data cfg s = Inr t \<Longrightarrow> bus_frame s t"
  by (auto simp: sdcard_data_def sd_set_def sd_read_data_def sd_write_data_def Let_def
      result_simps put_bytes_frame dest: reg_store_frame split: if_splits option.splits)

lemma sdcard_io_frame: "sdcard_io_handler cfg offset len w s = Inr t \<Longrightarrow> bus_frame s t"
  by (auto simp: sdcard_io_handler_def Let_def result_simps
      dest: sdcard_handle_cmd_frame sdcard_data_frame split: if_splits)

lemma rtc_io_frame: "rtc_io_handler cfg offset len w s = Inr t \<Longrightarrow> bus_frame s t"
  by (auto simp: rtc_io_handler_def result_simps dest!: reg_store_frame
      intro: bus_frame_trans split: if_splits prod.splits)

lemma clint_io_frame: "clint_io_handler cfg offset len w s = Inr t \<Longrightarrow> bus_frame s t"
  by (auto simp: clint_io_handler_def result_simps dest!: reg_store_frame
      intro: bus_frame_trans split: if_splits prod.splits)

lemma serial_io_frame: "serial_io_handler cfg offset len w s = Inr t \<Longrightarrow> bus_frame s t"
  by (auto simp: serial_io_handler_def serial_putc_def result_simps split: if_splits)

lemma uart_io_frame: "uart_io_handler cfg offset len w s = Inr t \<Longrightarrow> bus_frame s t"
  by (auto simp: uart_io_handler_def serial_putc_def result_simps dest: reg_store_frame
      split: if_splits)

lemma i8042_io_frame: "i8042_data_io_handler cfg offset len w s = Inr t \<Longrightarrow> bus_frame s t"
  by (auto simp: i8042_data_io_handler_def result_simps dest: reg_store_frame split: prod.splits)

interpretation devs: io_callbacks "io_handler cfg" for cfg
proof
  fix c off len w s t
  assume "io_handler cfg c off len w s = Inr t"
  then show "bus_frame s t"
    by (cases c) (auto simp: audio_io_handler_def dest: rtc_io_frame serial_io_frame
        i8042_io_frame sdcard_io_frame uart_io_frame clint_io_frame)
qed

end
