(* ===== verification/Devices_Init.thy ===== *)
theory Devices_Init
  imports Devices
begin

text \<open>
  Registration of the devices (\<open>init_*\<close> of \<open>nemu/src/device\<close>), the alarm table and the
  polling loop of \<open>device.c\<close>, and the keyboard queue as a bounded FIFO.
\<close>

section \<open>Device configuration\<close>

text \<open>
  The \<open>CONFIG_*\<close> macros of \<open>nemu/src/device/Kconfig\<close>. \<open>sdl_scancodes\<close> and
  \<open>sdcard_image\<close> are what the host supplies: SDL's scan codes and the image file, if it
  can be opened.
\<close>

record dev_config =
  HAS_PORT_IO :: bool
  HAS_SERIAL :: bool
  HAS_TIMER :: bool
  HAS_VGA :: bool
  HAS_KEYBOARD :: bool
  HAS_AUDIO :: bool
  HAS_DISK :: bool
  HAS_SDCARD :: bool
  HAS_UART16550 :: bool
  HAS_CLINT :: bool
  VGA_SIZE_800x600 :: bool
  VGA_SHOW_SCREEN :: bool
  SERIAL_PORT :: u16
  SERIAL_MMIO :: u32
  RTC_PORT :: u16
  RTC_MMIO :: u32
  I8042_DATA_PORT :: u16
  I8042_DATA_MMIO :: u32
  FB_ADDR :: u32
  VGA_CTL_PORT :: u16
  VGA_CTL_MMIO :: u32
  AUDIO_CTL_PORT :: u16
  AUDIO_CTL_MMIO :: u32
  SB_ADDR :: u32
  SB_SIZE :: u32
  SDCARD_CTL_MMIO :: u32
  UART_PORT :: u16
  UART_MMIO :: u32
  CLINT_MMIO :: u32
  sdl_scancodes :: "string \<Rightarrow> u8"
  sdcard_image :: "u8 list option"

text \<open>The Kconfig defaults of the native platform, without an SD card.\<close>

definition native_dev_config :: "(string \<Rightarrow> u8) \<Rightarrow> dev_config" where
  "native_dev_config sc = \<lparr>
     HAS_PORT_IO = False, HAS_SERIAL = True, HAS_TIMER = True, HAS_VGA = True,
     HAS_KEYBOARD = True, HAS_AUDIO = True, HAS_DISK = True, HAS_SDCARD = False,
     HAS_UART16550 = False, HAS_CLINT = False,
     VGA_SIZE_800x600 = False, VGA_SHOW_SCREEN = True,
     SERIAL_PORT = 0x3f8, SERIAL_MMIO = 0xa00003f8, RTC_PORT = 0x48, RTC_MMIO = 0xa0000048,
     I8042_DATA_PORT = 0x60, I8042_DATA_MMIO = 0xa0000060, FB_ADDR = 0xa1000000,
     VGA_CTL_PORT = 0x100, VGA_CTL_MMIO = 0xa0000100,
     AUDIO_CTL_PORT = 0x200, AUDIO_CTL_MMIO = 0xa0000200,
     SB_ADDR = 0xa1200000, SB_SIZE = 0x10000, SDCARD_CTL_MMIO = 0xa3000000,
     UART_PORT = 0x3f8, UART_MMIO = 0x10000000, CLINT_MMIO = 0x02000000,
     sdl_scancodes = sc, sdcard_image = None \<rparr>"

definition add_region ::
    "config \<Rightarrow> dev_config \<Rightarrow> string \<Rightarrow> u16 \<Rightarrow> u32 \<Rightarrow> nat \<Rightarrow> u32 \<Rightarrow> io_callback option \<Rightarrow>
     system \<Rightarrow> system result" where
  "add_region cfg dc name port mmio sp len c s =
     (if HAS_PORT_IO dc then add_pio_map name port sp len c s
      else add_mmio_map cfg name mmio sp len c s)"

section \<open>alarm.c\<close>

definition MAX_HANDLER :: nat where
  "MAX_HANDLER = 8"

definition add_alarm_handle :: "alarm_handler \<Rightarrow> system \<Rightarrow> system result" where
  "add_alarm_handle h s =
     bindR (assertR (length (alarms (dev s)) < MAX_HANDLER) ''add_alarm_handle'') (\<lambda>_.
     Inr (s\<lparr>dev := (dev s)\<lparr>alarms := alarms (dev s) @ [h]\<rparr>\<rparr>))"

definition dev_raise_intr :: "system \<Rightarrow> system" where
  "dev_raise_intr s = s"

definition timer_intr :: "system \<Rightarrow> system" where
  "timer_intr s = (if state (nemu_state s) = NEMU_RUNNING then dev_raise_intr s else s)"

fun run_alarm :: "alarm_handler \<Rightarrow> system \<Rightarrow> system" where
  "run_alarm Timer_intr s = timer_intr s"

definition alarm_sig_handler :: "system \<Rightarrow> system" where
  "alarm_sig_handler s = fold run_alarm (alarms (dev s)) s"

section \<open>Registration\<close>

definition init_timer :: "config \<Rightarrow> dev_config \<Rightarrow> system \<Rightarrow> system result" where
  "init_timer cfg dc s =
     bindR (new_space 8 s) (\<lambda>(p, s).
     let s = s\<lparr>dev := (dev s)\<lparr>rtc_port_base := Some p\<rparr>\<rparr> in
     bindR (add_region cfg dc ''rtc'' (RTC_PORT dc) (RTC_MMIO dc) p 8 (Some Rtc_io) s) (\<lambda>s.
     add_alarm_handle Timer_intr s))"

definition init_serial :: "config \<Rightarrow> dev_config \<Rightarrow> system \<Rightarrow> system result" where
  "init_serial cfg dc s =
     bindR (new_space 8 s) (\<lambda>(p, s).
     let s = s\<lparr>dev := (dev s)\<lparr>serial_base := Some p\<rparr>\<rparr> in
     add_region cfg dc ''serial'' (SERIAL_PORT dc) (SERIAL_MMIO dc) p 8 (Some Serial_io) s)"

definition init_i8042 :: "config \<Rightarrow> dev_config \<Rightarrow> system \<Rightarrow> system result" where
  "init_i8042 cfg dc s =
     bindR (new_space 4 s) (\<lambda>(p, s).
     let s = s\<lparr>dev := (dev s)\<lparr>i8042_data_port_base := Some p\<rparr>\<rparr> in
     bindR (reg_store cfg (Some p) 4 0 0 s) (\<lambda>s.
     bindR (add_region cfg dc ''keyboard'' (I8042_DATA_PORT dc) (I8042_DATA_MMIO dc) p 4
              (Some I8042_io) s) (\<lambda>s.
     Inr (s\<lparr>dev := init_keymap (sdl_scancodes dc) (dev s)\<rparr>))))"

definition screen_width :: "dev_config \<Rightarrow> u32" where
  "screen_width dc = (if VGA_SIZE_800x600 dc then 800 else 400)"

definition screen_height :: "dev_config \<Rightarrow> u32" where
  "screen_height dc = (if VGA_SIZE_800x600 dc then 600 else 300)"

definition screen_size :: "dev_config \<Rightarrow> u32" where
  "screen_size dc = screen_width dc * screen_height dc * 4"

text \<open>
  \<open>update_screen\<close> hands the frame buffer to SDL; the model counts the frames. The
  \<open>memset\<close> of the frame buffer writes zeroes over the whole space.
\<close>

definition update_screen :: "system \<Rightarrow> system" where
  "update_screen s = s\<lparr>dev := (dev s)\<lparr>frames := Suc (frames (dev s))\<rparr>\<rparr>"

definition vga_update_screen :: "config \<Rightarrow> system \<Rightarrow> system result" where
  "vga_update_screen cfg s =
     bindR (reg_load cfg (vgactl_port_base (dev s)) 4 1 s) (\<lambda>sync.
     if sync \<noteq> 0 then reg_store cfg (vgactl_port_base (dev s)) 4 1 0 (update_screen s)
     else Inr s)"

definition clear_vmem :: "nat \<Rightarrow> nat \<Rightarrow> system \<Rightarrow> system" where
  "clear_vmem p n s =
     s\<lparr>harr := (harr s)(A_io := (\<lambda>i. if p \<le> i \<and> i < p + n then 0 else harr s A_io i))\<rparr>"

definition init_vga :: "config \<Rightarrow> dev_config \<Rightarrow> system \<Rightarrow> system result" where
  "init_vga cfg dc s =
     bindR (new_space 8 s) (\<lambda>(p, s).
     let s = s\<lparr>dev := (dev s)\<lparr>vgactl_port_base := Some p\<rparr>\<rparr> in
     bindR (reg_store cfg (Some p) 4 0 (push_bit 16 (screen_width dc) OR screen_height dc) s) (\<lambda>s.
     bindR (add_region cfg dc ''vgactl'' (VGA_CTL_PORT dc) (VGA_CTL_MMIO dc) p 8 None s) (\<lambda>s.
     bindR (new_space (screen_size dc) s) (\<lambda>(q, s).
     let s = s\<lparr>dev := (dev s)\<lparr>vmem := Some q\<rparr>\<rparr> in
     bindR (add_mmio_map cfg ''vmem'' (FB_ADDR dc) q (screen_size dc) None s) (\<lambda>s.
     Inr (if VGA_SHOW_SCREEN dc then clear_vmem q (unat (screen_size dc)) s else s))))))"

definition init_audio :: "config \<Rightarrow> dev_config \<Rightarrow> system \<Rightarrow> system result" where
  "init_audio cfg dc s =
     bindR (new_space 24 s) (\<lambda>(p, s).
     let s = s\<lparr>dev := (dev s)\<lparr>audio_base := Some p\<rparr>\<rparr> in
     bindR (add_region cfg dc ''audio'' (AUDIO_CTL_PORT dc) (AUDIO_CTL_MMIO dc) p 24
              (Some Audio_io) s) (\<lambda>s.
     bindR (new_space (SB_SIZE dc) s) (\<lambda>(q, s).
     let s = s\<lparr>dev := (dev s)\<lparr>sbuf := Some q\<rparr>\<rparr> in
     add_mmio_map cfg ''audio-sbuf'' (SB_ADDR dc) q (SB_SIZE dc) None s)))"

definition init_disk :: "system \<Rightarrow> system" where
  "init_disk s = s"

definition init_sdcard :: "config \<Rightarrow> dev_config \<Rightarrow> system \<Rightarrow> system result" where
  "init_sdcard cfg dc s =
     bindR (new_space 0x80 s) (\<lambda>(p, s).
     let s = s\<lparr>sdcard := (sdcard s)\<lparr>sd_base := Some p\<rparr>\<rparr> in
     bindR (add_mmio_map cfg ''sdhci'' (SDCARD_CTL_MMIO dc) p 0x80 (Some Sdcard_io) s) (\<lambda>s.
     bindR (assertR (C_SIZE < push_bit 12 1) ''shoule be fit in 12 bits'') (\<lambda>_.
     Inr (s\<lparr>sdcard := (sdcard s)\<lparr>sd_fp := map_option (\<lambda>b. (b, 0)) (sdcard_image dc)\<rparr>\<rparr>))))"

definition init_uart :: "config \<Rightarrow> dev_config \<Rightarrow> system \<Rightarrow> system result" where
  "init_uart cfg dc s =
     bindR (new_space 8 s) (\<lambda>(p, s).
     let s = s\<lparr>dev := (dev s)\<lparr>uart_port_base := Some p\<rparr>\<rparr> in
     bindR (reg_store cfg (Some p) 1 5 UART_LSR_READY s) (\<lambda>s.
     add_region cfg dc ''uart'' (UART_PORT dc) (UART_MMIO dc) p 8 (Some Uart_io) s))"

definition init_clint :: "config \<Rightarrow> dev_config \<Rightarrow> system \<Rightarrow> system result" where
  "init_clint cfg dc s =
     bindR (new_space 0x10000 s) (\<lambda>(p, s).
     let s = s\<lparr>dev := (dev s)\<lparr>clint_port_base := Some p\<rparr>\<rparr> in
     if HAS_PORT_IO dc then Inl (Panicked ''CLINT only supports MMIO'')
     else add_mmio_map cfg ''clint'' (CLINT_MMIO dc) p 0x10000 (Some Clint_io) s)"

definition if_config :: "bool \<Rightarrow> ('s \<Rightarrow> 's result) \<Rightarrow> 's \<Rightarrow> 's result" where
  "if_config b f s = (if b then f s else Inr s)"

text \<open>
  \<open>init_alarm\<close>, the last step, only installs the host's signal handler and interval
  timer and changes no state of the emulator.
\<close>

definition init_device :: "config \<Rightarrow> dev_config \<Rightarrow> system \<Rightarrow> system result" where
  "init_device cfg dc s =
     (let s = init_map s in
      if \<not> CONFIG_DEVICE cfg then Inr s else
      foldR (\<lambda>f. f)
        [if_config (HAS_SERIAL dc) (init_serial cfg dc),
         if_config (HAS_TIMER dc) (init_timer cfg dc),
         if_config (HAS_VGA dc) (init_vga cfg dc),
         if_config (HAS_KEYBOARD dc) (init_i8042 cfg dc),
         if_config (HAS_AUDIO dc) (init_audio cfg dc),
         if_config (HAS_DISK dc) (\<lambda>s. Inr (init_disk s)),
         if_config (HAS_SDCARD dc) (init_sdcard cfg dc),
         if_config (HAS_UART16550 dc) (init_uart cfg dc),
         if_config (HAS_CLINT dc) (init_clint cfg dc)] s)"

section \<open>device.c: polling\<close>

definition TIMER_HZ :: u64 where
  "TIMER_HZ = 60"

fun handle_events :: "dev_config \<Rightarrow> sdl_event list \<Rightarrow> system \<Rightarrow> system result" where
  "handle_events dc [] s = Inr s"
| "handle_events dc (SDL_QUIT_EVENT # es) s =
     handle_events dc es (s\<lparr>nemu_state := (nemu_state s)\<lparr>state := NEMU_QUIT\<rparr>\<rparr>)"
| "handle_events dc (SDL_KEY k down # es) s =
     (if HAS_KEYBOARD dc then bindR (send_key k down s) (handle_events dc es)
      else handle_events dc es s)"
| "handle_events dc (SDL_OTHER # es) s = handle_events dc es s"

definition device_update :: "config \<Rightarrow> dev_config \<Rightarrow> system \<Rightarrow> system result" where
  "device_update cfg dc s =
     (case get_time (dev s) of (now, d) \<Rightarrow>
       let s = s\<lparr>dev := d\<rparr> in
       if now - last_update d < 1000000 div TIMER_HZ then Inr s
       else bindR (if_config (HAS_VGA dc) (vga_update_screen cfg) (s\<lparr>dev := d\<lparr>last_update := now\<rparr>\<rparr>)) (\<lambda>s.
         handle_events dc (sdl_queue (dev s)) (s\<lparr>dev := (dev s)\<lparr>sdl_queue := []\<rparr>\<rparr>)))"

definition sdl_clear_event_queue :: "system \<Rightarrow> system" where
  "sdl_clear_event_queue s = s\<lparr>dev := (dev s)\<lparr>sdl_queue := []\<rparr>\<rparr>"

section \<open>The native machine after initialisation\<close>

definition dev0 :: "(nat \<Rightarrow> u64) \<Rightarrow> dev_state" where
  "dev0 clk = \<lparr>p_space = 0, boot_time = 0, host_clock = clk, clock_reads = 0, last_update = 0,
     sdl_queue = [], rtc_port_base = None, serial_base = None, i8042_data_port_base = None,
     keymap = (\<lambda>_. 0), key_queue = (\<lambda>_. 0), key_f = 0, key_r = 0, vgactl_port_base = None,
     vmem = None, frames = 0, audio_base = None, sbuf = None, uart_port_base = None,
     clint_port_base = None, alarms = [], host_stderr = []\<rparr>"

definition sd0 :: sd_state where
  "sd0 = \<lparr>sd_fp = None, sd_base = None, blkcnt = 0, blk_addr = 0, sd_addr = 0,
     write_cmd = False, read_ext_csd = False\<rparr>"

definition cpu0 :: CPU_state where
  "cpu0 = \<lparr>gpr = (\<lambda>_. 0), pc = 0, sr = (\<lambda>_. 0), priv = 0, last_inst_priv = 0, cpc = 0,
     cpc_for_pipeline = 0, npc_for_pipeline = 0\<rparr>"

text \<open>The state at program start: every static object zero, as C initialises it.\<close>

definition system0 :: "(nat \<Rightarrow> u64) \<Rightarrow> system" where
  "system0 clk = \<lparr>cpu = cpu0, harr = (\<lambda>_ _. 0), mem_flag = \<lparr>flag = 0, mf_addr = 0, mf_len = 0\<rparr>,
     nemu_state = \<lparr>state = NEMU_STOP, halt_pc = 0, halt_ret = 0\<rparr>, is_skip_ref = False,
     skip_dut_nr_inst = 0, mmio_maps = [], pio_maps = [], dev = dev0 clk, sdcard = sd0,
     ftrace = \<lparr>symbol_tbl = None, call_depth = 0, tail_rec = []\<rparr>,
     itrace = \<lparr>entries = (\<lambda>_. ([], 0)), it_head = 0, it_count = 0\<rparr>,
     itbin = \<lparr>bin_out = None, cur_start = 0, cur_count = 0, last_pc = 0\<rparr>,
     log_open = False, g_nr_guest_inst = 0\<rparr>"

section \<open>The keyboard queue is a bounded FIFO\<close>

text \<open>The contract of a queue that refuses an element when full and answers \<open>none\<close> when empty.\<close>

primrec deq_n :: "('q \<Rightarrow> 'a \<times> 'q) \<Rightarrow> nat \<Rightarrow> 'q \<Rightarrow> 'a list \<times> 'q" where
  "deq_n deq 0 q = ([], q)"
| "deq_n deq (Suc n) q =
     (case deq q of (x, q1) \<Rightarrow> case deq_n deq n q1 of (xs, q2) \<Rightarrow> (x # xs, q2))"

locale bounded_fifo =
  fixes enq :: "'a \<Rightarrow> 'q \<Rightarrow> 'q result"
    and deq :: "'q \<Rightarrow> 'a \<times> 'q"
    and items :: "'q \<Rightarrow> 'a list"
    and ok :: "'q \<Rightarrow> bool"
    and cap :: nat
    and none :: 'a
  assumes enq_room: "ok q \<Longrightarrow> length (items q) < cap \<Longrightarrow>
      \<exists>q'. enq x q = Inr q' \<and> ok q' \<and> items q' = items q @ [x]"
    and enq_full: "ok q \<Longrightarrow> length (items q) = cap \<Longrightarrow> \<exists>e. enq x q = Inl e"
    and items_bound: "ok q \<Longrightarrow> length (items q) \<le> cap"
    and deq_some: "ok q \<Longrightarrow> items q = x # xs \<Longrightarrow> \<exists>q'. deq q = (x, q') \<and> ok q' \<and> items q' = xs"
    and deq_none: "ok q \<Longrightarrow> items q = [] \<Longrightarrow> deq q = (none, q)"
begin

lemma enq_all:
  "ok q \<Longrightarrow> length (items q) + length xs \<le> cap \<Longrightarrow>
   \<exists>q'. foldR enq xs q = Inr q' \<and> ok q' \<and> items q' = items q @ xs"
proof (induction xs arbitrary: q)
  case (Cons x xs)
  then obtain q1 where q1: "enq x q = Inr q1" "ok q1" "items q1 = items q @ [x]"
    using enq_room [of q x] by auto
  with Cons.IH [of q1] Cons.prems show ?case by auto
qed simp

lemma enq_all_overflow:
  "ok q \<Longrightarrow> length (items q) + length xs > cap \<Longrightarrow> \<exists>e. foldR enq xs q = Inl e"
proof (induction xs arbitrary: q)
  case Nil
  then show ?case using items_bound [of q] by simp
next
  case (Cons x xs)
  show ?case
  proof (cases "length (items q) < cap")
    case True
    with Cons.prems(1) obtain q1 where "enq x q = Inr q1" "ok q1" "items q1 = items q @ [x]"
      using enq_room by blast
    with Cons.IH [of q1] Cons.prems show ?thesis by auto
  next
    case False
    with Cons.prems(1) have "length (items q) = cap"
      using items_bound by (simp add: order_antisym)
    with Cons.prems(1) show ?thesis
      using enq_full [of q x] by auto
  qed
qed

lemma deq_n_items:
  "ok q \<Longrightarrow> \<exists>q'. deq_n deq n q = (take n (items q) @ replicate (n - length (items q)) none, q') \<and>
     ok q' \<and> items q' = drop n (items q)"
proof (induction n arbitrary: q)
  case (Suc n)
  show ?case
  proof (cases "items q")
    case Nil
    with Suc deq_none show ?thesis by fastforce
  next
    case (Cons x xs)
    with Suc.prems obtain q1 where "deq q = (x, q1)" "ok q1" "items q1 = xs"
      using deq_some by blast
    with Suc.IH [of q1] Cons show ?thesis by auto
  qed
qed simp

lemma fifo_order:
  assumes "ok q" "items q = []" "length xs \<le> cap"
  shows "\<exists>q1 q2. foldR enq xs q = Inr q1 \<and> deq_n deq (length xs) q1 = (xs, q2) \<and> items q2 = []"
proof -
  obtain q1 where q1: "foldR enq xs q = Inr q1" "ok q1" "items q1 = xs"
    using enq_all [of q xs] assms by auto
  then show ?thesis
    using deq_n_items [of q1 "length xs"] by auto
qed

end

definition key_count :: "dev_state \<Rightarrow> nat" where
  "key_count d = (key_r d + KEY_QUEUE_LEN - key_f d) mod KEY_QUEUE_LEN"

definition key_items :: "dev_state \<Rightarrow> u32 list" where
  "key_items d = map (\<lambda>i. key_queue d ((key_f d + i) mod KEY_QUEUE_LEN)) [0..<key_count d]"

definition key_ok :: "dev_state \<Rightarrow> bool" where
  "key_ok d \<longleftrightarrow> key_f d < KEY_QUEUE_LEN \<and> key_r d < KEY_QUEUE_LEN"

lemma key_count_alt:
  "key_ok d \<Longrightarrow> key_count d = (if key_f d \<le> key_r d then key_r d - key_f d
                               else key_r d + KEY_QUEUE_LEN - key_f d)"
  by (auto simp: key_count_def key_ok_def KEY_QUEUE_LEN_def mod_if)

lemma length_key_items [simp]: "length (key_items d) = key_count d"
  by (simp add: key_items_def)

lemma key_index_inj:
  assumes "f < n" "i < n" "j < n" "(f + i) mod n = (f + j) mod n"
  shows "i = (j :: nat)"
  using assms by (auto simp: mod_if split: if_splits)

lemma key_enqueue_items:
  assumes ok: "key_ok d" and room: "key_count d < KEY_QUEUE_LEN - 1"
  shows "\<exists>d'. key_enqueue x d = Inr d' \<and> key_ok d' \<and> key_items d' = key_items d @ [x]"
proof -
  let ?r = "Suc (key_r d) mod KEY_QUEUE_LEN"
  let ?d = "d\<lparr>key_queue := (key_queue d)(key_r d := x), key_r := ?r\<rparr>"
  have pos: "0 < KEY_QUEUE_LEN" by (simp add: KEY_QUEUE_LEN_def)
  have ne: "?r \<noteq> key_f d"
    using ok room by (auto simp: key_count_alt key_ok_def mod_if split: if_splits)
  have cnt: "key_count ?d = Suc (key_count d)"
    using ok room pos by (auto simp: key_count_def key_ok_def mod_if split: if_splits)
  have last: "(key_f d + key_count d) mod KEY_QUEUE_LEN = key_r d"
    using ok by (auto simp: key_count_alt key_ok_def mod_if split: if_splits)
  have "(key_f d + i) mod KEY_QUEUE_LEN \<noteq> key_r d" if "i < key_count d" for i
  proof
    assume "(key_f d + i) mod KEY_QUEUE_LEN = key_r d"
    moreover have "key_count d < KEY_QUEUE_LEN" "key_f d < KEY_QUEUE_LEN"
      using room ok by (simp_all add: key_ok_def)
    ultimately have "i = key_count d"
      using key_index_inj [of "key_f d" KEY_QUEUE_LEN i "key_count d"] last that by simp
    with that show False by simp
  qed
  then have "key_items ?d = key_items d @ [x]"
    unfolding key_items_def cnt by (simp add: last)
  moreover have "key_enqueue x d = Inr ?d"
    using ne by (simp add: key_enqueue_def Let_def)
  ultimately show ?thesis
    using ok pos by (auto simp: key_ok_def)
qed

lemma key_enqueue_full:
  "key_ok d \<Longrightarrow> key_count d = KEY_QUEUE_LEN - 1 \<Longrightarrow> \<exists>e. key_enqueue x d = Inl e"
  by (auto simp: key_count_alt key_enqueue_def key_ok_def Let_def assertR_def mod_if KEY_QUEUE_LEN_def
      split: if_splits)

lemma key_dequeue_items:
  assumes ok: "key_ok d" and items: "key_items d = x # xs"
  shows "\<exists>d'. key_dequeue d = (x, d') \<and> key_ok d' \<and> key_items d' = xs"
proof -
  let ?d = "d\<lparr>key_f := Suc (key_f d) mod KEY_QUEUE_LEN\<rparr>"
  have pos: "0 < KEY_QUEUE_LEN" by (simp add: KEY_QUEUE_LEN_def)
  have n: "key_count d = Suc (length xs)"
    using items by (metis length_Cons length_key_items)
  then have ne: "key_f d \<noteq> key_r d"
    using ok by (auto simp: key_count_alt)
  have cnt: "key_count ?d = length xs"
    using n ok by (auto simp: key_count_def key_ok_def mod_if split: if_splits)
  have "[0..<key_count d] = 0 # map Suc [0..<length xs]"
    by (simp add: n upt_conv_Cons map_Suc_upt del: upt_Suc)
  with items have x: "x = key_queue d (key_f d)" and
    xs: "xs = map (\<lambda>i. key_queue d ((key_f d + Suc i) mod KEY_QUEUE_LEN)) [0..<length xs]"
    using ok by (auto simp: key_items_def key_ok_def comp_def)
  have "key_items ?d = xs"
    unfolding key_items_def cnt by (subst (2) xs) (simp add: mod_add_left_eq)
  with ne x ok pos show ?thesis
    by (auto simp: key_dequeue_def key_ok_def)
qed

interpretation keys: bounded_fifo key_enqueue key_dequeue key_items key_ok "KEY_QUEUE_LEN - 1" 0
proof
  fix q :: dev_state
  assume "key_ok q"
  then show "length (key_items q) \<le> KEY_QUEUE_LEN - 1"
    by (auto simp: key_count_def KEY_QUEUE_LEN_def)
next
  fix q :: dev_state
  assume "key_ok q" "key_items q = []"
  then show "key_dequeue q = (0, q)"
    by (metis key_dequeue_def key_count_alt key_ok_def length_key_items list.size(3)
        diff_is_0_eq le_antisym not_less trans_le_add2 le_add2 nat_le_linear)
qed (auto simp: key_enqueue_items key_enqueue_full key_dequeue_items)

end
