(* ===== verification/Device_Properties.thy ===== *)
theory Device_Properties
  imports Devices_Init
begin

text \<open>
  What the guest relies on when it talks to the devices: the keyboard delivers keys in
  order, the two halves of the real-time clock belong to one reading, blocks written to
  the SD card are read back, every address reaches the one region it lies in.
\<close>

section \<open>A mapped region seen from the guest\<close>

text \<open>The register block of \<open>n\<close> bytes of a device, allocated and mapped as \<open>init_*\<close> does.\<close>

definition region_ok :: "IOMap \<Rightarrow> nat \<Rightarrow> io_callback \<Rightarrow> bool" where
  "region_ok m n c \<longleftrightarrow> map_callback m = Some c \<and> map_space m + n \<le> IO_SPACE_MAX \<and>
     unat (map_low m) + n \<le> 2 ^ 32 \<and> 0 < n \<and> map_high m = map_low m + of_nat (n - 1)"

lemma region_ok_addr:
  assumes "region_ok m n c" and "k < n"
  shows "check_bound (Some m) (map_low m + of_nat k) = Inr ()"
    and "unat (map_low m + of_nat k - map_low m) = k"
proof -
  have k: "unat (of_nat k :: u32) = k"
    using assms by (intro unat_of_nat_u32) (auto simp: region_ok_def)
  have n: "unat (of_nat (n - 1) :: u32) = n - 1"
    using assms by (intro unat_of_nat_u32) (auto simp: region_ok_def)
  show "unat (map_low m + of_nat k - map_low m) = k"
    using k by simp
  have "unat (map_low m + of_nat j) = unat (map_low m) + j" if "j < n" for j
  proof -
    have "unat (of_nat j :: u32) = j"
      using assms that by (intro unat_of_nat_u32) (auto simp: region_ok_def)
    then show ?thesis
      using assms that by (subst unat_add_lem [THEN iffD1]) (auto simp: region_ok_def)
  qed
  note addr = this
  have "unat (map_high m) = unat (map_low m) + (n - 1)"
    using addr [of "n - 1"] assms(1) by (simp only: region_ok_def) simp
  then show "check_bound (Some m) (map_low m + of_nat k) = Inr ()"
    using addr [OF assms(2)] assms(2) by (auto simp: check_bound_def word_le_nat_alt assertR_def)
qed

lemma region_write:
  assumes "region_ok m n c" and "k + 4 \<le> n"
  shows "map_write cb cfg (map_low m + of_nat k) 4 d (Some m) s =
    cb c (of_nat k) 4 True
      (s\<lparr>harr := store_le hput (hrange (A_io, map_space m + k) 4) d (harr s)\<rparr>)"
  using region_ok_addr [OF assms(1), of k] assms
  by (simp add: map_write_def invoke_callback_def host_write_def host_store_def region_ok_def)

lemma region_read:
  assumes "region_ok m n c" and "k + 4 \<le> n"
  shows "map_read cb cfg (map_low m + of_nat k) 4 (Some m) s =
    bindR (cb c (of_nat k) 4 False s) (\<lambda>t.
      Inr (load_le (hget (harr t)) (hrange (A_io, map_space m + k) 4), t))"
  using region_ok_addr [OF assms(1), of k] assms
  by (auto simp: map_read_def invoke_callback_def host_read_def host_load_def region_ok_def
      intro!: bindR_cong)

section \<open>Real-time clock\<close>

lemma reg_store_io:
  "reg_store cfg (Some p) n i v s =
    (if p + n * i + n \<le> IO_SPACE_MAX
     then Inr (s\<lparr>harr := store_le hput (hrange (A_io, p + n * i) n) v (harr s)\<rparr>)
     else Inl (Undefined ''host write outside the array''))"
  by (simp add: reg_store_def the_base_def host_store_def)

lemma reg_load_io:
  "reg_load cfg (Some p) n i s =
    (if p + n * i + n \<le> IO_SPACE_MAX
     then Inr (load_le (hget (harr s)) (hrange (A_io, p + n * i) n))
     else Inl (Undefined ''host read outside the array''))"
  by (simp add: reg_load_def the_base_def host_load_def)

lemma get_time_bases: "get_time d = (us, d') \<Longrightarrow> rtc_port_base d' = rtc_port_base d"
  by (auto simp: get_time_def get_time_internal_def Let_def split: if_splits)

text \<open>A guest that reads the high word of the clock and then the low word gets the two
  halves of one 64-bit reading of the host time, whatever time passes in between.\<close>

lemma rtc_halves_of_one_reading:
  assumes "region_ok m 8 Rtc_io" and "rtc_port_base (dev s) = Some (map_space m)"
    and "get_time (dev s) = (us, d)"
  shows "\<exists>t. map_read (io_handler cfg) cfg (map_low m + 4) 4 (Some m) s =
               Inr (ucast (drop_bit 32 us), t) \<and>
             map_read (io_handler cfg) cfg (map_low m) 4 (Some m) t = Inr (ucast us, t)"
proof -
  let ?p = "map_space m"
  have p: "?p + 8 \<le> IO_SPACE_MAX" using assms(1) by (simp add: region_ok_def)
  have base: "rtc_port_base d = Some ?p"
    using assms(2,3) by (simp add: get_time_bases)
  let ?h = "store_le hput (hrange (A_io, ?p + 4) 4) (ucast (drop_bit 32 us))
    (store_le hput (hrange (A_io, ?p) 4) (ucast us) (harr s))"
  let ?t = "s\<lparr>dev := d, harr := ?h\<rparr>"
  have "rtc_io_handler cfg 4 4 False s = Inr ?t"
    using p by (simp add: rtc_io_handler_def assms(3) base reg_store_io)
  moreover have "load_le (hget ?h) (hrange (A_io, ?p + 4) 4) = ucast (drop_bit 32 us)"
    by (subst host.load_store) simp_all
  moreover have "load_le (hget ?h) (hrange (A_io, ?p) 4) = ucast us"
    by (subst host.load_store_disjoint [OF hrange_disjoint])
      (simp_all add: host.load_store)
  ultimately show ?thesis
    using region_read [OF assms(1), of 4 "io_handler cfg" cfg s]
      region_read [OF assms(1), of 0 "io_handler cfg" cfg ?t]
    by (intro exI [of _ ?t]) (simp add: rtc_io_handler_def)
qed

definition rtc_example :: IOMap where
  "rtc_example = \<lparr>map_name = ''rtc'', map_low = 0xa0000048, map_high = 0xa000004f,
     map_space = 0x1000, map_callback = Some Rtc_io\<rparr>"

definition rtc_example_system :: system where
  "rtc_example_system = (let s = system0 (\<lambda>n. of_nat n * 0x123456789 + 7)
     in s\<lparr>dev := (dev s)\<lparr>rtc_port_base := Some 0x1000\<rparr>\<rparr>)"

lemma rtc_halves_of_one_reading_witness:
  "\<exists>t. map_read (io_handler native_config) native_config 0xa000004c 4 (Some rtc_example)
         rtc_example_system = Inr (1, t) \<and>
       map_read (io_handler native_config) native_config 0xa0000048 4 (Some rtc_example) t =
         Inr (0x23456789, t)"
proof -
  have low: "(0x123456789 :: u32) = 0x23456789" by simp
  show ?thesis
    using rtc_halves_of_one_reading [of rtc_example rtc_example_system "0x123456789"
        "snd (get_time (dev rtc_example_system))" native_config]
    by (simp add: region_ok_def rtc_example_def rtc_example_system_def system0_def dev0_def
        get_time_def get_time_internal_def IO_SPACE_MAX_def low)
qed

section \<open>SD card\<close>

text \<open>
  The guest's driver: command 25 (write multiple blocks) or 18 (read multiple blocks)
  with the block number in the argument register, then one access to the data register
  per word.
\<close>

definition sd_start :: "config \<Rightarrow> IOMap \<Rightarrow> u32 \<Rightarrow> u32 \<Rightarrow> system \<Rightarrow> system result" where
  "sd_start cfg m cmd blk s =
     bindR (map_write (io_handler cfg) cfg (map_low m + 4) 4 blk (Some m) s)
       (map_write (io_handler cfg) cfg (map_low m) 4 cmd (Some m))"

definition sd_put :: "config \<Rightarrow> IOMap \<Rightarrow> u32 \<Rightarrow> system \<Rightarrow> system result" where
  "sd_put cfg m w s = map_write (io_handler cfg) cfg (map_low m + 64) 4 w (Some m) s"

fun sd_get :: "config \<Rightarrow> IOMap \<Rightarrow> nat \<Rightarrow> system \<Rightarrow> (u32 list \<times> system) result" where
  "sd_get cfg m 0 s = Inr ([], s)"
| "sd_get cfg m (Suc n) s =
     bindR (map_read (io_handler cfg) cfg (map_low m + 64) 4 (Some m) s) (\<lambda>(w, t).
     bindR (sd_get cfg m n t) (\<lambda>(ws, u). Inr (w # ws, u)))"

definition sd_ready :: "IOMap \<Rightarrow> system \<Rightarrow> bool" where
  "sd_ready m s \<longleftrightarrow> region_ok m 0x80 Sdcard_io \<and>
     sd_base (sdcard s) = Some (map_space m) \<and> \<not> read_ext_csd (sdcard s)"

lemma length_bytes_of_word [simp]: "length (bytes_of_word n v) = n"
  by (induction n arbitrary: v) auto

lemma put_bytes_store:
  "put_bytes p (bytes_of_word n v) s =
   s\<lparr>harr := store_le hput (map (\<lambda>k. (A_io, p + k)) [0..<n]) v (harr s)\<rparr>"
proof (induction n arbitrary: p v s)
  case (Suc n)
  have "[0..<Suc n] = 0 # map Suc [0..<n]"
    by (simp add: upt_conv_Cons map_Suc_upt del: upt_Suc)
  with Suc show ?case by (simp add: comp_def del: upt_Suc hput.simps)
qed simp

lemma unat_block_position: "unat (push_bit 9 (ucast (blk :: u32) :: u64)) = 512 * unat blk"
proof -
  have b: "unat blk < 2 ^ LENGTH(32)"
    by (rule unsigned_less)
  then have "unat (ucast blk :: u64) = unat blk"
    by (simp add: unsigned_ucast_eq take_bit_nat_eq_self)
  with b show ?thesis
    by (simp add: push_bit_eq_mult unat_word_ariths)
qed

lemma sd_ready_harr [simp]: "sd_ready m (s\<lparr>harr := h\<rparr>) = sd_ready m s"
  by (simp add: sd_ready_def)

lemma sd_ready_bounds: "sd_ready m s \<Longrightarrow> map_space m + 128 \<le> IO_SPACE_MAX"
  by (simp add: sd_ready_def region_ok_def)

lemma sd_start_ok:
  assumes r: "sd_ready m s" and fp: "sd_fp (sdcard s) = Some (bytes, pos)" and c: "cmd \<in> {18, 25}"
  shows "\<exists>t. sd_start cfg m cmd blk s = Inr t \<and> sd_ready m t \<and>
    sd_fp (sdcard t) = Some (bytes, 512 * unat blk) \<and> write_cmd (sdcard t) = (cmd = 25)"
proof -
  let ?p = "map_space m"
  have ok: "region_ok m 0x80 Sdcard_io" and base: "sd_base (sdcard s) = Some ?p"
    using r by (simp_all add: sd_ready_def)
  note p = sd_ready_bounds [OF r]
  have cmd: "load_le (hget (store_le hput (hrange (A_io, ?p) 4) x h)) (hrange (A_io, ?p) 4) = x"
    for x h by (simp add: host.load_store)
  have arg: "load_le (hget (store_le hput (hrange (A_io, ?p) 4) x
      (store_le hput (hrange (A_io, ?p + 4) 4) blk h))) (hrange (A_io, ?p + 4) 4) = blk" for x h
    using hrange_disjoint [of ?p 4 "?p + 4" A_io 4]
    by (subst host.load_store_disjoint) (auto simp: host.load_store)
  have masked: "cmd AND 0x3f = cmd" using c by auto
  show ?thesis
    using region_write [OF ok, of 4 "io_handler cfg" cfg blk s]
      region_write [OF ok, of 0 "io_handler cfg" cfg cmd] c p r
    by (auto simp: sd_start_def sdcard_io_handler_def base reg_load_io cmd arg masked fp
        sdcard_handle_cmd_def prepare_rw_def Let_def unat_block_position sd_ready_def
        simp flip: One_nat_def)
qed

lemma sd_put_ok:
  assumes r: "sd_ready m s" and fp: "sd_fp (sdcard s) = Some (bytes, pos)" and w: "write_cmd (sdcard s)"
  shows "\<exists>t. sd_put cfg m w s = Inr t \<and> sd_ready m t \<and> write_cmd (sdcard t) \<and>
    sd_fp (sdcard t) = Some (take pos (bytes @ replicate (pos - length bytes) 0) @
       bytes_of_word 4 w @ drop (pos + 4) (bytes @ replicate (pos - length bytes) 0), pos + 4)"
proof -
  have ok: "region_ok m 0x80 Sdcard_io" and base: "sd_base (sdcard s) = Some (map_space m)"
    and csd: "\<not> read_ext_csd (sdcard s)"
    using r by (simp_all add: sd_ready_def)
  show ?thesis
    using region_write [OF ok, of 64 "io_handler cfg" cfg w s] sd_ready_bounds [OF r] fp w csd base r
    by (simp add: sd_put_def sdcard_io_handler_def sdcard_data_def sd_write_data_def reg_load_io
        host.load_store sd_ready_def)
qed

lemma sd_get_ok:
  assumes r: "sd_ready m s" and fp: "sd_fp (sdcard s) = Some (bytes, pos)"
    and w: "\<not> write_cmd (sdcard s)" and chunk: "take 4 (drop pos bytes) = bytes_of_word 4 w"
  shows "\<exists>t. map_read (io_handler cfg) cfg (map_low m + 64) 4 (Some m) s = Inr (w, t) \<and>
    sd_ready m t \<and> \<not> write_cmd (sdcard t) \<and> sd_fp (sdcard t) = Some (bytes, pos + 4)"
proof -
  have ok: "region_ok m 0x80 Sdcard_io" and base: "sd_base (sdcard s) = Some (map_space m)"
    and csd: "\<not> read_ext_csd (sdcard s)"
    using r by (simp_all add: sd_ready_def)
  have "put_bytes (map_space m + 64) (bytes_of_word 4 w) s =
      s\<lparr>harr := store_le hput (hrange (A_io, map_space m + 64) 4) w (harr s)\<rparr>"
    by (simp only: put_bytes_store hrange.simps)
  moreover have "min (length bytes - pos) 4 = 4"
    using arg_cong [OF chunk, of length] by simp
  ultimately show ?thesis
    using region_read [OF ok, of 64 "io_handler cfg" cfg s] sd_ready_bounds [OF r] fp w csd base r chunk
    by (simp add: sdcard_io_handler_def sdcard_data_def sd_read_data_def the_base_def
        host.load_store sd_ready_def)
qed

text \<open>What the image holds after a run of writes, and reading it back.\<close>

lemma sd_put_all:
  assumes "sd_ready m s" and "write_cmd (sdcard s)" and "sd_fp (sdcard s) = Some (bytes, pos)"
    and "ws \<noteq> []"
  shows "\<exists>t bytes'. foldR (sd_put cfg m) ws s = Inr t \<and> sd_ready m t \<and>
    sd_fp (sdcard t) = Some (bytes', pos + 4 * length ws) \<and> pos + 4 * length ws \<le> length bytes' \<and>
    take pos bytes' = take pos (bytes @ replicate (pos - length bytes) 0) \<and>
    take (4 * length ws) (drop pos bytes') = concat (map (bytes_of_word 4) ws)"
  using assms
proof (induction ws arbitrary: s bytes pos)
  case (Cons w ws)
  let ?pad = "bytes @ replicate (pos - length bytes) 0"
  let ?b = "take pos ?pad @ bytes_of_word 4 w @ drop (pos + 4) ?pad"
  obtain t where t: "sd_put cfg m w s = Inr t" "sd_ready m t" "write_cmd (sdcard t)"
    "sd_fp (sdcard t) = Some (?b, pos + 4)"
    using sd_put_ok [OF Cons.prems(1,3,2)] by metis
  have len: "length (take pos ?pad) = pos" "pos + 4 \<le> length ?b" by auto
  show ?case
  proof (cases "ws = []")
    case True
    with t len show ?thesis by auto
  next
    case False
    then obtain u b' where u: "foldR (sd_put cfg m) ws t = Inr u" "sd_ready m u"
      "sd_fp (sdcard u) = Some (b', pos + 4 + 4 * length ws)"
      "pos + 4 + 4 * length ws \<le> length b'" "take (pos + 4) b' = take (pos + 4) ?b"
      "take (4 * length ws) (drop (pos + 4) b') = concat (map (bytes_of_word 4) ws)"
      using Cons.IH [OF t(2,3,4)] len(2) by auto
    have "take pos b' = take pos ?pad"
      using arg_cong [OF u(5), of "take pos"] len(1) by (simp add: min_def)
    moreover have "take 4 (drop pos b') = bytes_of_word 4 w"
      using arg_cong [OF u(5), of "drop pos"] len(1) by (simp add: drop_take)
    then have "take (4 + 4 * length ws) (drop pos b') = concat (map (bytes_of_word 4) (w # ws))"
      using u(6) by (simp only: take_add drop_drop add.commute [of 4 pos]) simp
    ultimately show ?thesis
      using t(1) u by auto
  qed
qed simp

lemma sd_get_all:
  assumes "sd_ready m s" and "\<not> write_cmd (sdcard s)" and "sd_fp (sdcard s) = Some (bytes, pos)"
    and "take (4 * length ws) (drop pos bytes) = concat (map (bytes_of_word 4) ws)"
  shows "\<exists>t. sd_get cfg m (length ws) s = Inr (ws, t)"
  using assms
proof (induction ws arbitrary: s pos)
  case (Cons w ws)
  have chunk: "take 4 (drop pos bytes) = bytes_of_word 4 w"
    using arg_cong [OF Cons.prems(4), of "take 4"] by (simp add: min_def)
  obtain t where t: "map_read (io_handler cfg) cfg (map_low m + 64) 4 (Some m) s = Inr (w, t)"
    "sd_ready m t" "\<not> write_cmd (sdcard t)" "sd_fp (sdcard t) = Some (bytes, pos + 4)"
    using sd_get_ok [OF Cons.prems(1,3,2) chunk] by blast
  have "take (4 * length ws) (drop (pos + 4) bytes) = concat (map (bytes_of_word 4) ws)"
    using arg_cong [OF Cons.prems(4), of "drop 4"] by (simp add: drop_take add.commute)
  with Cons.IH [OF t(2,3,4)] t(1) show ?case by auto
qed simp

text \<open>C13: A run of words written to the SD card from any block is what a later read from
  that block returns, whatever the image held and wherever its position was.\<close>

theorem sdcard_write_then_read:
  assumes "sd_ready m s" and "sd_fp (sdcard s) = Some (bytes, pos)" and "ws \<noteq> []"
  shows "\<exists>t1 t2 t3 t4. sd_start cfg m 25 blk s = Inr t1 \<and> foldR (sd_put cfg m) ws t1 = Inr t2 \<and>
    sd_start cfg m 18 blk t2 = Inr t3 \<and> sd_get cfg m (length ws) t3 = Inr (ws, t4)"
proof -
  obtain t1 where t1: "sd_start cfg m 25 blk s = Inr t1" "sd_ready m t1" "write_cmd (sdcard t1)"
    "sd_fp (sdcard t1) = Some (bytes, 512 * unat blk)"
    using sd_start_ok [OF assms(1,2), of 25] by auto
  obtain t2 b where t2: "foldR (sd_put cfg m) ws t1 = Inr t2" "sd_ready m t2"
    "sd_fp (sdcard t2) = Some (b, 512 * unat blk + 4 * length ws)"
    "take (4 * length ws) (drop (512 * unat blk) b) = concat (map (bytes_of_word 4) ws)"
    using sd_put_all [OF t1(2-4) assms(3)] by blast
  obtain t3 where t3: "sd_start cfg m 18 blk t2 = Inr t3" "sd_ready m t3" "\<not> write_cmd (sdcard t3)"
    "sd_fp (sdcard t3) = Some (b, 512 * unat blk)"
    using sd_start_ok [OF t2(2,3), of 18] by auto
  with sd_get_all [OF t3(2-4) t2(4)] t1(1) t2(1) show ?thesis by blast
qed

definition sd_example :: IOMap where
  "sd_example = \<lparr>map_name = ''sdhci'', map_low = 0xa3000000, map_high = 0xa300007f,
     map_space = 0, map_callback = Some Sdcard_io\<rparr>"

definition sd_example_system :: system where
  "sd_example_system = (let s = system0 (\<lambda>_. 0)
     in s\<lparr>sdcard := sd0\<lparr>sd_fp := Some ([1, 2, 3], 2), sd_base := Some 0\<rparr>\<rparr>)"

lemma sdcard_write_then_read_witness:
  "\<exists>t1 t2 t3 t4. sd_start native_config sd_example 25 1 sd_example_system = Inr t1 \<and>
    foldR (sd_put native_config sd_example) [0xdeadbeef, 7] t1 = Inr t2 \<and>
    sd_start native_config sd_example 18 1 t2 = Inr t3 \<and>
    sd_get native_config sd_example 2 t3 = Inr ([0xdeadbeef, 7], t4)"
proof -
  have "sd_ready sd_example sd_example_system"
    by (simp add: sd_ready_def region_ok_def sd_example_def sd_example_system_def sd0_def
        IO_SPACE_MAX_def)
  moreover have "sd_fp (sdcard sd_example_system) = Some ([1, 2, 3], 2)"
    by (simp add: sd_example_system_def Let_def)
  ultimately show ?thesis
    using sdcard_write_then_read [of sd_example sd_example_system "[1, 2, 3]" 2
        "[0xdeadbeef, 7]" native_config 1]
    by (simp add: numeral_2_eq_2 del: foldR.simps sd_get.simps)
qed

section \<open>Keyboard\<close>

text \<open>Keys sent while the queue is empty come out in the order they went in, up to the
  1023 the ring of 1024 entries can hold, and the queue is empty again afterwards.\<close>

lemma keyboard_delivers_in_order:
  assumes "key_ok d" and "key_items d = []" and "length ks \<le> KEY_QUEUE_LEN - 1"
  shows "\<exists>d1 d2. foldR key_enqueue ks d = Inr d1 \<and>
    deq_n key_dequeue (length ks) d1 = (ks, d2) \<and> key_items d2 = []"
  using assms by (rule keys.fifo_order)

lemma keyboard_delivers_in_order_witness:
  "\<exists>d1 d2. foldR key_enqueue [5, 0x8005, 9] (dev0 (\<lambda>_. 0)) = Inr d1 \<and>
    deq_n key_dequeue 3 d1 = ([5, 0x8005, 9], d2) \<and> key_items d2 = []"
  using keyboard_delivers_in_order [of "dev0 (\<lambda>_. 0)" "[5, 0x8005, 9]"]
  by (simp add: key_ok_def key_items_def key_count_def dev0_def KEY_QUEUE_LEN_def numeral_3_eq_3)

lemma keyboard_overflow_is_caught:
  assumes "key_ok d" and "KEY_QUEUE_LEN - 1 < length (key_items d) + length ks"
  shows "\<exists>e. foldR key_enqueue ks d = Inl e"
  using assms by (rule keys.enq_all_overflow)

section \<open>Regions\<close>

lemma new_space_maps: "new_space n s = Inr (p, t) \<Longrightarrow> mmio_maps t = mmio_maps s"
  by (auto simp: new_space_def Let_def result_simps split: if_splits)

lemma reg_store_maps: "reg_store cfg b n i v s = Inr t \<Longrightarrow> mmio_maps t = mmio_maps s"
  by (auto simp: reg_store_def result_simps)

lemma add_pio_map_maps: "add_pio_map name p sp len c s = Inr t \<Longrightarrow> mmio_maps t = mmio_maps s"
  by (auto simp: add_pio_map_def Let_def result_simps)

lemma add_region_maps_ok:
  "add_region cfg dc name port mmio sp len c s = Inr t \<Longrightarrow> maps_ok (mmio_maps s) \<Longrightarrow>
   maps_ok (mmio_maps t)"
  by (auto simp: add_region_def add_pio_map_maps add_mmio_map_maps_ok split: if_splits)

lemmas init_steps = new_space_maps reg_store_maps add_region_maps_ok add_mmio_map_maps_ok

lemma init_timer_maps: "init_timer cfg dc s = Inr t \<Longrightarrow> maps_ok (mmio_maps s) \<Longrightarrow> maps_ok (mmio_maps t)"
  by (auto simp: init_timer_def add_alarm_handle_def Let_def result_simps
      dest!: add_region_maps_ok dest: new_space_maps split: prod.splits)

lemma init_serial_maps: "init_serial cfg dc s = Inr t \<Longrightarrow> maps_ok (mmio_maps s) \<Longrightarrow> maps_ok (mmio_maps t)"
  by (auto simp: init_serial_def Let_def result_simps
      dest!: add_region_maps_ok dest: new_space_maps)

lemma init_i8042_maps: "init_i8042 cfg dc s = Inr t \<Longrightarrow> maps_ok (mmio_maps s) \<Longrightarrow> maps_ok (mmio_maps t)"
  by (auto simp: init_i8042_def Let_def result_simps dest!: add_region_maps_ok reg_store_maps
      dest: new_space_maps)

lemma init_vga_maps: "init_vga cfg dc s = Inr t \<Longrightarrow> maps_ok (mmio_maps s) \<Longrightarrow> maps_ok (mmio_maps t)"
  by (auto simp: init_vga_def clear_vmem_def Let_def result_simps split: if_splits
      dest!: add_region_maps_ok reg_store_maps add_mmio_map_maps_ok new_space_maps)

lemma init_audio_maps: "init_audio cfg dc s = Inr t \<Longrightarrow> maps_ok (mmio_maps s) \<Longrightarrow> maps_ok (mmio_maps t)"
  by (auto simp: init_audio_def Let_def result_simps
      dest!: add_region_maps_ok add_mmio_map_maps_ok new_space_maps)

lemma init_sdcard_maps: "init_sdcard cfg dc s = Inr t \<Longrightarrow> maps_ok (mmio_maps s) \<Longrightarrow> maps_ok (mmio_maps t)"
  by (auto simp: init_sdcard_def Let_def result_simps
      dest!: add_mmio_map_maps_ok new_space_maps)

lemma init_uart_maps: "init_uart cfg dc s = Inr t \<Longrightarrow> maps_ok (mmio_maps s) \<Longrightarrow> maps_ok (mmio_maps t)"
  by (auto simp: init_uart_def Let_def result_simps
      dest!: add_region_maps_ok reg_store_maps new_space_maps)

lemma init_clint_maps: "init_clint cfg dc s = Inr t \<Longrightarrow> maps_ok (mmio_maps s) \<Longrightarrow> maps_ok (mmio_maps t)"
  by (auto simp: init_clint_def Let_def result_simps split: if_splits
      dest!: add_mmio_map_maps_ok new_space_maps)

lemma init_device_maps_ok:
  assumes "init_device cfg dc s = Inr t" and "maps_ok (mmio_maps s)"
  shows "maps_ok (mmio_maps t)"
proof (cases "CONFIG_DEVICE cfg")
  case True
  with assms(1) have "foldR (\<lambda>f. f)
        [if_config (HAS_SERIAL dc) (init_serial cfg dc),
         if_config (HAS_TIMER dc) (init_timer cfg dc),
         if_config (HAS_VGA dc) (init_vga cfg dc),
         if_config (HAS_KEYBOARD dc) (init_i8042 cfg dc),
         if_config (HAS_AUDIO dc) (init_audio cfg dc),
         if_config (HAS_DISK dc) (\<lambda>s. Inr (init_disk s)),
         if_config (HAS_SDCARD dc) (init_sdcard cfg dc),
         if_config (HAS_UART16550 dc) (init_uart cfg dc),
         if_config (HAS_CLINT dc) (init_clint cfg dc)] (init_map s) = Inr t"
    by (simp add: init_device_def Let_def)
  then show ?thesis
    by (rule foldR_invariant [where I = "\<lambda>s. maps_ok (mmio_maps s)"])
      (use assms(2) in \<open>auto simp: init_map_def if_config_def init_disk_def
        dest: init_serial_maps init_timer_maps init_vga_maps init_i8042_maps init_audio_maps
          init_sdcard_maps init_uart_maps init_clint_maps split: if_splits\<close>)
qed (use assms in \<open>auto simp: init_device_def init_map_def\<close>)

text \<open>C12: Whatever devices are configured, once \<open>init_device\<close> has registered them every
  address of a region is dispatched to that region: no earlier entry of the table shadows
  it.\<close>

theorem init_device_dispatch_unique:
  assumes "init_device cfg dc s = Inr t" and "mmio_maps s = []"
    and "i < length (mmio_maps t)" and "map_inside (mmio_maps t ! i) addr"
  shows "fst (fetch_mmio_map cfg addr t) = Some (mmio_maps t ! i)"
proof -
  have "maps_ok (mmio_maps t)"
    using init_device_maps_ok [OF assms(1)] assms(2) by (simp add: maps_ok_def)
  with assms(3,4) show ?thesis
    by (simp add: fetch_mmio_map_def find_mapid_by_addr_def find_mapid_from_unique)
qed

section \<open>The native machine\<close>

lemmas init_device_defs = init_device_def init_map_def if_config_def init_serial_def
  init_timer_def init_vga_def init_i8042_def init_audio_def init_disk_def init_sdcard_def
  init_uart_def init_clint_def add_region_def add_mmio_map_def add_alarm_handle_def
  clear_vmem_def init_keymap_def screen_size_def screen_width_def screen_height_def

lemmas native_defs = native_config_def native_dev_config_def system0_def dev0_def sd0_def

definition native_regions :: "(string \<times> u32 \<times> u32 \<times> nat) list" where
  "native_regions =
       [(''serial'', 0xa00003f8, 0xa00003ff, 0), (''rtc'', 0xa0000048, 0xa000004f, 0x1000),
        (''vgactl'', 0xa0000100, 0xa0000107, 0x2000), (''vmem'', 0xa1000000, 0xa10752ff, 0x3000),
        (''keyboard'', 0xa0000060, 0xa0000063, 0x79000), (''audio'', 0xa0000200, 0xa0000217, 0x7a000),
        (''audio-sbuf'', 0xa1200000, 0xa120ffff, 0x7b000)]"

lemma native_init_regions:
  "\<exists>t. init_device native_config (native_dev_config sc) (system0 clk) = Inr t \<and>
     map (\<lambda>m. (map_name m, map_low m, map_high m, map_space m)) (mmio_maps t) = native_regions \<and>
     alarms (dev t) = [Timer_intr]"
  by (simp add: init_device_defs native_defs new_space_eval Let_def in_pmem_def NR_MAP_def
      IO_SPACE_MAX_def reg_store_io MAX_HANDLER_def assertR_def native_regions_def)

text \<open>With the default configuration \<open>init_device\<close> succeeds, with the host's table of scan
  codes and clock left open, and maps the serial port, clock, VGA, keyboard and audio
  regions at the addresses of the Kconfig files, each backed by pages of its own.\<close>

lemma native_init_device:
  "\<exists>t. init_device native_config (native_dev_config sc) (system0 clk) = Inr t \<and>
     map (\<lambda>m. (map_name m, map_low m, map_high m, map_space m)) (mmio_maps t) = native_regions \<and>
     alarms (dev t) = [Timer_intr]"
  by (rule native_init_regions)

lemma init_device_dispatch_unique_witness:
  "\<exists>t. init_device native_config (native_dev_config (\<lambda>_. 0)) (system0 (\<lambda>_. 0)) = Inr t \<and>
     fst (fetch_mmio_map native_config 0xa1000004 t) = Some (mmio_maps t ! 3)"
proof -
  obtain t where t: "init_device native_config (native_dev_config (\<lambda>_. 0)) (system0 (\<lambda>_. 0)) = Inr t"
    and m: "map (\<lambda>m. (map_name m, map_low m, map_high m, map_space m)) (mmio_maps t) = native_regions"
    using native_init_regions [of "\<lambda>_. 0" "\<lambda>_. 0"] by blast
  have len: "3 < length (mmio_maps t)"
    using arg_cong [OF m, of length] by (simp add: native_regions_def)
  then have "map_low (mmio_maps t ! 3) = 0xa1000000 \<and> map_high (mmio_maps t ! 3) = 0xa10752ff"
    using arg_cong [OF m, of "\<lambda>xs. xs ! 3"] by (simp add: native_regions_def)
  then have "map_inside (mmio_maps t ! 3) 0xa1000004"
    by (simp add: map_inside_def)
  with t len show ?thesis
    using init_device_dispatch_unique [OF t, of 3 "0xa1000004"] by (simp add: system0_def)
qed

end
