(* ===== verification/Nemu_Trace.thy ===== *)
theory Nemu_Trace
  imports Nemu_State
begin

text \<open>
  The tracers of NEMU: the ring of recent instructions and the function-call tracer of
  \<open>nemu/src/utils/trace.c\<close>, and the compressed trace of program counters of
  \<open>nemu/src/utils/log.c\<close>. What the tracers print is not recorded; the lines
  \<open>itrace_display_history\<close> prints are its result.
\<close>

section \<open>log.c\<close>

definition log_enable :: "config \<Rightarrow> system \<Rightarrow> bool" where
  "log_enable cfg s \<longleftrightarrow> CONFIG_TRACE cfg \<and>
     CONFIG_TRACE_START cfg \<le> g_nr_guest_inst s \<and> g_nr_guest_inst s \<le> CONFIG_TRACE_END cfg"

text \<open>Whether \<open>log_write\<close> evaluates its arguments.\<close>

definition log_writes :: "config \<Rightarrow> system \<Rightarrow> bool" where
  "log_writes cfg s \<longleftrightarrow> CONFIG_TARGET_NATIVE_ELF cfg \<and> log_enable cfg s \<and> log_open s"

definition itrace_bin_record :: "vaddr_t \<Rightarrow> itrace_bin \<Rightarrow> itrace_bin" where
  "itrace_bin_record tpc b =
     (case bin_out b of
        None \<Rightarrow> b
      | Some out \<Rightarrow>
          (if cur_count b = 0 \<or> tpc \<noteq> last_pc b + 4
           then b\<lparr>bin_out := Some (if cur_count b > 0 then out @ [(cur_start b, cur_count b)] else out),
                  cur_start := tpc, cur_count := 1, last_pc := tpc\<rparr>
           else b\<lparr>cur_count := cur_count b + 1, last_pc := tpc\<rparr>))"

definition init_itrace_bin :: "itrace_bin \<Rightarrow> itrace_bin" where
  "init_itrace_bin b = b\<lparr>bin_out := Some []\<rparr>"

text \<open>\<open>finalize_itrace_bin\<close> closes the pipe; the model returns what went through it.\<close>

definition finalize_itrace_bin :: "itrace_bin \<Rightarrow> (vaddr_t \<times> u32) list option \<times> itrace_bin" where
  "finalize_itrace_bin b =
     (case bin_out b of
        None \<Rightarrow> (None, b)
      | Some out \<Rightarrow>
          (Some (if cur_count b > 0 then out @ [(cur_start b, cur_count b)] else out),
           b\<lparr>bin_out := None\<rparr>))"

section \<open>trace.c: the instruction ring\<close>

definition ITRACE_BUF_SIZE :: nat where
  "ITRACE_BUF_SIZE = 50"

definition itrace_init :: "itrace_buffer \<Rightarrow> itrace_buffer" where
  "itrace_init b = b\<lparr>it_head := 0, it_count := 0\<rparr>"

text \<open>A log line is a C string; \<open>strncpy\<close> keeps its first 127 characters.\<close>

definition itrace_record :: "u8 list \<Rightarrow> vaddr_t \<Rightarrow> itrace_buffer \<Rightarrow> itrace_buffer" where
  "itrace_record log tpc b =
     b\<lparr>entries := (entries b)(it_head b := (take 127 log, tpc)),
       it_head := (it_head b + 1) mod ITRACE_BUF_SIZE,
       it_count := (if it_count b < ITRACE_BUF_SIZE then it_count b + 1 else it_count b)\<rparr>"

definition itrace_display_history :: "int \<Rightarrow> itrace_buffer \<Rightarrow> (int \<times> u8 list) list" where
  "itrace_display_history n b =
     (let k = (if n > int (it_count b) then int (it_count b) else n)
      in map (\<lambda>i. (k - int i,
                fst (entries b ((it_head b + ITRACE_BUF_SIZE - 1 - i) mod ITRACE_BUF_SIZE))))
           [0..<nat k])"

section \<open>trace.c: function calls\<close>

definition STT_FUNC :: u8 where
  "STT_FUNC = 2"

definition ELF32_ST_TYPE :: "u8 \<Rightarrow> u8" where
  "ELF32_ST_TYPE info = info AND 0xf"

definition symbol_matches :: "paddr_t \<Rightarrow> bool \<Rightarrow> SymEntry \<Rightarrow> bool" where
  "symbol_matches target is_call e \<longleftrightarrow>
     ELF32_ST_TYPE (sym_info e) = STT_FUNC \<and>
     (if is_call then sym_addr e = target
      else sym_addr e \<le> target \<and> (ucast target :: u64) < ucast (sym_addr e) + sym_size e)"

fun find_symbol_from :: "SymEntry list \<Rightarrow> nat \<Rightarrow> paddr_t \<Rightarrow> bool \<Rightarrow> nat option" where
  "find_symbol_from [] i target is_call = None"
| "find_symbol_from (e # es) i target is_call =
     (if symbol_matches target is_call e then Some i
      else find_symbol_from es (Suc i) target is_call)"

text \<open>\<open>None\<close> stands for the \<open>-1\<close> of the C function.\<close>

definition find_symbol_func :: "SymEntry list \<Rightarrow> paddr_t \<Rightarrow> bool \<Rightarrow> nat option" where
  "find_symbol_func tbl target is_call = find_symbol_from tbl 0 target is_call"

definition insert_tail_rec :: "paddr_t \<Rightarrow> paddr_t \<Rightarrow> ftrace_state \<Rightarrow> ftrace_state" where
  "insert_tail_rec tpc depend f = f\<lparr>tail_rec := (tpc, depend) # tail_rec f\<rparr>"

definition remove_tail_rec :: "ftrace_state \<Rightarrow> ftrace_state" where
  "remove_tail_rec f = f\<lparr>tail_rec := tl (tail_rec f)\<rparr>"

text \<open>
  With logging on, a call to a target without a function symbol prints
  \<open>symbol_tbl[-1].name\<close>: the test before it is \<open>i ? ...\<close>, not \<open>i >= 0 ? ...\<close>.
\<close>

definition trace_func_call ::
    "bool \<Rightarrow> paddr_t \<Rightarrow> paddr_t \<Rightarrow> bool \<Rightarrow> ftrace_state \<Rightarrow> ftrace_state result" where
  "trace_func_call logging tpc target is_tail f =
     (case symbol_tbl f of
        None \<Rightarrow> Inr f
      | Some tbl \<Rightarrow>
          let f = f\<lparr>call_depth := call_depth f + 1\<rparr> in
          if call_depth f \<le> 2 then Inr f
          else if logging \<and> find_symbol_func tbl target True = None
          then Inl (Undefined ''symbol_tbl[-1]'')
          else Inr (if is_tail then insert_tail_rec tpc target f else f))"

function trace_func_ret :: "paddr_t \<Rightarrow> ftrace_state \<Rightarrow> ftrace_state" where
  "trace_func_ret tpc f =
     (case symbol_tbl f of
        None \<Rightarrow> f
      | Some tbl \<Rightarrow>
          if call_depth f \<le> 2 then f
          else
            let i = find_symbol_func tbl tpc False;
                f = f\<lparr>call_depth := call_depth f - 1\<rparr>
            in case tail_rec f of
                 [] \<Rightarrow> f
               | (ret_target, depend) # rest \<Rightarrow>
                   if find_symbol_func tbl depend True = i
                   then trace_func_ret ret_target (remove_tail_rec f)
                   else f)"
  by pat_completeness auto

termination
  by (relation "measure (\<lambda>(tpc, f). length (tail_rec f))") (auto simp: remove_tail_rec_def)

declare trace_func_ret.simps [simp del]

section \<open>The ring keeps the last instructions\<close>

definition ring_ok :: "(u8 list \<times> vaddr_t) list \<Rightarrow> itrace_buffer \<Rightarrow> bool" where
  "ring_ok ls b \<longleftrightarrow>
     it_head b = length ls mod ITRACE_BUF_SIZE \<and>
     it_count b = min (length ls) ITRACE_BUF_SIZE \<and>
     (\<forall>i < it_count b. entries b ((it_head b + ITRACE_BUF_SIZE - 1 - i) mod ITRACE_BUF_SIZE) =
        map_prod (take 127) id (rev ls ! i))"

lemma ring_index:
  assumes "h < (n :: nat)" and "i < n"
  shows "((h + 1) mod n + n - 1 - i) mod n = (if i = 0 then h else (h + n - 1 - (i - 1)) mod n)"
proof (cases "h + 1 < n")
  case True
  then have "(h + 1) mod n = h + 1" by simp
  then have "(h + 1) mod n + n - 1 - i = (if i = 0 then h + n else h + n - 1 - (i - 1))"
    using assms by auto
  with assms show ?thesis by auto
next
  case False
  with assms have "h = n - 1" by simp
  with assms show ?thesis by (auto simp: mod_if)
qed

lemma ring_ok_record:
  assumes "ring_ok ls b"
  shows "ring_ok (ls @ [(log, tpc)]) (itrace_record log tpc b)"
proof -
  let ?n = ITRACE_BUF_SIZE
  have n: "0 < ?n" by (simp add: ITRACE_BUF_SIZE_def)
  from assms have head: "it_head b = length ls mod ?n" and count: "it_count b = min (length ls) ?n"
    and ent: "\<And>i. i < it_count b \<Longrightarrow> entries b ((it_head b + ?n - 1 - i) mod ?n) =
        map_prod (take 127) id (rev ls ! i)"
    by (auto simp: ring_ok_def)
  have h: "it_head b < ?n" using head n by simp
  let ?b = "itrace_record log tpc b"
  have "entries ?b ((it_head ?b + ?n - 1 - i) mod ?n) =
      map_prod (take 127) id (rev (ls @ [(log, tpc)]) ! i)" if i: "i < it_count ?b" for i
  proof (cases i)
    case 0
    then show ?thesis
      using ring_index [OF h, of 0] n by (simp add: itrace_record_def)
  next
    case (Suc j)
    have "i < ?n" "j < it_count b"
      using i Suc count by (auto simp: itrace_record_def split: if_splits)
    moreover have "(it_head b + ?n - 1 - j) mod ?n \<noteq> it_head b"
      using \<open>i < ?n\<close> Suc h by (auto simp: mod_if)
    ultimately show ?thesis
      using ring_index [OF h, of i] Suc ent [of j] by (simp add: itrace_record_def)
  qed
  then show ?thesis
    using head count n by (auto simp: ring_ok_def itrace_record_def mod_Suc_eq)
qed

lemma ring_ok_all: "ring_ok ls b \<Longrightarrow>
    ring_ok (ls @ ms) (fold (\<lambda>(log, tpc). itrace_record log tpc) ms b)"
proof (induction ms arbitrary: ls b)
  case (Cons m ms)
  then show ?case
    using Cons.IH [of "ls @ [m]"] by (cases m) (simp add: ring_ok_record)
qed simp

lemma display_ring:
  assumes "ring_ok ls b"
  shows "itrace_display_history n b =
    (let k = min n (int (min (length ls) ITRACE_BUF_SIZE))
     in map (\<lambda>i. (k - int i, take 127 (fst (rev ls ! i)))) [0..<nat k])"
proof -
  from assms have count: "it_count b = min (length ls) ITRACE_BUF_SIZE"
    and ent: "\<And>i. i < it_count b \<Longrightarrow>
      entries b ((it_head b + ITRACE_BUF_SIZE - 1 - i) mod ITRACE_BUF_SIZE) =
        map_prod (take 127) id (rev ls ! i)"
    by (auto simp: ring_ok_def)
  let ?k = "min n (int (it_count b))"
  have "itrace_display_history n b = map (\<lambda>i. (?k - int i,
      fst (entries b ((it_head b + ITRACE_BUF_SIZE - 1 - i) mod ITRACE_BUF_SIZE)))) [0..<nat ?k]"
    by (simp add: itrace_display_history_def Let_def min_def)
  also have "\<dots> = map (\<lambda>i. (?k - int i, take 127 (fst (rev ls ! i)))) [0..<nat ?k]"
  proof (rule map_cong)
    fix i
    assume "i \<in> set [0..<nat ?k]"
    then have "i < it_count b" by auto
    from ent [OF this]
    show "(?k - int i, fst (entries b ((it_head b + ITRACE_BUF_SIZE - 1 - i) mod ITRACE_BUF_SIZE))) =
        (?k - int i, take 127 (fst (rev ls ! i)))" by simp
  qed simp
  finally show ?thesis by (simp add: count Let_def)
qed

text \<open>C37: After any number of instructions, the history printed is that of the last
  \<open>n\<close> of them (at most 50), the newest first, each cut to 127 characters, numbered down
  from the number of lines.\<close>

theorem itrace_history_is_last_instructions:
  "itrace_display_history n (fold (\<lambda>(log, tpc). itrace_record log tpc) ls (itrace_init b)) =
     (let k = min n (int (min (length ls) ITRACE_BUF_SIZE))
      in map (\<lambda>i. (k - int i, take 127 (fst (rev ls ! i)))) [0..<nat k])"
proof -
  have "ring_ok [] (itrace_init b)"
    by (simp add: ring_ok_def itrace_init_def)
  from ring_ok_all [OF this, of ls] show ?thesis
    by (simp add: display_ring)
qed

section \<open>The compressed trace loses nothing\<close>

definition expand_nodes :: "(vaddr_t \<times> u32) list \<Rightarrow> vaddr_t list" where
  "expand_nodes ns = concat (map (\<lambda>(s, c). map (\<lambda>k. s + 4 * of_nat k) [0..<unat c]) ns)"

definition bin_ok :: "vaddr_t list \<Rightarrow> itrace_bin \<Rightarrow> bool" where
  "bin_ok pcs b \<longleftrightarrow> (\<exists>out. bin_out b = Some out \<and>
     expand_nodes (out @ [(cur_start b, cur_count b)]) = pcs \<and>
     unat (cur_count b) \<le> length pcs \<and>
     (cur_count b \<noteq> 0 \<longrightarrow> last_pc b + 4 = cur_start b + 4 * cur_count b))"

lemma expand_nodes_append: "expand_nodes (xs @ ys) = expand_nodes xs @ expand_nodes ys"
  by (simp add: expand_nodes_def)

lemma bin_ok_record:
  assumes "bin_ok pcs b" and "length pcs < 2 ^ 32 - 1"
  shows "bin_ok (pcs @ [p]) (itrace_bin_record p b)"
proof -
  from assms(1) obtain out where out: "bin_out b = Some out"
    "expand_nodes (out @ [(cur_start b, cur_count b)]) = pcs" "unat (cur_count b) \<le> length pcs"
    "cur_count b \<noteq> 0 \<Longrightarrow> last_pc b + 4 = cur_start b + 4 * cur_count b"
    by (auto simp: bin_ok_def)
  have "unat (cur_count b) + 1 < 2 ^ 32"
    using out(3) assms(2) by simp
  then have suc: "unat (cur_count b + 1) = Suc (unat (cur_count b))"
    by (simp add: unat_word_ariths)
  show ?thesis
  proof (cases "cur_count b = 0 \<or> p \<noteq> last_pc b + 4")
    case True
    with out show ?thesis
      by (auto simp: bin_ok_def itrace_bin_record_def expand_nodes_def word_gt_0)
  next
    case False
    with out suc show ?thesis
      by (auto simp: bin_ok_def itrace_bin_record_def expand_nodes_def distrib_left)
  qed
qed

lemma bin_ok_all:
  "bin_ok ps b \<Longrightarrow> length ps + length pcs < 2 ^ 32 \<Longrightarrow>
   bin_ok (ps @ pcs) (fold itrace_bin_record pcs b)"
proof (induction pcs arbitrary: ps b)
  case (Cons p pcs)
  then show ?case
    using Cons.IH [of "ps @ [p]"] bin_ok_record [of ps b p] by simp
qed simp

text \<open>Expanding the nodes that went through the pipe gives back the program counters
  recorded since it was opened, in order (below \<open>2 ^ 32\<close> instructions, the range of a
  node's counter).\<close>

lemma itrace_bin_roundtrip:
  assumes "length pcs < 2 ^ 32" and "cur_count b = 0"
  shows "\<exists>ns b'. finalize_itrace_bin (fold itrace_bin_record pcs (init_itrace_bin b)) = (Some ns, b') \<and>
    expand_nodes ns = pcs"
proof -
  have "bin_ok [] (init_itrace_bin b)"
    using assms(2) by (simp add: bin_ok_def init_itrace_bin_def expand_nodes_def)
  from bin_ok_all [OF this, of pcs] assms(1)
  have "bin_ok pcs (fold itrace_bin_record pcs (init_itrace_bin b))" by simp
  then show ?thesis
    by (auto simp: bin_ok_def finalize_itrace_bin_def expand_nodes_def word_gt_0)
qed

lemma itrace_bin_roundtrip_witness:
  "\<exists>ns b'. finalize_itrace_bin (fold itrace_bin_record [0x80000000, 0x80000004, 0x80000000]
      (init_itrace_bin \<lparr>bin_out = None, cur_start = 9, cur_count = 0, last_pc = 0\<rparr>)) = (Some ns, b') \<and>
    expand_nodes ns = [0x80000000, 0x80000004, 0x80000000]"
  by (rule itrace_bin_roundtrip) simp_all

section \<open>Calls, tail calls and returns are balanced\<close>

text \<open>
  \<open>tail_chain tbl f cs g\<close>: function \<open>f\<close> leaves by the first of the tail calls
  \<open>cs\<close> (each the program counter of the jump and its target), the function entered leaves by
  the second, and so on; the last function entered is \<open>g\<close>. Functions are indices of the
  symbol table.
\<close>

fun tail_chain :: "SymEntry list \<Rightarrow> nat \<Rightarrow> (paddr_t \<times> paddr_t) list \<Rightarrow> nat \<Rightarrow> bool" where
  "tail_chain tbl f [] g \<longleftrightarrow> g = f"
| "tail_chain tbl f ((p, t) # cs) g \<longleftrightarrow>
     find_symbol_func tbl p False = Some f \<and>
     (case find_symbol_func tbl t True of None \<Rightarrow> False | Some f' \<Rightarrow> tail_chain tbl f' cs g)"

definition open_tail :: "SymEntry list \<Rightarrow> nat \<Rightarrow> ftrace_state \<Rightarrow> bool" where
  "open_tail tbl f st \<longleftrightarrow> (case tail_rec st of [] \<Rightarrow> False
     | (_, d) # _ \<Rightarrow> find_symbol_func tbl d True = Some f)"

lemma ret_same_function:
  "symbol_tbl st = Some tbl \<Longrightarrow> find_symbol_func tbl p False = find_symbol_func tbl q False \<Longrightarrow>
   trace_func_ret p st = trace_func_ret q st"
  by (subst (1 2) trace_func_ret.simps) simp

lemma tail_chain_inside:
  "tail_chain tbl f cs g \<Longrightarrow> find_symbol_func tbl p False = Some g \<Longrightarrow>
   \<exists>q. find_symbol_func tbl q False = Some f"
  by (cases cs) auto

lemma ret_unwinds_tail_chain:
  assumes "symbol_tbl st = Some tbl" and "2 < call_depth st"
    and "tail_chain tbl f cs g" and "find_symbol_func tbl p False = Some g"
    and "find_symbol_func tbl q False = Some f"
  shows "\<exists>st'. foldR (\<lambda>(p, t). trace_func_call lg p t True) cs st = Inr st' \<and>
    trace_func_ret p st' = trace_func_ret q st"
  using assms
proof (induction cs arbitrary: st f q)
  case Nil
  then show ?case using ret_same_function [of st tbl p q] by simp
next
  case (Cons c cs)
  obtain p1 t1 where c: "c = (p1, t1)" by force
  with Cons.prems(3) obtain f1 where f1: "find_symbol_func tbl p1 False = Some f"
    "find_symbol_func tbl t1 True = Some f1" "tail_chain tbl f1 cs g"
    by (auto split: option.splits)
  obtain q1 where q1: "find_symbol_func tbl q1 False = Some f1"
    using tail_chain_inside [OF f1(3) Cons.prems(4)] by blast
  let ?st = "insert_tail_rec p1 t1 (st\<lparr>call_depth := call_depth st + 1\<rparr>)"
  have call: "trace_func_call lg p1 t1 True st = Inr ?st"
    using Cons.prems(1,2) f1(2) by (simp add: trace_func_call_def)
  have "symbol_tbl ?st = Some tbl" "2 < call_depth ?st"
    using Cons.prems(1,2) by (simp_all add: insert_tail_rec_def)
  from Cons.IH [OF this f1(3) Cons.prems(4) q1]
  obtain st' where st': "foldR (\<lambda>(p, t). trace_func_call lg p t True) cs ?st = Inr st'"
    "trace_func_ret p st' = trace_func_ret q1 ?st" by auto
  have "trace_func_ret q1 ?st = trace_func_ret p1 st"
    using Cons.prems(1,2) f1(2) q1
    by (subst trace_func_ret.simps) (simp add: insert_tail_rec_def remove_tail_rec_def)
  also have "\<dots> = trace_func_ret q st"
    using ret_same_function [OF Cons.prems(1), of p1 q] f1(1) Cons.prems(5) by simp
  finally show ?case
    using st' call c by simp
qed


definition ftrace_example :: ftrace_state where
  "ftrace_example = \<lparr>symbol_tbl = Some
     [\<lparr>sym_name = ''f'', sym_addr = 0x100, sym_info = 0x12, sym_size = 0x20\<rparr>,
      \<lparr>sym_name = ''g'', sym_addr = 0x120, sym_info = 0x12, sym_size = 0x20\<rparr>],
     call_depth = 3, tail_rec = []\<rparr>"


end
