(* ===== verification/Inst_Decode.thy ===== *)
theory Inst_Decode
  imports Nemu_State
begin

text \<open>
  Instruction decoding: the bit-field macros of \<open>nemu/include/macro.h\<close>, the pattern
  matcher of \<open>nemu/include/cpu/decode.h\<close>, and the operand decoder and \<open>INSTPAT\<close> table of
  \<open>nemu/src/isa/riscv32/inst.c\<close>.
\<close>

section \<open>macro.h\<close>

definition BITMASK :: "nat \<Rightarrow> u64" where
  "BITMASK bits = push_bit bits 1 - 1"

definition BITS :: "u64 \<Rightarrow> nat \<Rightarrow> nat \<Rightarrow> u64" where
  "BITS x hi lo = drop_bit lo x AND BITMASK (hi - lo + 1)"

definition SEXT :: "u64 \<Rightarrow> nat \<Rightarrow> u64" where
  "SEXT x len = signed_take_bit (len - 1) x"

section \<open>decode.h: patterns\<close>

text \<open>
  \<open>macro64\<close> unrolls the loop to 64 steps; the first argument counts the steps left.
\<close>

fun pattern_loop :: "nat \<Rightarrow> string \<Rightarrow> u64 \<Rightarrow> u64 \<Rightarrow> nat \<Rightarrow> (u64 \<times> u64 \<times> nat) result" where
  "pattern_loop 0 str key msk shft = Inl (Panicked ''pattern too long'')"
| "pattern_loop (Suc n) [] key msk shft = Inr (key, msk, shft)"
| "pattern_loop (Suc n) (c # cs) key msk shft =
     (if c = CHR '' '' then pattern_loop n cs key msk shft
      else if c = CHR ''0'' \<or> c = CHR ''1'' \<or> c = CHR ''?'' then
        pattern_loop n cs
          (push_bit 1 key OR (if c = CHR ''1'' then 1 else 0))
          (push_bit 1 msk OR (if c = CHR ''?'' then 0 else 1))
          (if c = CHR ''?'' then shft + 1 else 0)
      else Inl (Assert_failed ''invalid character in pattern string''))"

definition pattern_decode :: "string \<Rightarrow> (u64 \<times> u64 \<times> nat) result" where
  "pattern_decode str =
     bindR (pattern_loop 64 str 0 0 0) (\<lambda>(key, msk, shft).
     Inr (drop_bit shft key, drop_bit shft msk, shft))"

definition hex_digit :: "char \<Rightarrow> u64 option" where
  "hex_digit c =
     (let n = of_char c :: nat in
      if of_char (CHR ''0'') \<le> n \<and> n \<le> of_char (CHR ''9'') then Some (of_nat (n - of_char (CHR ''0'')))
      else if of_char (CHR ''a'') \<le> n \<and> n \<le> of_char (CHR ''f'')
      then Some (of_nat (n - of_char (CHR ''a'') + 10))
      else if c = CHR ''?'' then Some 0 else None)"

fun pattern_loop_hex :: "nat \<Rightarrow> string \<Rightarrow> u64 \<Rightarrow> u64 \<Rightarrow> nat \<Rightarrow> (u64 \<times> u64 \<times> nat) result" where
  "pattern_loop_hex 0 str key msk shft = Inl (Panicked ''pattern too long'')"
| "pattern_loop_hex (Suc n) [] key msk shft = Inr (key, msk, shft)"
| "pattern_loop_hex (Suc n) (c # cs) key msk shft =
     (if c = CHR '' '' then pattern_loop_hex n cs key msk shft
      else case hex_digit c of
        None \<Rightarrow> Inl (Assert_failed ''invalid character in pattern string'')
      | Some d \<Rightarrow>
        pattern_loop_hex n cs
          (push_bit 4 key OR d)
          (push_bit 4 msk OR (if c = CHR ''?'' then 0 else 0xf))
          (if c = CHR ''?'' then shft + 4 else 0))"

definition pattern_decode_hex :: "string \<Rightarrow> (u64 \<times> u64 \<times> nat) result" where
  "pattern_decode_hex str =
     bindR (pattern_loop_hex 16 str 0 0 0) (\<lambda>(key, msk, shft).
     Inr (drop_bit shft key, drop_bit shft msk, shft))"

definition inst_matches :: "string \<Rightarrow> u32 \<Rightarrow> bool result" where
  "inst_matches pattern inst =
     bindR (pattern_decode pattern) (\<lambda>(key, msk, shft).
     Inr (drop_bit shft (ucast inst) AND msk = key))"

section \<open>inst.c: operands\<close>

datatype inst_type = TYPE_I | TYPE_U | TYPE_S | TYPE_N | TYPE_J | TYPE_B | TYPE_I_I | TYPE_R

definition immI :: "u32 \<Rightarrow> word_t" where
  "immI i = ucast (SEXT (BITS (ucast i) 31 20) 12)"

definition immU :: "u32 \<Rightarrow> word_t" where
  "immU i = ucast (push_bit 12 (SEXT (BITS (ucast i) 31 12) 20))"

definition immS :: "u32 \<Rightarrow> word_t" where
  "immS i = ucast (push_bit 5 (SEXT (BITS (ucast i) 31 25) 7) OR BITS (ucast i) 11 7)"

definition immB :: "u32 \<Rightarrow> word_t" where
  "immB i = ucast ((push_bit 12 (SEXT (BITS (ucast i) 31 31) 1) OR push_bit 11 (BITS (ucast i) 7 7) OR
     push_bit 5 (BITS (ucast i) 30 25) OR push_bit 1 (BITS (ucast i) 11 8)) AND NOT 1)"

definition immJ :: "u32 \<Rightarrow> word_t" where
  "immJ i = ucast ((push_bit 20 (SEXT (BITS (ucast i) 31 31) 1) OR push_bit 12 (BITS (ucast i) 19 12) OR
     push_bit 11 (BITS (ucast i) 20 20) OR push_bit 1 (BITS (ucast i) 30 21)) AND NOT 1)"

text \<open>
  A register index is checked where the array is indexed: by an assertion when
  \<open>CONFIG_RT_CHECK\<close> is set, and by nothing otherwise.
\<close>

definition reg_num :: "config \<Rightarrow> nat" where
  "reg_num cfg = (if CONFIG_RVE cfg then 16 else 32)"

definition check_reg_idx :: "config \<Rightarrow> nat \<Rightarrow> nat result" where
  "check_reg_idx cfg idx =
     (if CONFIG_RT_CHECK cfg \<and> \<not> idx < reg_num cfg then Inl (Assert_failed ''check_reg_idx'')
      else Inr idx)"

definition read_gpr :: "config \<Rightarrow> nat \<Rightarrow> CPU_state \<Rightarrow> word_t result" where
  "read_gpr cfg i c =
     bindR (check_reg_idx cfg i) (\<lambda>i.
     if i < reg_num cfg then Inr (gpr c i) else Inl (Undefined ''gpr index''))"

definition write_gpr :: "config \<Rightarrow> nat \<Rightarrow> word_t \<Rightarrow> CPU_state \<Rightarrow> CPU_state result" where
  "write_gpr cfg i v c =
     bindR (check_reg_idx cfg i) (\<lambda>i.
     if i < reg_num cfg then Inr (c\<lparr>gpr := (gpr c)(i := v)\<rparr>) else Inl (Undefined ''gpr index''))"

record operands =
  op_rd :: nat
  op_rs1 :: nat
  op_src1 :: word_t
  op_src2 :: word_t
  op_imm :: word_t

definition decode_operand :: "config \<Rightarrow> u32 \<Rightarrow> inst_type \<Rightarrow> CPU_state \<Rightarrow> operands result" where
  "decode_operand cfg i t c =
     (let rs1 = unat (BITS (ucast i) 19 15);
          rs2 = unat (BITS (ucast i) 24 20);
          ops = \<lparr>op_rd = unat (BITS (ucast i) 11 7), op_rs1 = rs1, op_src1 = 0, op_src2 = 0, op_imm = 0\<rparr>;
          src1R = (\<lambda>f. bindR (read_gpr cfg rs1 c) (\<lambda>v. f (ops\<lparr>op_src1 := v\<rparr>)));
          src12R = (\<lambda>f. src1R (\<lambda>ops. bindR (read_gpr cfg rs2 c) (\<lambda>v. f (ops\<lparr>op_src2 := v\<rparr>))))
      in case t of
           TYPE_I \<Rightarrow> src1R (\<lambda>ops. Inr (ops\<lparr>op_imm := immI i\<rparr>))
         | TYPE_I_I \<Rightarrow> Inr (ops\<lparr>op_src1 := of_nat rs1, op_imm := immI i\<rparr>)
         | TYPE_U \<Rightarrow> Inr (ops\<lparr>op_imm := immU i\<rparr>)
         | TYPE_S \<Rightarrow> src12R (\<lambda>ops. Inr (ops\<lparr>op_imm := immS i\<rparr>))
         | TYPE_J \<Rightarrow> Inr (ops\<lparr>op_imm := immJ i\<rparr>)
         | TYPE_B \<Rightarrow> src12R (\<lambda>ops. Inr (ops\<lparr>op_imm := immB i\<rparr>))
         | TYPE_R \<Rightarrow> src12R Inr
         | TYPE_N \<Rightarrow> Inr ops)"

section \<open>inst.c: the table\<close>

datatype (plugins only: code size) inst_name =
    I_lui | I_auipc | I_jal | I_jalr | I_beq | I_bne | I_blt | I_bge
  | I_bltu | I_bgeu | I_lb | I_lh | I_lw | I_lbu | I_lhu | I_sb
  | I_sh | I_sw | I_addi | I_slti | I_sltiu | I_xori | I_ori | I_andi
  | I_slli | I_srli | I_srai | I_add | I_sub | I_sll | I_slt | I_sltu
  | I_xor | I_srl | I_sra | I_or | I_and | I_rem | I_remu | I_mul
  | I_div | I_divu | I_mulh | I_mulhsu | I_mulhu | I_ecall | I_ebreak | I_mret
  | I_csrrw | I_csrrs | I_csrrc | I_csrrwi | I_csrrsi | I_csrrci | I_inv

definition instpat_table :: "(string \<times> inst_type \<times> inst_name) list" where
  "instpat_table =
    [(''??????? ????? ????? ??? ????? 01101 11'', TYPE_U, I_lui),
     (''??????? ????? ????? ??? ????? 00101 11'', TYPE_U, I_auipc),
     (''??????? ????? ????? ??? ????? 11011 11'', TYPE_J, I_jal),
     (''??????? ????? ????? 000 ????? 11001 11'', TYPE_I, I_jalr),
     (''??????? ????? ????? 000 ????? 11000 11'', TYPE_B, I_beq),
     (''??????? ????? ????? 001 ????? 11000 11'', TYPE_B, I_bne),
     (''??????? ????? ????? 100 ????? 11000 11'', TYPE_B, I_blt),
     (''??????? ????? ????? 101 ????? 11000 11'', TYPE_B, I_bge),
     (''??????? ????? ????? 110 ????? 11000 11'', TYPE_B, I_bltu),
     (''??????? ????? ????? 111 ????? 11000 11'', TYPE_B, I_bgeu),
     (''??????? ????? ????? 000 ????? 00000 11'', TYPE_I, I_lb),
     (''??????? ????? ????? 001 ????? 00000 11'', TYPE_I, I_lh),
     (''??????? ????? ????? 010 ????? 00000 11'', TYPE_I, I_lw),
     (''??????? ????? ????? 100 ????? 00000 11'', TYPE_I, I_lbu),
     (''??????? ????? ????? 101 ????? 00000 11'', TYPE_I, I_lhu),
     (''??????? ????? ????? 000 ????? 01000 11'', TYPE_S, I_sb),
     (''??????? ????? ????? 001 ????? 01000 11'', TYPE_S, I_sh),
     (''??????? ????? ????? 010 ????? 01000 11'', TYPE_S, I_sw),
     (''??????? ????? ????? 000 ????? 00100 11'', TYPE_I, I_addi),
     (''??????? ????? ????? 010 ????? 00100 11'', TYPE_I, I_slti),
     (''??????? ????? ????? 011 ????? 00100 11'', TYPE_I, I_sltiu),
     (''??????? ????? ????? 100 ????? 00100 11'', TYPE_I, I_xori),
     (''??????? ????? ????? 110 ????? 00100 11'', TYPE_I, I_ori),
     (''??????? ????? ????? 111 ????? 00100 11'', TYPE_I, I_andi),
     (''0000000 ????? ????? 001 ????? 00100 11'', TYPE_I, I_slli),
     (''0000000 ????? ????? 101 ????? 00100 11'', TYPE_I, I_srli),
     (''0100000 ????? ????? 101 ????? 00100 11'', TYPE_I, I_srai),
     (''0000000 ????? ????? 000 ????? 01100 11'', TYPE_R, I_add),
     (''0100000 ????? ????? 000 ????? 01100 11'', TYPE_R, I_sub),
     (''0000000 ????? ????? 001 ????? 01100 11'', TYPE_R, I_sll),
     (''0000000 ????? ????? 010 ????? 01100 11'', TYPE_R, I_slt),
     (''0000000 ????? ????? 011 ????? 01100 11'', TYPE_R, I_sltu),
     (''0000000 ????? ????? 100 ????? 01100 11'', TYPE_R, I_xor),
     (''0000000 ????? ????? 101 ????? 01100 11'', TYPE_R, I_srl),
     (''0100000 ????? ????? 101 ????? 01100 11'', TYPE_R, I_sra),
     (''0000000 ????? ????? 110 ????? 01100 11'', TYPE_R, I_or),
     (''0000000 ????? ????? 111 ????? 01100 11'', TYPE_R, I_and),
     (''0000001 ????? ????? 110 ????? 01100 11'', TYPE_R, I_rem),
     (''0000001 ????? ????? 111 ????? 01100 11'', TYPE_R, I_remu),
     (''0000001 ????? ????? 000 ????? 01100 11'', TYPE_R, I_mul),
     (''0000001 ????? ????? 100 ????? 01100 11'', TYPE_R, I_div),
     (''0000001 ????? ????? 101 ????? 01100 11'', TYPE_R, I_divu),
     (''0000001 ????? ????? 001 ????? 01100 11'', TYPE_R, I_mulh),
     (''0000001 ????? ????? 010 ????? 01100 11'', TYPE_R, I_mulhsu),
     (''0000001 ????? ????? 011 ????? 01100 11'', TYPE_R, I_mulhu),
     (''0000000 00000 00000 000 00000 11100 11'', TYPE_N, I_ecall),
     (''0000000 00001 00000 000 00000 11100 11'', TYPE_N, I_ebreak),
     (''0011000 00010 00000 000 00000 11100 11'', TYPE_N, I_mret),
     (''??????? ????? ????? 001 ????? 11100 11'', TYPE_I, I_csrrw),
     (''??????? ????? ????? 010 ????? 11100 11'', TYPE_I, I_csrrs),
     (''??????? ????? ????? 011 ????? 11100 11'', TYPE_I, I_csrrc),
     (''??????? ????? ????? 101 ????? 11100 11'', TYPE_I_I, I_csrrwi),
     (''??????? ????? ????? 110 ????? 11100 11'', TYPE_I_I, I_csrrsi),
     (''??????? ????? ????? 111 ????? 11100 11'', TYPE_I_I, I_csrrci),
     (''??????? ????? ????? ??? ????? ????? ??'', TYPE_N, I_inv)]"

text \<open>The first pattern that matches is executed; the others are skipped.\<close>

fun instpat_lookup :: "(string \<times> inst_type \<times> inst_name) list \<Rightarrow> u32 \<Rightarrow>
    (inst_type \<times> inst_name) option result" where
  "instpat_lookup [] inst = Inr None"
| "instpat_lookup ((pattern, t, n) # rows) inst =
     bindR (inst_matches pattern inst) (\<lambda>m.
     if m then Inr (Some (t, n)) else instpat_lookup rows inst)"

end
