(* ===== verification/Decode_Properties.thy ===== *)
theory Decode_Properties
  imports Inst_Decode
begin

text \<open>
  What the decoder does: a pattern string matches exactly the instructions whose bits
  agree with it, the table of \<open>inst.c\<close> decodes by opcode and function fields as the RISC-V
  manual lays them out, and the immediates are the manual's.
\<close>

section \<open>What a pattern matches\<close>

definition pat_chars :: "string \<Rightarrow> string" where
  "pat_chars str = filter (\<lambda>c. c \<noteq> CHR '' '') str"

definition pattern_ok :: "string \<Rightarrow> bool" where
  "pattern_ok str \<longleftrightarrow> length str < 64 \<and> set (pat_chars str) \<subseteq> {CHR ''0'', CHR ''1'', CHR ''?''}"

definition char_matches :: "char \<Rightarrow> bool \<Rightarrow> bool" where
  "char_matches c b \<longleftrightarrow> c = CHR ''?'' \<or> (c = CHR ''1'') = b"

definition pat_inv :: "string \<Rightarrow> u64 \<Rightarrow> u64 \<Rightarrow> nat \<Rightarrow> bool" where
  "pat_inv ps key msk shft \<longleftrightarrow> length ps < 64 \<and>
     (\<forall>k. bit key k \<longleftrightarrow> k < length ps \<and> rev ps ! k = CHR ''1'') \<and>
     (\<forall>k. bit msk k \<longleftrightarrow> k < length ps \<and> rev ps ! k \<noteq> CHR ''?'') \<and>
     (\<forall>k < shft. k < length ps \<and> rev ps ! k = CHR ''?'')"

lemma bit_shift_in:
  assumes "n < 63" and "\<forall>k. bit (w :: u64) k \<longrightarrow> k < n"
  shows "bit (push_bit 1 w OR (if b then 1 else 0)) k \<longleftrightarrow> (if k = 0 then b else bit w (k - 1))"
proof -
  have "bit (push_bit 1 w) k \<longleftrightarrow> 1 \<le> k \<and> k < 64 \<and> bit w (k - 1)"
    by (simp only: bit_push_bit_iff possible_bit_word) simp
  moreover have "bit (if b then 1 else 0 :: u64) k \<longleftrightarrow> b \<and> k = 0"
    by (simp add: bit_1_iff)
  ultimately show ?thesis
    unfolding bit_or_iff using assms by (cases "k = 0") auto
qed

lemma pat_inv_step:
  assumes inv: "pat_inv ps key msk shft" and len: "length ps < 63"
  shows "pat_inv (ps @ [c]) (push_bit 1 key OR (if c = CHR ''1'' then 1 else 0))
    (push_bit 1 msk OR (if c = CHR ''?'' then 0 else 1)) (if c = CHR ''?'' then shft + 1 else 0)"
proof -
  from inv have key: "\<forall>k. bit key k \<longrightarrow> k < length ps" and msk: "\<forall>k. bit msk k \<longrightarrow> k < length ps"
    by (auto simp: pat_inv_def)
  have flip: "(if c = CHR ''?'' then 0 else 1 :: u64) = (if c \<noteq> CHR ''?'' then 1 else 0)"
    by simp
  have nth: "rev (ps @ [c]) ! k = (if k = 0 then c else rev ps ! (k - 1))" for k
    by (simp add: nth_Cons')
  have less: "k < length (ps @ [c]) \<longleftrightarrow> k = 0 \<or> k - 1 < length ps" for k
    by auto
  show ?thesis
    unfolding pat_inv_def flip bit_shift_in [OF len key] bit_shift_in [OF len msk] nth less
    using inv len by (auto simp: pat_inv_def)
qed

lemma pattern_loop_inv:
  assumes "length cs < n" and "n \<le> 64" "length ps + n \<le> 64" and "pat_inv ps key msk shft"
    and "set (pat_chars cs) \<subseteq> {CHR ''0'', CHR ''1'', CHR ''?''}"
  shows "\<exists>key' msk' shft'. pattern_loop n cs key msk shft = Inr (key', msk', shft') \<and>
    pat_inv (ps @ pat_chars cs) key' msk' shft'"
  using assms
proof (induction cs arbitrary: n ps key msk shft)
  case Nil
  then show ?case by (cases n) (auto simp: pat_chars_def)
next
  case (Cons c cs)
  then obtain m where n: "n = Suc m" by (cases n) auto
  show ?case
  proof (cases "c = CHR '' ''")
    case True
    with Cons n show ?thesis by (auto simp: pat_chars_def)
  next
    case False
    let ?k = "push_bit 1 key OR (if c = CHR ''1'' then 1 else 0)"
    let ?m = "push_bit 1 msk OR (if c = CHR ''?'' then 0 else 1)"
    let ?s = "if c = CHR ''?'' then shft + 1 else 0"
    have "pat_inv (ps @ [c]) ?k ?m ?s"
      by (rule pat_inv_step) (use Cons.prems n in auto)
    with Cons.IH [of m "ps @ [c]" ?k ?m ?s] Cons.prems n False show ?thesis
      by (simp add: pat_chars_def)
  qed
qed

text \<open>A pattern string of fewer than 64 characters \<open>0\<close>, \<open>1\<close>, \<open>?\<close> and spaces matches an
  instruction exactly when, counting from its right end and leaving the spaces out, every
  \<open>0\<close> and \<open>1\<close> is the instruction's bit at that position.\<close>

lemma pattern_matches_bits:
  assumes "pattern_ok str"
  shows "inst_matches str inst =
    Inr (\<forall>k < length (pat_chars str). char_matches (rev (pat_chars str) ! k) (bit inst k))"
proof -
  let ?ps = "pat_chars str"
  have "pat_inv [] 0 0 0" by (simp add: pat_inv_def)
  with assms pattern_loop_inv [of str 64 "[]" 0 0 0]
  obtain key msk shft where run: "pattern_loop 64 str 0 0 0 = Inr (key, msk, shft)"
    and inv: "pat_inv ?ps key msk shft"
    by (auto simp: pattern_ok_def)
  have bits: "bit (drop_bit shft (ucast inst :: u64) AND drop_bit shft msk) k \<longleftrightarrow>
      bit inst (shft + k) \<and> bit msk (shft + k)" for k
    using bit_imp_le_length [of inst "shft + k"]
    by (auto simp: bit_and_iff bit_drop_bit_eq bit_ucast_iff)
  have "drop_bit shft (ucast inst :: u64) AND drop_bit shft msk = drop_bit shft key \<longleftrightarrow>
      (\<forall>k. bit (drop_bit shft (ucast inst :: u64) AND drop_bit shft msk) k \<longleftrightarrow> bit (drop_bit shft key) k)"
    by (rule iffI) (simp, rule bit_word_eqI, simp)
  also have "\<dots> \<longleftrightarrow> (\<forall>k. (bit inst (shft + k) \<and> bit msk (shft + k)) = bit key (shft + k))"
    unfolding bits by (simp add: bit_drop_bit_eq)
  also have "\<dots> \<longleftrightarrow> (\<forall>k < length ?ps. char_matches (rev ?ps ! k) (bit inst k))"
  proof (rule iffI; rule allI; (rule impI)?)
    fix k
    assume all: "\<forall>k. (bit inst (shft + k) \<and> bit msk (shft + k)) = bit key (shft + k)"
      and k: "k < length ?ps"
    show "char_matches (rev ?ps ! k) (bit inst k)"
    proof (cases "k < shft")
      case True
      with inv show ?thesis by (simp add: pat_inv_def char_matches_def)
    next
      case False
      with all [rule_format, of "k - shft"] inv k show ?thesis
        by (auto simp: pat_inv_def char_matches_def)
    qed
  next
    fix k
    assume all: "\<forall>k < length ?ps. char_matches (rev ?ps ! k) (bit inst k)"
    show "(bit inst (shft + k) \<and> bit msk (shft + k)) = bit key (shft + k)"
      using inv all [rule_format, of "shft + k"] by (auto simp: pat_inv_def char_matches_def)
  qed
  finally show ?thesis
    by (simp add: inst_matches_def pattern_decode_def run)
qed


section \<open>The table by masks\<close>

text \<open>
  Every pattern of the table as the 32-bit key and mask it stands for, in the same order.
\<close>

definition instpat_masks :: "(u32 \<times> u32 \<times> inst_type \<times> inst_name) list" where
  "instpat_masks =
    [(0x37, 0x7f, TYPE_U, I_lui), (0x17, 0x7f, TYPE_U, I_auipc), (0x6f, 0x7f, TYPE_J, I_jal),
     (0x67, 0x707f, TYPE_I, I_jalr), (0x63, 0x707f, TYPE_B, I_beq),
     (0x1063, 0x707f, TYPE_B, I_bne), (0x4063, 0x707f, TYPE_B, I_blt),
     (0x5063, 0x707f, TYPE_B, I_bge), (0x6063, 0x707f, TYPE_B, I_bltu),
     (0x7063, 0x707f, TYPE_B, I_bgeu), (0x3, 0x707f, TYPE_I, I_lb),
     (0x1003, 0x707f, TYPE_I, I_lh), (0x2003, 0x707f, TYPE_I, I_lw),
     (0x4003, 0x707f, TYPE_I, I_lbu), (0x5003, 0x707f, TYPE_I, I_lhu),
     (0x23, 0x707f, TYPE_S, I_sb), (0x1023, 0x707f, TYPE_S, I_sh),
     (0x2023, 0x707f, TYPE_S, I_sw), (0x13, 0x707f, TYPE_I, I_addi),
     (0x2013, 0x707f, TYPE_I, I_slti), (0x3013, 0x707f, TYPE_I, I_sltiu),
     (0x4013, 0x707f, TYPE_I, I_xori), (0x6013, 0x707f, TYPE_I, I_ori),
     (0x7013, 0x707f, TYPE_I, I_andi), (0x1013, 0xfe00707f, TYPE_I, I_slli),
     (0x5013, 0xfe00707f, TYPE_I, I_srli), (0x40005013, 0xfe00707f, TYPE_I, I_srai),
     (0x33, 0xfe00707f, TYPE_R, I_add), (0x40000033, 0xfe00707f, TYPE_R, I_sub),
     (0x1033, 0xfe00707f, TYPE_R, I_sll), (0x2033, 0xfe00707f, TYPE_R, I_slt),
     (0x3033, 0xfe00707f, TYPE_R, I_sltu), (0x4033, 0xfe00707f, TYPE_R, I_xor),
     (0x5033, 0xfe00707f, TYPE_R, I_srl), (0x40005033, 0xfe00707f, TYPE_R, I_sra),
     (0x6033, 0xfe00707f, TYPE_R, I_or), (0x7033, 0xfe00707f, TYPE_R, I_and),
     (0x2006033, 0xfe00707f, TYPE_R, I_rem), (0x2007033, 0xfe00707f, TYPE_R, I_remu),
     (0x2000033, 0xfe00707f, TYPE_R, I_mul), (0x2004033, 0xfe00707f, TYPE_R, I_div),
     (0x2005033, 0xfe00707f, TYPE_R, I_divu), (0x2001033, 0xfe00707f, TYPE_R, I_mulh),
     (0x2002033, 0xfe00707f, TYPE_R, I_mulhsu), (0x2003033, 0xfe00707f, TYPE_R, I_mulhu),
     (0x73, 0xffffffff, TYPE_N, I_ecall), (0x100073, 0xffffffff, TYPE_N, I_ebreak),
     (0x30200073, 0xffffffff, TYPE_N, I_mret), (0x1073, 0x707f, TYPE_I, I_csrrw),
     (0x2073, 0x707f, TYPE_I, I_csrrs), (0x3073, 0x707f, TYPE_I, I_csrrc),
     (0x5073, 0x707f, TYPE_I_I, I_csrrwi), (0x6073, 0x707f, TYPE_I_I, I_csrrsi),
     (0x7073, 0x707f, TYPE_I_I, I_csrrci), (0x0, 0x0, TYPE_N, I_inv)]"

fun lookup_masks :: "(u32 \<times> u32 \<times> inst_type \<times> inst_name) list \<Rightarrow> u32 \<Rightarrow>
    (inst_type \<times> inst_name) option" where
  "lookup_masks [] inst = None"
| "lookup_masks ((key, msk, t, n) # rows) inst =
     (if inst AND msk = key then Some (t, n) else lookup_masks rows inst)"

definition row_agrees :: "string \<times> inst_type \<times> inst_name \<Rightarrow>
    u32 \<times> u32 \<times> inst_type \<times> inst_name \<Rightarrow> bool" where
  "row_agrees = (\<lambda>(pattern, t, n) (key, msk, t', n'). t = t' \<and> n = n' \<and>
     (case pattern_decode pattern of Inl e \<Rightarrow> False
      | Inr (k, m, s) \<Rightarrow> (s = 0 \<or> m = 0 \<and> k = 0) \<and> k = ucast key \<and> m = ucast msk))"

lemma ucast_and_eq: "(ucast (x :: u32) :: u64) AND ucast m = ucast k \<longleftrightarrow> x AND m = k"
proof -
  have "(ucast x :: u64) AND ucast m = ucast (x AND m)"
    by (rule bit_word_eqI) (auto simp: bit_and_iff bit_ucast_iff)
  moreover have "(ucast (ucast y :: u64) :: u32) = y" for y :: u32
    by (rule bit_word_eqI) (simp add: bit_ucast_iff)
  then have "(ucast (y :: u32) :: u64) = ucast k \<longleftrightarrow> y = k" for y
    by metis
  ultimately show ?thesis by simp
qed

lemma ucast_zero_iff: "(ucast (x :: u32) :: u64) = 0 \<longleftrightarrow> x = 0"
  using ucast_and_eq [of x x 0] ucast_and_eq [of 0 0 x] by auto

lemma row_agrees_matches:
  "row_agrees (pattern, t, n) (key, msk, t', n') \<Longrightarrow> inst_matches pattern inst = Inr (inst AND msk = key)"
  by (auto simp: row_agrees_def inst_matches_def ucast_and_eq ucast_zero_iff split: sum.splits)

lemma lookup_by_masks:
  "list_all2 row_agrees rows ms \<Longrightarrow> instpat_lookup rows inst = Inr (lookup_masks ms inst)"
proof (induction rows ms rule: list_all2_induct)
  case (Cons r rows m ms)
  obtain p t n where r: "r = (p, t, n)" by (cases r) auto
  obtain k w t' n' where m: "m = (k, w, t', n')" by (cases m) auto
  from Cons r m show ?case
    using row_agrees_matches [of p t n k w t' n'] by (simp add: row_agrees_def)
qed simp

lemma pattern_loop_steps:
  "0 < n \<Longrightarrow> pattern_loop n [] key msk shft = Inr (key, msk, shft)"
  "0 < n \<Longrightarrow> pattern_loop n (c # cs) key msk shft =
     (if c = CHR '' '' then pattern_loop (n - 1) cs key msk shft
      else if c = CHR ''0'' then pattern_loop (n - 1) cs (push_bit 1 key) (push_bit 1 msk OR 1) 0
      else if c = CHR ''1'' then pattern_loop (n - 1) cs (push_bit 1 key OR 1) (push_bit 1 msk OR 1) 0
      else if c = CHR ''?'' then pattern_loop (n - 1) cs (push_bit 1 key) (push_bit 1 msk) (shft + 1)
      else Inl (Assert_failed ''invalid character in pattern string''))"
  by (cases n; simp)+

lemma table_masks: "list_all2 row_agrees instpat_table instpat_masks"
  by (simp add: instpat_table_def instpat_masks_def row_agrees_def pattern_decode_def
      pattern_loop_steps del: pattern_loop.simps)

section \<open>The table by fields\<close>

lemma and_or_split:
  "(x :: u32) AND (a OR b) = k AND (a OR b) \<longleftrightarrow> x AND a = k AND a \<and> x AND b = k AND b"
  unfolding bit_eq_iff by (auto simp: bit_and_iff bit_or_iff)

lemma field_eq:
  assumes "n + w \<le> 32"
  shows "(x :: u32) AND push_bit n (mask w) = k AND push_bit n (mask w) \<longleftrightarrow>
    drop_bit n x AND mask w = drop_bit n k AND mask w"
proof
  assume eq: "x AND push_bit n (mask w) = k AND push_bit n (mask w)"
  show "drop_bit n x AND mask w = drop_bit n k AND mask w"
  proof (rule bit_word_eqI)
    fix j
    show "bit (drop_bit n x AND mask w) j = bit (drop_bit n k AND mask w) j"
      using arg_cong [OF eq, of "\<lambda>v. bit v (n + j)"] assms
      by (auto simp: bit_and_iff bit_push_bit_iff bit_mask_iff bit_drop_bit_eq)
  qed
next
  assume eq: "drop_bit n x AND mask w = drop_bit n k AND mask w"
  show "x AND push_bit n (mask w) = k AND push_bit n (mask w)"
  proof (rule bit_word_eqI)
    fix j
    show "bit (x AND push_bit n (mask w)) j = bit (k AND push_bit n (mask w)) j"
      using arg_cong [OF eq, of "\<lambda>v. bit v (j - n)"]
      by (auto simp: bit_and_iff bit_push_bit_iff bit_mask_iff bit_drop_bit_eq)
  qed
qed

definition rv_op :: "u32 \<Rightarrow> u32" where "rv_op inst = inst AND 0x7f"
definition rv_f3 :: "u32 \<Rightarrow> u32" where "rv_f3 inst = drop_bit 12 inst AND 7"
definition rv_f7 :: "u32 \<Rightarrow> u32" where "rv_f7 inst = drop_bit 25 inst AND 0x7f"

lemma mask_fields:
  "(0x7f :: u32) = mask 7" "(7 :: u32) = mask 3"
  "(0x707f :: u32) = mask 7 OR push_bit 12 (mask 3)"
  "(0xfe00707f :: u32) = mask 7 OR (push_bit 12 (mask 3) OR push_bit 25 (mask 7))"
  by (simp_all add: mask_eq_exp_minus_1)

lemma match_fields:
  "inst AND 0x7f = k \<longleftrightarrow> rv_op inst = k"
  "k AND 0x707f = k \<Longrightarrow> inst AND 0x707f = k \<longleftrightarrow> rv_op inst = rv_op k \<and> rv_f3 inst = rv_f3 k"
  "k AND 0xfe00707f = k \<Longrightarrow> inst AND 0xfe00707f = k \<longleftrightarrow>
     rv_op inst = rv_op k \<and> rv_f3 inst = rv_f3 k \<and> rv_f7 inst = rv_f7 k"
proof -
  show "inst AND 0x7f = k \<longleftrightarrow> rv_op inst = k" by (simp add: rv_op_def)
  show "inst AND 0x707f = k \<longleftrightarrow> rv_op inst = rv_op k \<and> rv_f3 inst = rv_f3 k"
    if "k AND 0x707f = k"
    using and_or_split [of inst "mask 7" "push_bit 12 (mask 3)" k] field_eq [of 12 3 inst k] that
    unfolding rv_op_def rv_f3_def mask_fields by simp
  show "inst AND 0xfe00707f = k \<longleftrightarrow> rv_op inst = rv_op k \<and> rv_f3 inst = rv_f3 k \<and> rv_f7 inst = rv_f7 k"
    if "k AND 0xfe00707f = k"
    using and_or_split [of inst "mask 7" "push_bit 12 (mask 3) OR push_bit 25 (mask 7)" k]
      and_or_split [of inst "push_bit 12 (mask 3)" "push_bit 25 (mask 7)" k]
      field_eq [of 12 3 inst k] field_eq [of 25 7 inst k] that
    unfolding rv_op_def rv_f3_def rv_f7_def mask_fields by simp
qed

text \<open>
  The opcode map of the RISC-V manual for RV32IM with the privileged instructions, as far
  as the emulator implements it: the opcode selects a table by \<open>funct3\<close> or by \<open>funct7\<close> and
  \<open>funct3\<close>, the system instructions without operands are whole words.
\<close>

definition pick :: "('k \<times> inst_name) list \<Rightarrow> 'k \<Rightarrow> inst_name" where
  "pick xs k = (case map_of xs k of None \<Rightarrow> I_inv | Some n \<Rightarrow> n)"

definition rv32_decode :: "u32 \<Rightarrow> inst_name" where
  "rv32_decode inst =
     (let f3 = rv_f3 inst; f7 = rv_f7 inst
      in pick [(0x37, I_lui), (0x17, I_auipc), (0x6f, I_jal),
          (0x67, pick [(0, I_jalr)] f3),
          (0x63, pick [(0, I_beq), (1, I_bne), (4, I_blt), (5, I_bge), (6, I_bltu), (7, I_bgeu)] f3),
          (0x03, pick [(0, I_lb), (1, I_lh), (2, I_lw), (4, I_lbu), (5, I_lhu)] f3),
          (0x23, pick [(0, I_sb), (1, I_sh), (2, I_sw)] f3),
          (0x13, pick [(0, I_addi), (1, pick [(0, I_slli)] f7), (2, I_slti), (3, I_sltiu),
             (4, I_xori), (5, pick [(0, I_srli), (0x20, I_srai)] f7), (6, I_ori), (7, I_andi)] f3),
          (0x33, pick
             [(0, pick [(0, I_add), (1, I_sll), (2, I_slt), (3, I_sltu), (4, I_xor), (5, I_srl),
                (6, I_or), (7, I_and)] f3),
              (0x20, pick [(0, I_sub), (5, I_sra)] f3),
              (1, pick [(0, I_mul), (1, I_mulh), (2, I_mulhsu), (3, I_mulhu), (4, I_div),
                (5, I_divu), (6, I_rem), (7, I_remu)] f3)] f7),
          (0x73, pick
             [(0, pick [(0x73, I_ecall), (0x100073, I_ebreak), (0x30200073, I_mret)] inst),
              (1, I_csrrw), (2, I_csrrs), (3, I_csrrc), (5, I_csrrwi), (6, I_csrrsi), (7, I_csrrci)] f3)]
         (rv_op inst))"

definition rv32_format :: "inst_name \<Rightarrow> inst_type" where
  "rv32_format n =
     (if n \<in> {I_lui, I_auipc} then TYPE_U
      else if n = I_jal then TYPE_J
      else if n \<in> {I_beq, I_bne, I_blt, I_bge, I_bltu, I_bgeu} then TYPE_B
      else if n \<in> {I_sb, I_sh, I_sw} then TYPE_S
      else if n \<in> {I_ecall, I_ebreak, I_mret, I_inv} then TYPE_N
      else if n \<in> {I_csrrwi, I_csrrsi, I_csrrci} then TYPE_I_I
      else if n \<in> {I_add, I_sub, I_sll, I_slt, I_sltu, I_xor, I_srl, I_sra, I_or, I_and,
         I_mul, I_mulh, I_mulhsu, I_mulhu, I_div, I_divu, I_rem, I_remu} then TYPE_R
      else TYPE_I)"

lemma pick_Cons: "pick ((k, n) # xs) j = (if j = k then n else pick xs j)"
  by (auto simp: pick_def)

lemma pick_Nil: "pick [] j = I_inv"
  by (simp add: pick_def)

lemma match_word: "inst AND 0xffffffff = k \<longleftrightarrow> inst = (k :: u32)"
proof -
  have m: "(0xffffffff :: u32) = mask 32" by (simp add: mask_eq_exp_minus_1)
  show ?thesis unfolding m and_mask_eq_take_bit by simp
qed

lemma system_words:
  "rv_op inst \<noteq> 0x73 \<or> rv_f3 inst \<noteq> 0 \<Longrightarrow>
   inst \<noteq> 0x73 \<and> inst \<noteq> 0x100073 \<and> inst \<noteq> 0x30200073"
  by (auto simp: rv_op_def rv_f3_def)

lemma rv_consts [simp]:
  "rv_op (numeral k) = numeral k AND 0x7f"
  "rv_f3 (numeral k) = drop_bit 12 (numeral k) AND 7"
  "rv_f7 (numeral k) = drop_bit 25 (numeral k) AND 0x7f"
  by (simp_all add: rv_op_def rv_f3_def rv_f7_def)

lemmas decode_table_simps = instpat_masks_def match_fields match_word rv32_decode_def
  pick_Cons pick_Nil Let_def rv32_format_def

lemma lookup_fields:
  "lookup_masks instpat_masks inst = Some (rv32_format (rv32_decode inst), rv32_decode inst)"
proof -
  consider "rv_op inst = 0x73" "rv_f3 inst = 0" | "rv_op inst = 0x73" "rv_f3 inst \<noteq> 0"
    | "rv_op inst \<noteq> 0x73" by blast
  then show ?thesis
  proof cases
    case 1
    then show ?thesis by (simp add: decode_table_simps)
  next
    case 2
    with system_words [of inst] show ?thesis by (simp add: decode_table_simps)
  next
    case 3
    with system_words [of inst]
    have w: "inst \<noteq> 0x73" "inst \<noteq> 0x100073" "inst \<noteq> 0x30200073" by auto
    consider "rv_op inst = 0x37" | "rv_op inst = 0x17" | "rv_op inst = 0x6f" | "rv_op inst = 0x67"
      | "rv_op inst = 0x63" | "rv_op inst = 0x03" | "rv_op inst = 0x23" | "rv_op inst = 0x13"
      | "rv_op inst = 0x33"
      | "rv_op inst \<notin> {0x37, 0x17, 0x6f, 0x67, 0x63, 0x03, 0x23, 0x13, 0x33, 0x73}"
      using 3 by auto
    then show ?thesis
      using w by cases (simp_all add: decode_table_simps)
  qed
qed


lemma pattern_matches_bits_witness:
  "inst_matches ''0000000 ????? ????? 101 ????? 00100 11'' 0x00535293 = Inr True"
proof -
  have ok: "pattern_ok ''0000000 ????? ????? 101 ????? 00100 11''"
    by (simp add: pattern_ok_def pat_chars_def)
  show ?thesis
    unfolding pattern_matches_bits [OF ok]
    by (simp add: pat_chars_def char_matches_def numeral_eq_Suc All_less_Suc)
qed

section \<open>Immediates\<close>

lemma BITMASK_eq: "BITMASK n = mask n"
  by (simp add: BITMASK_def mask_eq_decr_exp push_bit_eq_mult)

lemma bit_BITS: "bit (BITS x hi lo) n \<longleftrightarrow> n < hi - lo + 1 \<and> bit x (lo + n)"
  using bit_imp_le_length [of x "lo + n"]
  by (auto simp: BITS_def BITMASK_eq bit_and_iff bit_drop_bit_eq bit_mask_iff)

lemma bit_SEXT: "bit (SEXT x len) n \<longleftrightarrow> n < 64 \<and> bit x (min (len - 1) n)"
  by (auto simp: SEXT_def bit_signed_take_bit_iff dest: bit_imp_le_length)

text \<open>An assembler's view: put the immediate \<open>off\<close> into the fields of the instruction \<open>i\<close>.\<close>

definition put_I :: "u32 \<Rightarrow> u32 \<Rightarrow> u32" where
  "put_I off i = (i AND 0x000fffff) OR push_bit 20 off"

definition put_S :: "u32 \<Rightarrow> u32 \<Rightarrow> u32" where
  "put_S off i = (i AND 0x01fff07f) OR push_bit 25 (drop_bit 5 off) OR push_bit 7 (off AND 0x1f)"

definition put_B :: "u32 \<Rightarrow> u32 \<Rightarrow> u32" where
  "put_B off i = (i AND 0x01fff07f) OR push_bit 31 (drop_bit 12 off) OR
     push_bit 25 (drop_bit 5 off AND 0x3f) OR push_bit 8 (drop_bit 1 off AND 0xf) OR
     push_bit 7 (drop_bit 11 off AND 1)"

definition put_U :: "u32 \<Rightarrow> u32 \<Rightarrow> u32" where
  "put_U off i = (i AND 0xfff) OR (off AND 0xfffff000)"

definition put_J :: "u32 \<Rightarrow> u32 \<Rightarrow> u32" where
  "put_J off i = (i AND 0xfff) OR push_bit 31 (drop_bit 20 off) OR
     push_bit 21 (drop_bit 1 off AND 0x3ff) OR push_bit 20 (drop_bit 11 off AND 1) OR
     push_bit 12 (drop_bit 12 off AND 0xff)"

lemma u32_eqI:
  assumes "\<And>n. n \<in> {0, 1, 2, 3, 4, 5, 6, 7, 8, 9, 10, 11, 12, 13, 14, 15, 16, 17, 18, 19, 20,
    21, 22, 23, 24, 25, 26, 27, 28, 29, 30, 31} \<Longrightarrow> bit x n = bit y n"
  shows "x = (y :: u32)"
proof (rule bit_word_eqI)
  fix n
  assume "n < LENGTH(32)"
  then have "n \<in> {0, 1, 2, 3, 4, 5, 6, 7, 8, 9, 10, 11, 12, 13, 14, 15, 16, 17, 18, 19, 20,
    21, 22, 23, 24, 25, 26, 27, 28, 29, 30, 31}" by simp presburger
  then show "bit x n = bit y n" by (rule assms)
qed

lemmas imm_bits = bit_ucast_iff bit_SEXT bit_BITS bit_or_iff bit_and_iff bit_push_bit_iff
  bit_drop_bit_eq o_apply bit_signed_take_bit_iff bit_not_iff

lemma immI_put: "immI (put_I off i) = signed_take_bit 11 off"
  by (rule u32_eqI) (elim insertE emptyE; simp only: immI_def put_I_def imm_bits; simp add: numeral_2_eq_2 [symmetric])

lemma immS_put: "immS (put_S off i) = signed_take_bit 11 off"
  by (rule u32_eqI) (elim insertE emptyE; simp only: immS_def put_S_def imm_bits; simp add: numeral_2_eq_2 [symmetric])

lemma immB_put: "immB (put_B off i) = signed_take_bit 12 off AND NOT 1"
  by (rule u32_eqI) (elim insertE emptyE; simp only: immB_def put_B_def imm_bits; simp add: numeral_2_eq_2 [symmetric])

lemma immU_put: "immU (put_U off i) = off AND 0xfffff000"
  by (rule u32_eqI) (elim insertE emptyE; simp only: immU_def put_U_def imm_bits; simp add: numeral_2_eq_2 [symmetric])

lemma immJ_put: "immJ (put_J off i) = signed_take_bit 20 off AND NOT 1"
  by (rule u32_eqI) (elim insertE emptyE; simp only: immJ_def put_J_def imm_bits; simp add: numeral_2_eq_2 [symmetric])

lemma put_fields:
  "rv_op (put_I off i) = rv_op i" "rv_f3 (put_I off i) = rv_f3 i"
  "rv_op (put_S off i) = rv_op i" "rv_f3 (put_S off i) = rv_f3 i"
  "rv_op (put_B off i) = rv_op i" "rv_f3 (put_B off i) = rv_f3 i"
  "rv_op (put_U off i) = rv_op i" "rv_op (put_J off i) = rv_op i"
  by (rule u32_eqI; elim insertE emptyE;
      simp only: rv_op_def rv_f3_def put_I_def put_S_def put_B_def put_U_def put_J_def imm_bits;
      simp add: numeral_2_eq_2 [symmetric])+

text \<open>The immediate the decoder extracts from each format is the one an assembler puts
  into its scattered fields: sign-extended from 12 bits (I, S), 13 bits and even (B), 21
  bits and even (J), the upper 20 bits (U); and putting it there leaves the opcode and
  \<open>funct3\<close> alone.\<close>

lemma immediates_roundtrip:
  "immI (put_I off i) = signed_take_bit 11 off \<and>
   immS (put_S off i) = signed_take_bit 11 off \<and>
   immB (put_B off i) = signed_take_bit 12 off AND NOT 1 \<and>
   immU (put_U off i) = off AND 0xfffff000 \<and>
   immJ (put_J off i) = signed_take_bit 20 off AND NOT 1 \<and>
   (\<forall>put \<in> {put_I, put_S, put_B}. rv_op (put off i) = rv_op i \<and> rv_f3 (put off i) = rv_f3 i) \<and>
   (\<forall>put \<in> {put_U, put_J}. rv_op (put off i) = rv_op i)"
  by (simp add: immI_put immS_put immB_put immU_put immJ_put put_fields)

lemma immediates_roundtrip_witness:
  "immB (put_B 0xfffffff8 0x00000063) = 0xfffffff8"
  using immediates_roundtrip [of "0xfffffff8" "0x00000063"] by simp

end
