(* ===== verification/Guest_Memory.thy ===== *)
theory Guest_Memory
  imports Devices_Init
begin

text \<open>
  Guest memory as the CPU and the simulated bus see it: \<open>nemu/src/memory/paddr.c\<close>,
  \<open>vaddr.c\<close>, including the memory functions the Verilog models of the SoC call through
  DPI-C.
\<close>

section \<open>paddr.c\<close>

definition note_access :: "config \<Rightarrow> paddr_t \<Rightarrow> int \<Rightarrow> system \<Rightarrow> system" where
  "note_access cfg addr len s =
     (if CONFIG_TARGET_SHARE cfg then s\<lparr>mem_flag := \<lparr>flag = 1, mf_addr = addr, mf_len = len\<rparr>\<rparr>
      else s)"

definition pmem_read :: "config \<Rightarrow> paddr_t \<Rightarrow> int \<Rightarrow> system \<Rightarrow> (word_t \<times> system) result" where
  "pmem_read cfg addr len s =
     (let s = note_access cfg addr len s in
      bindR (guest_to_host cfg addr) (\<lambda>p.
      bindR (host_read cfg (harr s) p len) (\<lambda>ret. Inr (ret, s))))"

definition pmem_write :: "config \<Rightarrow> paddr_t \<Rightarrow> int \<Rightarrow> word_t \<Rightarrow> system \<Rightarrow> system result" where
  "pmem_write cfg addr len data s =
     (let s = note_access cfg addr len s in
      bindR (guest_to_host cfg addr) (\<lambda>p.
      bindR (host_write cfg p len data (harr s)) (\<lambda>h. Inr (s\<lparr>harr := h\<rparr>))))"

definition out_of_bound :: "paddr_t \<Rightarrow> 'a result" where
  "out_of_bound addr = Inl (Panicked ''Memory check bound'')"

text \<open>
  \<open>init_mem\<close> fills the memory with one byte of the host's random generator when
  \<open>CONFIG_MEM_RANDOM\<close> is set (\<open>Some b\<close>); otherwise the array keeps its zeroes.
\<close>

definition init_mem :: "u8 option \<Rightarrow> system \<Rightarrow> system" where
  "init_mem mem_random s =
     (case mem_random of None \<Rightarrow> s
      | Some b \<Rightarrow> s\<lparr>harr := (harr s)(A_pmem := (\<lambda>_. b))\<rparr>)"

definition readable_memory :: "config \<Rightarrow> paddr_t \<Rightarrow> bool" where
  "readable_memory cfg addr \<longleftrightarrow>
     (if CONFIG_NPC cfg then
        (CONFIG_SYS_SOC cfg \<and> guest_in_memory cfg addr) \<or> (CONFIG_SYS_NPC cfg \<and> in_pmem cfg addr)
      else if CONFIG_TARGET_SHARE cfg then guest_in_memory cfg addr
      else if YSYXSOC_ON_NEMU cfg then guest_in_memory cfg addr
      else in_pmem cfg addr)"

definition guest_in_ram :: "config \<Rightarrow> paddr_t \<Rightarrow> bool" where
  "guest_in_ram cfg addr \<longleftrightarrow>
     in_pmem cfg addr \<or> in_sram cfg addr \<or> in_psram cfg addr \<or> in_sdram cfg addr"

definition writable_memory :: "config \<Rightarrow> paddr_t \<Rightarrow> bool" where
  "writable_memory cfg addr \<longleftrightarrow>
     (if CONFIG_NPC cfg then
        (CONFIG_SYS_SOC cfg \<and> guest_in_ram cfg addr) \<or> (CONFIG_SYS_NPC cfg \<and> in_pmem cfg addr)
      else if CONFIG_TARGET_SHARE cfg then guest_in_ram cfg addr
      else if YSYXSOC_ON_NEMU cfg then guest_in_ram cfg addr
      else in_pmem cfg addr)"

definition paddr_read :: "config \<Rightarrow> paddr_t \<Rightarrow> int \<Rightarrow> system \<Rightarrow> (word_t \<times> system) result" where
  "paddr_read cfg addr len s =
     (if readable_memory cfg addr then pmem_read cfg addr len s
      else if CONFIG_DEVICE cfg then mmio_read (io_handler cfg) cfg addr len s
      else out_of_bound addr)"

definition paddr_write :: "config \<Rightarrow> paddr_t \<Rightarrow> int \<Rightarrow> word_t \<Rightarrow> system \<Rightarrow> system result" where
  "paddr_write cfg addr len data s =
     (if writable_memory cfg addr then pmem_write cfg addr len data s
      else if CONFIG_DEVICE cfg then mmio_write (io_handler cfg) cfg addr len data s
      else out_of_bound addr)"

section \<open>Memory functions called by the Verilog models\<close>

text \<open>
  The addresses are added as unsigned 32-bit numbers (\<open>chip\<close> is the parameter \<open>id\<close>); the
  accesses are 16-bit and 32-bit accesses through the host pointer.
\<close>

definition sdram_write :: "config \<Rightarrow> u32 \<Rightarrow> u32 \<Rightarrow> u8 \<Rightarrow> u16 \<Rightarrow> system \<Rightarrow> system result" where
  "sdram_write cfg chip wAddr wMask wData s =
     bindR (guest_to_host cfg (CONFIG_SDRAM_BASE cfg + wAddr + chip * 2)) (\<lambda>p.
     bindR (host_load cfg (harr s) p 2) (\<lambda>originData.
     let put = (\<lambda>v. bindR (host_store cfg p 2 v (harr s)) (\<lambda>h. Inr (s\<lparr>harr := h\<rparr>))) in
     if wMask = 1 then put ((originData AND 0xFF00) OR (ucast wData AND 0x00FF))
     else if wMask = 2 then put ((originData AND 0x00FF) OR (ucast wData AND 0xFF00))
     else if wMask = 3 then put (ucast wData)
     else Inr s))"

definition sdram_read :: "config \<Rightarrow> u32 \<Rightarrow> u32 \<Rightarrow> u8 \<Rightarrow> system \<Rightarrow> (u16 \<times> system) result" where
  "sdram_read cfg chip rAddr rMask s =
     bindR (paddr_read cfg (CONFIG_SDRAM_BASE cfg + rAddr + chip * 2) 2 s) (\<lambda>(data, t).
     Inr (ucast data, t))"

definition psram_read :: "config \<Rightarrow> u32 \<Rightarrow> system \<Rightarrow> (word_t \<times> system) result" where
  "psram_read cfg addr s = paddr_read cfg (CONFIG_PSRAM_BASE cfg + addr) 4 s"

definition psram_write :: "config \<Rightarrow> u32 \<Rightarrow> u32 \<Rightarrow> u8 \<Rightarrow> system \<Rightarrow> system result" where
  "psram_write cfg addr wdata wstrb s =
     (let put = (\<lambda>n v. bindR (guest_to_host cfg (CONFIG_PSRAM_BASE cfg + addr)) (\<lambda>p.
            bindR (host_store cfg p n v (harr s)) (\<lambda>h. Inr (s\<lparr>harr := h\<rparr>)))) in
      if wstrb = 2 then put 1 (drop_bit 24 wdata AND 0xFF)
      else if wstrb = 4 then put 2 (drop_bit 16 wdata AND 0xFFFF)
      else if wstrb = 8 then put 4 wdata
      else Inr s)"

definition flash_read :: "config \<Rightarrow> u32 \<Rightarrow> system \<Rightarrow> word_t result" where
  "flash_read cfg addr s = host_load cfg (harr s) (A_flash, unat addr) 4"

definition mrom_read :: "config \<Rightarrow> u32 \<Rightarrow> system \<Rightarrow> word_t result" where
  "mrom_read cfg addr s =
     host_load cfg (harr s) (A_mrom, unat ((addr AND 0xfffffffc) - CONFIG_MROM_BASE cfg)) 4"

section \<open>vaddr.c\<close>

definition vaddr_ifetch :: "config \<Rightarrow> vaddr_t \<Rightarrow> int \<Rightarrow> system \<Rightarrow> (word_t \<times> system) result" where
  "vaddr_ifetch cfg addr len s = paddr_read cfg addr len s"

definition vaddr_read :: "config \<Rightarrow> vaddr_t \<Rightarrow> int \<Rightarrow> system \<Rightarrow> (word_t \<times> system) result" where
  "vaddr_read cfg addr len s = paddr_read cfg addr len s"

definition vaddr_write :: "config \<Rightarrow> vaddr_t \<Rightarrow> int \<Rightarrow> word_t \<Rightarrow> system \<Rightarrow> system result" where
  "vaddr_write cfg addr len data s = paddr_write cfg addr len data s"

section \<open>Frames\<close>

text \<open>A memory access leaves the CPU, the run state and the tables of regions alone.\<close>

definition mem_frame :: "system \<Rightarrow> system \<Rightarrow> bool" where
  "mem_frame s t \<longleftrightarrow>
     cpu t = cpu s \<and> nemu_state t = nemu_state s \<and> ftrace t = ftrace s \<and>
     itrace t = itrace s \<and> itbin t = itbin s \<and> log_open t = log_open s \<and>
     g_nr_guest_inst t = g_nr_guest_inst s \<and> mmio_maps t = mmio_maps s \<and> pio_maps t = pio_maps s"

lemma mem_frame_refl [simp]: "mem_frame s s"
  by (simp add: mem_frame_def)

lemma mem_frame_trans: "mem_frame s t \<Longrightarrow> mem_frame t u \<Longrightarrow> mem_frame s u"
  by (simp add: mem_frame_def)

lemma bus_frame_mem: "bus_frame s t \<Longrightarrow> mem_frame s t"
  by (simp add: bus_frame_def mem_frame_def)

lemma note_access_simps [simp]:
  "harr (note_access cfg a n s) = harr s" "cpu (note_access cfg a n s) = cpu s"
  "nemu_state (note_access cfg a n s) = nemu_state s"
  by (simp_all add: note_access_def)

lemma note_access_frame: "mem_frame s (note_access cfg a n s)"
  by (simp add: note_access_def mem_frame_def)

lemma paddr_read_frame: "paddr_read cfg addr len s = Inr (v, t) \<Longrightarrow> mem_frame s t"
  by (auto simp: paddr_read_def pmem_read_def out_of_bound_def Let_def result_simps
      note_access_frame dest: devs.mmio_read_frame bus_frame_mem split: if_splits)

lemma paddr_write_frame: "paddr_write cfg addr len d s = Inr t \<Longrightarrow> mem_frame s t"
  by (auto simp: paddr_write_def pmem_write_def out_of_bound_def Let_def result_simps
      note_access_def mem_frame_def dest!: devs.mmio_write_frame bus_frame_mem split: if_splits)

lemma paddr_read_memory:
  "paddr_read cfg addr len s = Inr (v, t) \<Longrightarrow> a \<noteq> A_io \<Longrightarrow> harr t a = harr s a"
  by (auto simp: paddr_read_def pmem_read_def out_of_bound_def Let_def result_simps
      dest!: devs.mmio_read_frame simp: bus_frame_def split: if_splits)

section \<open>Reading back what was written\<close>

lemma writable_readable: "writable_memory cfg addr \<Longrightarrow> readable_memory cfg addr"
  by (auto simp: writable_memory_def readable_memory_def guest_in_ram_def guest_in_memory_def
      split: if_splits)

lemma paddr_read_pmem:
  "readable_memory cfg addr \<Longrightarrow> guest_to_host cfg addr = Inr p \<Longrightarrow>
   paddr_read cfg addr len s =
     bindR (host_read cfg (harr s) p len) (\<lambda>v. Inr (v, note_access cfg addr len s))"
  by (simp add: paddr_read_def pmem_read_def Let_def)

lemma paddr_write_pmem:
  "writable_memory cfg addr \<Longrightarrow> guest_to_host cfg addr = Inr p \<Longrightarrow>
   paddr_write cfg addr len d s =
     bindR (host_write cfg p len d (harr s)) (\<lambda>h. Inr ((note_access cfg addr len s)\<lparr>harr := h\<rparr>))"
  by (simp add: paddr_write_def pmem_write_def Let_def)

lemma writable_host: "writable_memory cfg addr \<Longrightarrow> \<exists>p. guest_to_host cfg addr = Inr p"
  unfolding guest_to_host_defined
  by (auto simp: writable_memory_def guest_in_ram_def guest_in_memory_def split: if_splits)

lemma guest_to_host_pmem:
  "in_pmem cfg addr \<Longrightarrow> guest_to_host cfg addr = Inr (A_pmem, unat (addr - CONFIG_MBASE cfg))"
  by (simp add: guest_to_host_def)

lemma paddr_write_pmem_total:
  assumes "in_pmem cfg addr" and "writable_memory cfg addr" and "len \<in> {1, 2, 4}"
    and "unat (addr - CONFIG_MBASE cfg) + nat len \<le> unat (CONFIG_MSIZE cfg)"
  shows "\<exists>t. paddr_write cfg addr len d s = Inr t"
  using assms(3,4)
  by (auto simp: paddr_write_pmem [OF assms(2) guest_to_host_pmem [OF assms(1)]]
      host_write_def host_store_def)

text \<open>Concrete machines for the examples: the native one, and the SoC simulator.\<close>

definition system_zero :: system where
  "system_zero = system0 (\<lambda>_. 0)"

definition soc_config :: config where
  "soc_config = native_config\<lparr>CONFIG_NPC := True, CONFIG_SYS_SOC := True\<rparr>"

lemma native_pmem:
  "in_pmem native_config 0x80000010" "writable_memory native_config 0x80000010"
  "in_pmem native_config 0x80000014" "readable_memory native_config 0x80000014"
  "in_pmem native_config 0x87fffffe" "readable_memory native_config 0x87fffffe"
  "writable_memory native_config 0x80000014" "CONFIG_MBASE native_config = 0x80000000"
  "CONFIG_MSIZE native_config = 0x8000000"
  by (simp_all add: in_pmem_def native_config_def writable_memory_def readable_memory_def)

text \<open>C11: In every build configuration, what \<open>paddr_write\<close> stores in guest memory is what
  \<open>paddr_read\<close> then returns at that address and width.\<close>

theorem paddr_read_after_write:
  assumes "writable_memory cfg addr" and "len \<in> {1, 2, 4}" and "paddr_write cfg addr len d s = Inr t"
  shows "\<exists>u. paddr_read cfg addr len t = Inr (take_bit (8 * nat len) d, u) \<and> harr u = harr t"
proof -
  obtain p where p: "guest_to_host cfg addr = Inr p"
    using writable_host [OF assms(1)] by blast
  from assms(3) obtain h where h: "host_write cfg p len d (harr s) = Inr h"
    and t: "t = (note_access cfg addr len s)\<lparr>harr := h\<rparr>"
    by (auto simp: paddr_write_pmem [OF assms(1) p] result_simps)
  show ?thesis
    using host_write_read [OF h assms(2)]
    by (simp add: paddr_read_pmem [OF writable_readable [OF assms(1)] p] t)
qed

lemma paddr_read_after_write_witness:
  "\<exists>t u. paddr_write native_config 0x80000010 2 0xabcdef system_zero = Inr t \<and>
     paddr_read native_config 0x80000010 2 t = Inr (0xcdef, u)"
proof -
  obtain t where t: "paddr_write native_config 0x80000010 2 0xabcdef system_zero = Inr t"
    using paddr_write_pmem_total [OF native_pmem(1,2)] by (force simp: native_config_def)
  then show ?thesis
    using paddr_read_after_write [OF native_pmem(2) _ t] by auto
qed

text \<open>A store to main memory leaves every load that does not overlap it unchanged.\<close>

lemma paddr_write_elsewhere:
  assumes "in_pmem cfg addr" "writable_memory cfg addr" "in_pmem cfg addr'" "readable_memory cfg addr'"
    and "len \<in> {1, 2, 4}" "len' \<in> {1, 2, 4}"
    and "unat (addr - PMEM_LEFT cfg) + nat len \<le> unat (addr' - PMEM_LEFT cfg) \<or>
         unat (addr' - PMEM_LEFT cfg) + nat len' \<le> unat (addr - PMEM_LEFT cfg)"
    and "paddr_write cfg addr len d s = Inr t"
  shows "map_sum id fst (paddr_read cfg addr' len' t) = map_sum id fst (paddr_read cfg addr' len' s)"
proof -
  let ?p = "(A_pmem, unat (addr - CONFIG_MBASE cfg))" and ?q = "(A_pmem, unat (addr' - CONFIG_MBASE cfg))"
  obtain h where h: "host_write cfg ?p len d (harr s) = Inr h"
    and t: "t = (note_access cfg addr len s)\<lparr>harr := h\<rparr>"
    using assms(8)
    by (auto simp: paddr_write_pmem [OF assms(2) guest_to_host_pmem [OF assms(1)]] result_simps)
  have "set (hrange ?p (nat len)) \<inter> set (hrange ?q (nat len')) = {}"
    using assms(7) hrange_disjoint by (fastforce simp: PMEM_LEFT_def)
  then have "host_read cfg h ?q len' = host_read cfg (harr s) ?q len'"
    using host_write_read_disjoint [OF h assms(5,6)] by blast
  then show ?thesis
    by (simp add: paddr_read_pmem [OF assms(4) guest_to_host_pmem [OF assms(3)]] t)
      (cases "host_read cfg (harr s) ?q len'"; simp)
qed

lemma paddr_write_elsewhere_witness:
  "\<exists>t. paddr_write native_config 0x80000010 4 0xabcdef system_zero = Inr t \<and>
     map_sum id fst (paddr_read native_config 0x80000014 2 t) =
     map_sum id fst (paddr_read native_config 0x80000014 2 system_zero)"
proof -
  obtain t where t: "paddr_write native_config 0x80000010 4 0xabcdef system_zero = Inr t"
    using paddr_write_pmem_total [OF native_pmem(1,2)] by (force simp: native_config_def)
  then show ?thesis
    using paddr_write_elsewhere [OF native_pmem(1,2,3,4), of 4 2]
    by (auto simp: PMEM_LEFT_def native_config_def)
qed

text \<open>An access that starts in main memory is defined exactly when all its bytes are in
  the array: the test \<open>in_pmem\<close> looks at the first byte only, so an access that straddles
  \<open>PMEM_RIGHT\<close> runs over the end of the host array.\<close>

lemma paddr_read_in_pmem_defined:
  assumes "in_pmem cfg addr" and "readable_memory cfg addr" and "len \<in> {1, 2, 4}"
  shows "if unat (addr - PMEM_LEFT cfg) + nat len \<le> unat (CONFIG_MSIZE cfg)
         then \<exists>v t. paddr_read cfg addr len s = Inr (v, t)
         else \<exists>e. paddr_read cfg addr len s = Inl (Undefined e)"
  using assms(3)
  by (auto simp: paddr_read_pmem [OF assms(2) guest_to_host_pmem [OF assms(1)]] PMEM_LEFT_def
      host_read_def host_load_def split: if_splits)

lemma paddr_read_in_pmem_defined_witness:
  "\<exists>e. paddr_read native_config 0x87fffffe 4 system_zero = Inl (Undefined e)"
  using paddr_read_in_pmem_defined [OF native_pmem(5,6), of 4 system_zero]
  by (simp add: PMEM_LEFT_def native_config_def)

text \<open>An address outside memory, in a build without devices, stops the emulator by a
  panic, for loads and for stores.\<close>

lemma paddr_out_of_bound:
  assumes "\<not> guest_in_memory cfg addr" and "\<not> CONFIG_DEVICE cfg"
  shows "\<exists>e. paddr_read cfg addr len s = Inl (Panicked e) \<and>
             paddr_write cfg addr len d s = Inl (Panicked e)"
  using assms
  by (auto simp: paddr_read_def paddr_write_def out_of_bound_def readable_memory_def
      writable_memory_def guest_in_memory_def guest_in_ram_def)

lemma paddr_out_of_bound_witness:
  "\<exists>e. paddr_read (native_config\<lparr>CONFIG_DEVICE := False\<rparr>) 0x1000 4 system_zero = Inl (Panicked e) \<and>
     paddr_write (native_config\<lparr>CONFIG_DEVICE := False\<rparr>) 0x1000 4 7 system_zero = Inl (Panicked e)"
  by (rule paddr_out_of_bound)
    (simp_all add: guest_in_memory_def in_pmem_def in_mrom_def in_sram_def in_flash_def
      in_psram_def in_sdram_def in_range_def native_config_def)

section \<open>The SDRAM and PSRAM models\<close>

lemma byte_masks:
  "(0x00FF :: u32) = mask 8" "(0xFF00 :: u32) = push_bit 8 (mask 8)"
  "(0x00FF :: u16) = mask 8" "(0xFF00 :: u16) = push_bit 8 (mask 8)"
  "(0xFF :: u32) = mask 8" "(0xFFFF :: u32) = mask 16"
  by (simp_all add: mask_eq_exp_minus_1)

lemma sdram_merge:
  "ucast ((take_bit 16 x AND 0xFF00) OR (take_bit 16 (ucast w) AND 0x00FF) :: u32) =
     ((ucast x AND 0xFF00) OR (w AND 0x00FF) :: u16)"
  "ucast ((take_bit 16 x AND 0x00FF) OR (take_bit 16 (ucast w) AND 0xFF00) :: u32) =
     ((ucast x AND 0x00FF) OR (w AND 0xFF00) :: u16)"
  "ucast (take_bit 16 (ucast w :: u32)) = (w :: u16)"
  unfolding byte_masks
  by (auto intro!: bit_word_eqI simp: bit_ucast_iff bit_take_bit_iff bit_or_iff bit_and_iff
      bit_push_bit_iff bit_mask_iff dest: bit_imp_le_length)

text \<open>A masked write of the SDRAM model replaces exactly the selected bytes of the
  16-bit word a later \<open>sdram_read\<close> returns.\<close>

lemma sdram_masked_write:
  assumes "readable_memory cfg (CONFIG_SDRAM_BASE cfg + a + chip * 2)"
    and "sdram_read cfg chip a rm s = Inr (old, s1)"
    and "sdram_write cfg chip a wMask wData s = Inr t"
  shows "\<exists>u. sdram_read cfg chip a rm' t =
    Inr (if wMask = 1 then (old AND 0xFF00) OR (wData AND 0x00FF)
         else if wMask = 2 then (old AND 0x00FF) OR (wData AND 0xFF00)
         else if wMask = 3 then wData else old, u)"
proof -
  from assms(3) obtain p o' where p: "guest_to_host cfg (CONFIG_SDRAM_BASE cfg + a + chip * 2) = Inr p"
    and o': "host_load cfg (harr s) p 2 = Inr o'"
    by (auto simp: sdram_write_def result_simps)
  have old: "old = ucast o'"
    using assms(2) by (auto simp: sdram_read_def paddr_read_pmem [OF assms(1) p] host_read_def o')
  show ?thesis
    using assms(3) o'
    by (auto simp: sdram_write_def p Let_def result_simps sdram_read_def old sdram_merge
        paddr_read_pmem [OF assms(1) p] host_read_def dest!: host_store_same_load split: if_splits)
qed

lemma load_le_zero [simp]: "load_le (hget (\<lambda>_ _. 0)) ps = 0"
  by (induction ps) auto

lemma soc_sizes [simp]:
  "CONFIG_MSIZE soc_config = 0x8000000" "CONFIG_SDRAM_SIZE soc_config = 0x20000000"
  "CONFIG_SDRAM_BASE soc_config = 0xa0000000" "CONFIG_PSRAM_BASE soc_config = 0x80000000"
  "harr system_zero = (\<lambda>_ _. 0)"
  by (simp_all add: soc_config_def native_config_def system_zero_def system0_def)

lemma soc_sdram:
  "readable_memory soc_config 0xa0000014"
  "guest_to_host soc_config 0xa0000014 = Inr (A_sdram, 0x14)"
  "readable_memory soc_config 0x80000008"
  "guest_to_host soc_config 0x80000008 = Inr (A_pmem, 8)"
  by (simp_all add: readable_memory_def guest_in_memory_def guest_to_host_def in_pmem_def
      in_mrom_def in_sram_def in_flash_def in_psram_def in_sdram_def in_range_def
      soc_config_def native_config_def)

lemma sdram_masked_write_witness:
  "\<exists>t u. sdram_write soc_config 2 0x10 1 0xabcd system_zero = Inr t \<and>
     sdram_read soc_config 2 0x10 0 t = Inr (0xcd, u)"
proof -
  have base: "CONFIG_SDRAM_BASE soc_config + 0x10 + 2 * 2 = 0xa0000014"
    by simp
  have old: "\<exists>s1. sdram_read soc_config 2 0x10 0 system_zero = Inr (0, s1)"
    by (simp add: sdram_read_def base paddr_read_pmem [OF soc_sdram(1,2)] host_read_def
        host_load_def)
  have "\<exists>t. sdram_write soc_config 2 0x10 1 0xabcd system_zero = Inr t"
    by (simp add: sdram_write_def base soc_sdram(2) host_load_def host_store_def)
  with old show ?thesis
    using sdram_masked_write [of soc_config "0x10" 2 0 system_zero 0 _ 1 "0xabcd" _ 0]
    by (auto simp: base soc_sdram(1))
qed

text \<open>The PSRAM model keeps the valid high bytes of the bus word: after a write of 1, 2
  or 4 bytes (strobe 2, 4, 8) a load of that width returns the top bytes of the data.\<close>

lemma psram_strobed_write:
  assumes "readable_memory cfg (CONFIG_PSRAM_BASE cfg + a)"
    and "(wstrb, n) \<in> {(2, 1), (4, 2), (8, 4)}"
    and "psram_write cfg a wdata wstrb s = Inr t"
  shows "\<exists>u. paddr_read cfg (CONFIG_PSRAM_BASE cfg + a) n t = Inr (drop_bit (32 - 8 * nat n) wdata, u)"
proof -
  from assms(2,3) obtain p where p: "guest_to_host cfg (CONFIG_PSRAM_BASE cfg + a) = Inr p"
    by (auto simp: psram_write_def Let_def result_simps)
  have len: "bit wdata (k + n) \<Longrightarrow> n < 32 - k" for k n
    using bit_imp_le_length [of wdata "k + n"] by simp
  have bits: "take_bit 8 (drop_bit 24 wdata AND 0xFF) = drop_bit 24 wdata"
    "take_bit 16 (drop_bit 16 wdata AND 0xFFFF) = drop_bit 16 wdata"
    unfolding byte_masks
    by (auto intro!: bit_word_eqI simp: bit_take_bit_iff bit_and_iff bit_mask_iff bit_drop_bit_eq
        dest: len [of 24, simplified] len [of 16, simplified])
  consider "wstrb = 2" "n = 1" | "wstrb = 4" "n = 2" | "wstrb = 8" "n = 4"
    using assms(2) by auto
  then have "\<exists>v h. host_store cfg p (nat n) v (harr s) = Inr h \<and> t = s\<lparr>harr := h\<rparr> \<and>
      take_bit (8 * nat n) v = drop_bit (32 - 8 * nat n) wdata"
  proof cases
    case 1
    with assms(3) bits(1) show ?thesis
      by (auto simp: psram_write_def p Let_def bindR_eq_Inr simp del: take_bit_and)
  next
    case 2
    with assms(3) bits(2) show ?thesis
      by (auto simp: psram_write_def p Let_def bindR_eq_Inr simp del: take_bit_and)
  next
    case 3
    with assms(3) show ?thesis
      by (auto simp: psram_write_def p Let_def bindR_eq_Inr)
  qed
  then obtain v h where h: "host_store cfg p (nat n) v (harr s) = Inr h" "t = s\<lparr>harr := h\<rparr>"
    "take_bit (8 * nat n) v = drop_bit (32 - 8 * nat n) wdata" by blast
  have "host_read cfg h p n = host_load cfg h p (nat n)"
    using assms(2) by (auto simp: host_read_def)
  then have "host_read cfg h p n = Inr (drop_bit (32 - 8 * nat n) wdata)"
    using host_store_same_load [OF h(1)] h(3) by metis
  then show ?thesis
    by (simp add: paddr_read_pmem [OF assms(1) p] h(2))
qed

lemma psram_strobed_write_witness:
  "\<exists>t u. psram_write soc_config 8 0xaabbccdd 4 system_zero = Inr t \<and>
     paddr_read soc_config 0x80000008 2 t = Inr (0xaabb, u)"
proof -
  have base: "CONFIG_PSRAM_BASE soc_config + 8 = 0x80000008"
    by simp
  have "\<exists>t. psram_write soc_config 8 0xaabbccdd 4 system_zero = Inr t"
    by (simp add: psram_write_def base soc_sdram(4) host_store_def)
  then show ?thesis
    using psram_strobed_write [of soc_config 8 4 2 "0xaabbccdd" system_zero]
    by (auto simp: base soc_sdram(3))
qed

end
