(* ===== verification/Riscv_Exec.thy ===== *)
theory Riscv_Exec
  imports Guest_Memory Nemu_Trace Inst_Decode "HOL-Library.Signed_Division"
begin

text \<open>
  The RISC-V interpreter: \<open>nemu/src/isa/riscv32\<close> (\<open>inst.c\<close>, \<open>reg.c\<close>, \<open>isa_init.c\<close>,
  \<open>system/isa_intr.c\<close>, \<open>system/mmu.c\<close>, \<open>local-include/reg.h\<close>),
  \<open>engine/interpreter/hostcall.c\<close> and \<open>include/cpu/ifetch.h\<close>.
\<close>

section \<open>The decoded instruction\<close>

record Decode =
  d_pc :: vaddr_t
  d_snpc :: vaddr_t
  d_dnpc :: vaddr_t
  d_inst :: u32

type_synonym exec_state = "Decode \<times> system"

section \<open>reg.h and reg.c\<close>

datatype CSR_status = CSR_EXIST | CSR_EXIST_DIFF_SKIP | CSR_NOT_EXIST

definition known_csrs :: "nat list" where
  "known_csrs =
     [CSR_SSTATUS, CSR_SIE, CSR_STVEC, CSR_SCOUNTEREN, CSR_SSCRATCH, CSR_SEPC, CSR_SCAUSE,
      CSR_STVAL, CSR_SIP, CSR_SATP, CSR_MSTATUS, CSR_MISA, CSR_MEDELEG, CSR_MIDELEG, CSR_MIE,
      CSR_MTVEC, CSR_MSTATUSH, CSR_MSCRATCH, CSR_MEPC, CSR_MCAUSE, CSR_MTVAL, CSR_MIP,
      CSR_MCYCLE, CSR_MCYCLEH, CSR_CYCLE, CSR_TIME, CSR_TIMEH, CSR_MVENDORID, CSR_MARCHID,
      CSR_IMPID, CSR_MHARTID]"

definition diff_skip_csrs :: "nat list" where
  "diff_skip_csrs =
     [CSR_MISA, CSR_TIME, CSR_TIMEH, CSR_MCYCLE, CSR_MCYCLEH, CSR_MVENDORID, CSR_MARCHID]"

definition check_csr_exist :: "u16 \<Rightarrow> CSR_status" where
  "check_csr_exist csr0 =
     (let csr = unat (csr0 AND 0xfff)
      in if csr \<in> set known_csrs
         then (if csr \<in> set diff_skip_csrs then CSR_EXIST_DIFF_SKIP else CSR_EXIST)
         else CSR_NOT_EXIST)"

text \<open>The index is masked to 12 bits, so the assertion after it cannot fail.\<close>

definition check_csrs_idx :: "word_t \<Rightarrow> nat" where
  "check_csrs_idx idx = unat (idx AND 0xfff)"

definition regs :: "string list" where
  "regs = [''$0'', ''ra'', ''sp'', ''gp'', ''tp'', ''t0'', ''t1'', ''t2'',
     ''s0'', ''s1'', ''a0'', ''a1'', ''a2'', ''a3'', ''a4'', ''a5'',
     ''a6'', ''a7'', ''s2'', ''s3'', ''s4'', ''s5'', ''s6'', ''s7'',
     ''s8'', ''s9'', ''s10'', ''s11'', ''t3'', ''t4'', ''t5'', ''t6'']"

fun find_reg :: "string list \<Rightarrow> nat \<Rightarrow> string \<Rightarrow> nat option" where
  "find_reg [] i s = None"
| "find_reg (r # rs) i s = (if s = r then Some i else find_reg rs (Suc i) s)"

text \<open>\<open>None\<close> is the C function's \<open>*success = false\<close> with the value 0.\<close>

definition isa_reg_str2val :: "config \<Rightarrow> string \<Rightarrow> CPU_state \<Rightarrow> word_t option" where
  "isa_reg_str2val cfg s c =
     (if s = ''pc'' then Some (if CONFIG_NPC cfg then cpc c else pc c)
      else if s = ''mstatus'' then Some (sr c CSR_MSTATUS)
      else if s = ''mepc'' then Some (sr c CSR_MEPC)
      else if s = ''mtvec'' then Some (sr c CSR_MTVEC)
      else if s = ''mcause'' then Some (sr c CSR_MCAUSE)
      else map_option (gpr c) (find_reg regs 0 s))"

section \<open>isa\_intr.c and mmu.c\<close>

definition isa_raise_intr :: "word_t \<Rightarrow> vaddr_t \<Rightarrow> CPU_state \<Rightarrow> vaddr_t \<times> CPU_state" where
  "isa_raise_intr NO epc c =
     (let tval = (if NO = MCA_BREAK_POINT then epc else 0);
          csr1 = (sr c)(CSR_MTVAL := tval, CSR_MEPC := epc, CSR_MCAUSE := NO);
          mstatus = csr1 CSR_MSTATUS;
          mie = drop_bit 3 mstatus AND 0x1;
          mstatus = (mstatus AND NOT (push_bit 7 1)) OR push_bit 7 mie;
          mstatus = mstatus AND NOT (push_bit 3 1);
          mstatus = mstatus OR push_bit 11 3;
          csr2 = csr1(CSR_MSTATUS := mstatus)
      in (csr2 CSR_MTVEC, c\<lparr>sr := csr2\<rparr>))"

definition INTR_EMPTY :: word_t where
  "INTR_EMPTY = - 1"

definition isa_query_intr :: word_t where
  "isa_query_intr = INTR_EMPTY"

datatype mem_ret = MEM_RET_OK | MEM_RET_FAIL | MEM_RET_CROSS_PAGE

definition isa_mmu_translate :: "vaddr_t \<Rightarrow> int \<Rightarrow> int \<Rightarrow> mem_ret" where
  "isa_mmu_translate vaddr len typ = MEM_RET_FAIL"

section \<open>hostcall.c and ifetch.h\<close>

definition set_nemu_state :: "config \<Rightarrow> run_state \<Rightarrow> vaddr_t \<Rightarrow> u32 \<Rightarrow> system \<Rightarrow> system" where
  "set_nemu_state cfg st thispc ret s =
     (let s = difftest_skip_ref cfg s
      in s\<lparr>nemu_state := \<lparr>state = st, halt_pc = thispc, halt_ret = ret\<rparr>\<rparr>)"

definition inst_fetch :: "config \<Rightarrow> vaddr_t \<Rightarrow> int \<Rightarrow> system \<Rightarrow> (u32 \<times> vaddr_t \<times> system) result" where
  "inst_fetch cfg thispc len s =
     bindR (vaddr_ifetch cfg thispc len s) (\<lambda>(inst, t). Inr (inst, thispc + of_int len, t))"

text \<open>The two words fetched again are printed only.\<close>

definition invalid_inst :: "config \<Rightarrow> vaddr_t \<Rightarrow> system \<Rightarrow> system result" where
  "invalid_inst cfg thispc s =
     bindR (inst_fetch cfg thispc 4 s) (\<lambda>(temp0, pc1, s).
     bindR (inst_fetch cfg pc1 4 s) (\<lambda>(temp1, pc2, s).
     Inr (set_nemu_state cfg NEMU_ABORT thispc (- 1) s)))"

section \<open>inst.c: helpers of the execute bodies\<close>

definition R_set :: "config \<Rightarrow> operands \<Rightarrow> word_t \<Rightarrow> exec_state \<Rightarrow> exec_state result" where
  "R_set cfg ops v = (\<lambda>(d, s).
     bindR (write_gpr cfg (op_rd ops) v (cpu s)) (\<lambda>c. Inr (d, s\<lparr>cpu := c\<rparr>)))"

definition branch :: "operands \<Rightarrow> bool \<Rightarrow> exec_state \<Rightarrow> exec_state result" where
  "branch ops taken = (\<lambda>(d, s). Inr (d\<lparr>d_dnpc := (if taken then d_pc d + op_imm ops else d_dnpc d)\<rparr>, s))"

definition trace_call ::
    "config \<Rightarrow> paddr_t \<Rightarrow> paddr_t \<Rightarrow> bool \<Rightarrow> system \<Rightarrow> system result" where
  "trace_call cfg thispc target is_tail s =
     bindR (trace_func_call (log_writes cfg s) thispc target is_tail (ftrace s)) (\<lambda>f.
     Inr (s\<lparr>ftrace := f\<rparr>))"

definition trace_ret :: "paddr_t \<Rightarrow> system \<Rightarrow> system" where
  "trace_ret thispc s = s\<lparr>ftrace := trace_func_ret thispc (ftrace s)\<rparr>"

definition load_ext ::
    "config \<Rightarrow> operands \<Rightarrow> int \<Rightarrow> (word_t \<Rightarrow> word_t) \<Rightarrow> exec_state \<Rightarrow> exec_state result" where
  "load_ext cfg ops len ext = (\<lambda>(d, s).
     bindR (vaddr_read cfg (op_src1 ops + op_imm ops) len s) (\<lambda>(v, t).
     R_set cfg ops (ext v) (d, t)))"

definition store_src2 :: "config \<Rightarrow> operands \<Rightarrow> int \<Rightarrow> exec_state \<Rightarrow> exec_state result" where
  "store_src2 cfg ops len = (\<lambda>(d, s).
     bindR (vaddr_write cfg (op_src1 ops + op_imm ops) len (op_src2 ops) s) (\<lambda>t. Inr (d, t)))"

definition csr_valid :: "config \<Rightarrow> u16 \<Rightarrow> exec_state \<Rightarrow> bool \<times> exec_state" where
  "csr_valid cfg csr = (\<lambda>(d, s).
     case check_csr_exist csr of
       CSR_EXIST \<Rightarrow> (True, (d, s))
     | CSR_EXIST_DIFF_SKIP \<Rightarrow> (True, (d, difftest_skip_ref cfg s))
     | CSR_NOT_EXIST \<Rightarrow>
         (case isa_raise_intr MCA_ILLEGAL_INS (d_pc d) (cpu s) of
            (tvec, c) \<Rightarrow> (False, (d\<lparr>d_dnpc := tvec\<rparr>, difftest_skip_ref cfg (s\<lparr>cpu := c\<rparr>)))))"

text \<open>
  The six CSR instructions read the register into \<open>rd\<close> and, if \<open>wr\<close>, write \<open>upd\<close> of its
  value then; the second reading is the code's \<open>CSR(imm) | src1\<close>.
\<close>

definition csr_op ::
    "config \<Rightarrow> operands \<Rightarrow> bool \<Rightarrow> (word_t \<Rightarrow> word_t) \<Rightarrow> exec_state \<Rightarrow> exec_state result" where
  "csr_op cfg ops wr upd = (\<lambda>ds.
     case csr_valid cfg (ucast (op_imm ops)) ds of
       (False, ds) \<Rightarrow> Inr ds
     | (True, ds) \<Rightarrow>
         let i = check_csrs_idx (op_imm ops) in
         bindR (R_set cfg ops (sr (cpu (snd ds)) i) ds) (\<lambda>(d, s).
         Inr (d, if wr then s\<lparr>cpu := (cpu s)\<lparr>sr := (sr (cpu s))(i := upd (sr (cpu s) i))\<rparr>\<rparr> else s)))"

section \<open>inst.c: division and multiplication\<close>

text \<open>
  C's signed division truncates. It is undefined for a zero divisor and for the one
  quotient that does not fit, and so is a signed product outside 64 bits.
\<close>

definition c_div :: "word_t \<Rightarrow> word_t \<Rightarrow> word_t result" where
  "c_div a b =
     (if b = 0 then Inl (Undefined ''division by zero'')
      else if a = 0x80000000 \<and> b = - 1 then Inl (Undefined ''division overflow'')
      else Inr (word_of_int (sint a sdiv sint b)))"

definition c_rem :: "word_t \<Rightarrow> word_t \<Rightarrow> word_t result" where
  "c_rem a b =
     (if b = 0 then Inl (Undefined ''division by zero'')
      else if a = 0x80000000 \<and> b = - 1 then Inl (Undefined ''division overflow'')
      else Inr (word_of_int (sint a smod sint b)))"

definition c_mod :: "word_t \<Rightarrow> word_t \<Rightarrow> word_t result" where
  "c_mod a b = (if b = 0 then Inl (Undefined ''division by zero'') else Inr (a mod b))"

definition c_mul64_high :: "int \<Rightarrow> int \<Rightarrow> word_t result" where
  "c_mul64_high x y =
     (if - (2 ^ 63) \<le> x * y \<and> x * y < 2 ^ 63 then Inr (word_of_int (x * y div 2 ^ 32))
      else Inl (Undefined ''signed 64-bit overflow''))"

section \<open>inst.c: the execute bodies\<close>

definition exec_inst :: "config \<Rightarrow> inst_name \<Rightarrow> operands \<Rightarrow> exec_state \<Rightarrow> exec_state result" where
  "exec_inst cfg n ops ds =
     (let rd = op_rd ops; rs1 = op_rs1 ops; src1 = op_src1 ops; src2 = op_src2 ops; imm = op_imm ops;
          d = fst ds; s = snd ds;
          R = (\<lambda>v. R_set cfg ops v ds);
          shamt_i = unat (BITS (ucast imm) 4 0); shamt_r = unat (BITS (ucast src2) 4 0)
      in case n of
        I_lui \<Rightarrow> R imm
      | I_auipc \<Rightarrow> R (d_pc d + imm)
      | I_jal \<Rightarrow>
          let d = d\<lparr>d_dnpc := d_pc d + imm\<rparr> in
          bindR (if CONFIG_ITRACE cfg \<and> rd = 1 then trace_call cfg (d_pc d) (d_dnpc d) False s
                 else Inr s) (\<lambda>s.
          R_set cfg ops (d_snpc d) (d, s))
      | I_jalr \<Rightarrow>
          let d = d\<lparr>d_dnpc := (src1 + imm) AND NOT 1\<rparr> in
          bindR (if \<not> CONFIG_ITRACE cfg then Inr s
                 else if d_inst d = 0x00008067 then Inr (trace_ret (d_pc d) s)
                 else if rd = 1 then trace_call cfg (d_pc d) (d_dnpc d) False s
                 else if rd = 0 \<and> imm = 0 then trace_call cfg (d_pc d) (d_dnpc d) True s
                 else Inr s) (\<lambda>s.
          R_set cfg ops (d_snpc d) (d, s))
      | I_beq \<Rightarrow> branch ops (src1 = src2) ds
      | I_bne \<Rightarrow> branch ops (src1 \<noteq> src2) ds
      | I_blt \<Rightarrow> branch ops (src1 <s src2) ds
      | I_bge \<Rightarrow> branch ops (src2 \<le>s src1) ds
      | I_bltu \<Rightarrow> branch ops (src1 < src2) ds
      | I_bgeu \<Rightarrow> branch ops (src2 \<le> src1) ds
      | I_lb \<Rightarrow> load_ext cfg ops 1 (\<lambda>v. scast (ucast v :: u8)) ds
      | I_lh \<Rightarrow> load_ext cfg ops 2 (\<lambda>v. scast (ucast v :: u16)) ds
      | I_lw \<Rightarrow> load_ext cfg ops 4 (\<lambda>v. v) ds
      | I_lbu \<Rightarrow> load_ext cfg ops 1 (\<lambda>v. v) ds
      | I_lhu \<Rightarrow> load_ext cfg ops 2 (\<lambda>v. v) ds
      | I_sb \<Rightarrow> store_src2 cfg ops 1 ds
      | I_sh \<Rightarrow> store_src2 cfg ops 2 ds
      | I_sw \<Rightarrow> store_src2 cfg ops 4 ds
      | I_addi \<Rightarrow> R (src1 + imm)
      | I_slti \<Rightarrow> R (if src1 <s imm then 1 else 0)
      | I_sltiu \<Rightarrow> R (if src1 < imm then 1 else 0)
      | I_xori \<Rightarrow> R (src1 XOR imm)
      | I_ori \<Rightarrow> R (src1 OR imm)
      | I_andi \<Rightarrow> R (src1 AND imm)
      | I_slli \<Rightarrow> R (push_bit shamt_i src1)
      | I_srli \<Rightarrow> R (drop_bit shamt_i src1)
      | I_srai \<Rightarrow> R (signed_drop_bit shamt_i src1)
      | I_add \<Rightarrow> R (src1 + src2)
      | I_sub \<Rightarrow> R (src1 - src2)
      | I_sll \<Rightarrow> R (push_bit shamt_r src1)
      | I_slt \<Rightarrow> R (if src1 <s src2 then 1 else 0)
      | I_sltu \<Rightarrow> R (if src1 < src2 then 1 else 0)
      | I_xor \<Rightarrow> R (src1 XOR src2)
      | I_srl \<Rightarrow> R (drop_bit shamt_r src1)
      | I_sra \<Rightarrow> R (signed_drop_bit shamt_r src1)
      | I_or \<Rightarrow> R (src1 OR src2)
      | I_and \<Rightarrow> R (src1 AND src2)
      | I_rem \<Rightarrow> bindR (c_rem src1 src2) R
      | I_remu \<Rightarrow> bindR (c_mod src1 src2) R
      | I_mul \<Rightarrow> R (src1 * src2)
      | I_div \<Rightarrow> bindR (if src2 = 0 then Inr (- 1) else c_div src1 src2) R
      | I_divu \<Rightarrow> R (if src2 = 0 then - 1 else src1 div src2)
      | I_mulh \<Rightarrow> bindR (c_mul64_high (sint src1) (sint src2)) R
      | I_mulhsu \<Rightarrow> bindR (c_mul64_high (sint src1) (uint src2)) R
      | I_mulhu \<Rightarrow> bindR (c_mul64_high (uint src1) (uint src2)) R
      | I_ecall \<Rightarrow>
          (case isa_raise_intr MCA_ENV_CAL_MMO (d_pc d) (cpu s) of
             (tvec, c) \<Rightarrow> Inr (d\<lparr>d_dnpc := tvec\<rparr>, s\<lparr>cpu := c\<rparr>))
      | I_ebreak \<Rightarrow>
          bindR (read_gpr cfg 10 (cpu s)) (\<lambda>a0. Inr (d, set_nemu_state cfg NEMU_END (d_pc d) a0 s))
      | I_mret \<Rightarrow>
          let c = cpu s; mstatus = sr c CSR_MSTATUS; mpie = drop_bit 7 mstatus AND 1;
              mstatus = (mstatus AND NOT (push_bit 3 1)) OR push_bit 3 mpie;
              mstatus = mstatus OR push_bit 7 1
          in Inr (d\<lparr>d_dnpc := sr c CSR_MEPC\<rparr>,
                  s\<lparr>cpu := c\<lparr>sr := (sr c)(CSR_MSTATUS := mstatus)\<rparr>\<rparr>)
      | I_csrrw \<Rightarrow> csr_op cfg ops True (\<lambda>v. src1) ds
      | I_csrrs \<Rightarrow> csr_op cfg ops (rs1 \<noteq> 0) (\<lambda>v. v OR src1) ds
      | I_csrrc \<Rightarrow> csr_op cfg ops (rs1 \<noteq> 0) (\<lambda>v. v AND NOT src1) ds
      | I_csrrwi \<Rightarrow> csr_op cfg ops True (\<lambda>v. src1) ds
      | I_csrrsi \<Rightarrow> csr_op cfg ops (rs1 \<noteq> 0) (\<lambda>v. v OR src1) ds
      | I_csrrci \<Rightarrow> csr_op cfg ops (rs1 \<noteq> 0) (\<lambda>v. v AND NOT src1) ds
      | I_inv \<Rightarrow> bindR (invalid_inst cfg (d_pc d) s) (\<lambda>s. Inr (d, s)))"

definition zero_x0 :: "system \<Rightarrow> system" where
  "zero_x0 s = s\<lparr>cpu := (cpu s)\<lparr>gpr := (gpr (cpu s))(0 := 0)\<rparr>\<rparr>"

definition decode_exec :: "config \<Rightarrow> exec_state \<Rightarrow> exec_state result" where
  "decode_exec cfg = (\<lambda>(d, s).
     let d = d\<lparr>d_dnpc := d_snpc d\<rparr> in
     bindR (instpat_lookup instpat_table (d_inst d)) (\<lambda>m.
     bindR (case m of
              None \<Rightarrow> Inr (d, s)
            | Some (t, n) \<Rightarrow>
                bindR (decode_operand cfg (d_inst d) t (cpu s)) (\<lambda>ops. exec_inst cfg n ops (d, s)))
       (\<lambda>(d, s). Inr (d, zero_x0 s))))"

text \<open>
  In an NPC build the instruction is executed by the Verilog model; the interpreter's
  branch is the one modelled.
\<close>

definition isa_exec_once :: "config \<Rightarrow> exec_state \<Rightarrow> exec_state result" where
  "isa_exec_once cfg = (\<lambda>(d, s).
     bindR (inst_fetch cfg (d_snpc d) 4 s) (\<lambda>(inst, snpc, s).
     decode_exec cfg (d\<lparr>d_inst := inst, d_snpc := snpc\<rparr>, s)))"

section \<open>isa\_init.c\<close>

definition img :: "u32 list" where
  "img = [0x00000297, 0x00028823, 0x0102c503, 0x00100073, 0xdeadbeef]"

fun copy_words :: "config \<Rightarrow> hptr \<Rightarrow> u32 list \<Rightarrow> harrays \<Rightarrow> harrays result" where
  "copy_words cfg p [] m = Inr m"
| "copy_words cfg p (w # ws) m =
     bindR (host_store cfg p 4 w m) (copy_words cfg (fst p, snd p + 4) ws)"

definition restart :: "config \<Rightarrow> system \<Rightarrow> system" where
  "restart cfg s = s\<lparr>cpu := (cpu s)\<lparr>pc := RESET_VECTOR cfg, gpr := (gpr (cpu s))(0 := 0)\<rparr>\<rparr>"

definition init_isa :: "config \<Rightarrow> system \<Rightarrow> system result" where
  "init_isa cfg s =
     bindR (guest_to_host cfg (RESET_VECTOR cfg)) (\<lambda>p.
     bindR (copy_words cfg p img (harr s)) (\<lambda>h.
     Inr (restart cfg (s\<lparr>harr := h\<rparr>))))"

end
