(* ===== verification/Riscv_Properties.thy ===== *)
theory Riscv_Properties
  imports Riscv_Exec Decode_Properties
begin

text \<open>
  What the interpreter does, instruction by instruction and for short instruction
  sequences: frames, arithmetic of the M extension against the manual, constants, memory
  round trips, branches, calls and returns, traps and CSR accesses.
\<close>

section \<open>Encoding\<close>

text \<open>An instruction word from its fields.\<close>

definition enc :: "u32 \<Rightarrow> u32 \<Rightarrow> u32 \<Rightarrow> u32 \<Rightarrow> u32 \<Rightarrow> u32 \<Rightarrow> u32" where
  "enc f7 rs2 rs1 f3 rd opc =
     push_bit 25 f7 OR push_bit 20 rs2 OR push_bit 15 rs1 OR push_bit 12 f3 OR push_bit 7 rd OR opc"

lemma take_bit_mask_u32: "(x :: u32) AND mask n = take_bit n x"
  by (simp add: take_bit_eq_mask)

lemma bit_small: "take_bit n (x :: u32) = x \<Longrightarrow> bit x k \<Longrightarrow> k < n"
  by (metis bit_take_bit_iff)

definition fields_ok :: "u32 \<Rightarrow> u32 \<Rightarrow> u32 \<Rightarrow> u32 \<Rightarrow> u32 \<Rightarrow> u32 \<Rightarrow> bool" where
  "fields_ok f7 rs2 rs1 f3 rd opc \<longleftrightarrow>
     take_bit 7 f7 = f7 \<and> take_bit 5 rs2 = rs2 \<and> take_bit 5 rs1 = rs1 \<and> take_bit 3 f3 = f3 \<and>
     take_bit 5 rd = rd \<and> take_bit 7 opc = opc"

lemma bit_enc:
  assumes "fields_ok f7 rs2 rs1 f3 rd opc" and "n < 32"
  shows "bit (enc f7 rs2 rs1 f3 rd opc) n \<longleftrightarrow>
    (if n < 7 then bit opc n else if n < 12 then bit rd (n - 7) else if n < 15 then bit f3 (n - 12)
     else if n < 20 then bit rs1 (n - 15) else if n < 25 then bit rs2 (n - 20) else bit f7 (n - 25))"
proof -
  from assms(1) have b: "bit opc k \<Longrightarrow> k < 7" "bit rd k \<Longrightarrow> k < 5" "bit f3 k \<Longrightarrow> k < 3"
    "bit rs1 k \<Longrightarrow> k < 5" "bit rs2 k \<Longrightarrow> k < 5" for k
    by (auto simp: fields_ok_def dest: bit_small)
  show ?thesis
    using assms(2) b(1) [of n] b(2) [of "n - 7"] b(3) [of "n - 12"] b(4) [of "n - 15"] b(5) [of "n - 20"]
    by (auto simp: enc_def bit_or_iff bit_push_bit_iff)
qed

lemma enc_fields:
  assumes "fields_ok f7 rs2 rs1 f3 rd opc"
  shows "rv_op (enc f7 rs2 rs1 f3 rd opc) = opc"
    and "rv_f3 (enc f7 rs2 rs1 f3 rd opc) = f3"
    and "rv_f7 (enc f7 rs2 rs1 f3 rd opc) = f7"
    and "BITS (ucast (enc f7 rs2 rs1 f3 rd opc)) 11 7 = ucast rd"
    and "BITS (ucast (enc f7 rs2 rs1 f3 rd opc)) 19 15 = ucast rs1"
    and "BITS (ucast (enc f7 rs2 rs1 f3 rd opc)) 24 20 = ucast rs2"
proof -
  note b = bit_enc [OF assms]
  from assms have s: "bit opc k \<Longrightarrow> k < 7" "bit rd k \<Longrightarrow> k < 5" "bit f3 k \<Longrightarrow> k < 3"
    "bit rs1 k \<Longrightarrow> k < 5" "bit rs2 k \<Longrightarrow> k < 5" "bit f7 k \<Longrightarrow> k < 7" for k
    by (auto simp: fields_ok_def dest: bit_small)
  show "rv_op (enc f7 rs2 rs1 f3 rd opc) = opc"
    unfolding rv_op_def mask_fields
    by (rule bit_word_eqI) (auto simp: bit_and_iff bit_mask_iff b dest: s)
  show "rv_f3 (enc f7 rs2 rs1 f3 rd opc) = f3"
    unfolding rv_f3_def mask_fields
  proof (rule bit_word_eqI)
    fix n
    show "bit (drop_bit 12 (enc f7 rs2 rs1 f3 rd opc) AND mask 3) n = bit f3 n"
      using s(3) [of n] by (cases "n < 3") (auto simp: bit_and_iff bit_mask_iff bit_drop_bit_eq b)
  qed
  show "rv_f7 (enc f7 rs2 rs1 f3 rd opc) = f7"
    unfolding rv_f7_def mask_fields
  proof (rule bit_word_eqI)
    fix n
    show "bit (drop_bit 25 (enc f7 rs2 rs1 f3 rd opc) AND mask 7) n = bit f7 n"
      using s(6) [of n] by (cases "n < 7") (auto simp: bit_and_iff bit_mask_iff bit_drop_bit_eq b)
  qed
  show "BITS (ucast (enc f7 rs2 rs1 f3 rd opc)) 11 7 = ucast rd"
  proof (rule bit_word_eqI)
    fix n
    show "bit (BITS (ucast (enc f7 rs2 rs1 f3 rd opc)) 11 7) n = bit (ucast rd :: u64) n"
      using s(2) [of n] by (cases "n < 5") (auto simp: bit_BITS bit_ucast_iff b)
  qed
  show "BITS (ucast (enc f7 rs2 rs1 f3 rd opc)) 19 15 = ucast rs1"
  proof (rule bit_word_eqI)
    fix n
    show "bit (BITS (ucast (enc f7 rs2 rs1 f3 rd opc)) 19 15) n = bit (ucast rs1 :: u64) n"
      using s(4) [of n] by (cases "n < 5") (auto simp: bit_BITS bit_ucast_iff b)
  qed
  show "BITS (ucast (enc f7 rs2 rs1 f3 rd opc)) 24 20 = ucast rs2"
  proof (rule bit_word_eqI)
    fix n
    show "bit (BITS (ucast (enc f7 rs2 rs1 f3 rd opc)) 24 20) n = bit (ucast rs2 :: u64) n"
      using s(5) [of n] by (cases "n < 5") (auto simp: bit_BITS bit_ucast_iff b)
  qed
qed

section \<open>One instruction\<close>

lemma table_decodes:
  "instpat_lookup instpat_table inst = Inr (Some (rv32_format (rv32_decode inst), rv32_decode inst))"
  by (simp add: lookup_by_masks [OF table_masks] lookup_fields)

lemma decode_exec_eq:
  "decode_exec cfg (d, s) =
     bindR (decode_operand cfg (d_inst d) (rv32_format (rv32_decode (d_inst d))) (cpu s)) (\<lambda>ops.
     bindR (exec_inst cfg (rv32_decode (d_inst d)) ops (d\<lparr>d_dnpc := d_snpc d\<rparr>, s)) (\<lambda>(d, s).
     Inr (d, zero_x0 s)))"
  by (simp add: decode_exec_def table_decodes bindR_assoc Let_def)

definition reg_ok :: "config \<Rightarrow> u32 \<Rightarrow> bool" where
  "reg_ok cfg r \<longleftrightarrow> unat r < reg_num cfg"

lemma read_gpr_ok: "i < reg_num cfg \<Longrightarrow> read_gpr cfg i c = Inr (gpr c i)"
  by (simp add: read_gpr_def check_reg_idx_def)

lemma write_gpr_ok: "i < reg_num cfg \<Longrightarrow> write_gpr cfg i v c = Inr (c\<lparr>gpr := (gpr c)(i := v)\<rparr>)"
  by (simp add: write_gpr_def check_reg_idx_def)

lemma unat_ucast_u64 [simp]: "unat (ucast (x :: u32) :: u64) = unat x"
proof -
  have "unat x < 2 ^ LENGTH(32)" by (rule unsigned_less)
  then show ?thesis by (simp add: unsigned_ucast_eq take_bit_nat_eq_self)
qed

text \<open>The register file after writing \<open>v\<close> to \<open>rd\<close> and resetting \<open>x0\<close>.\<close>

definition set_reg :: "nat \<Rightarrow> word_t \<Rightarrow> system \<Rightarrow> system" where
  "set_reg rd v s = zero_x0 (s\<lparr>cpu := (cpu s)\<lparr>gpr := (gpr (cpu s))(rd := v)\<rparr>\<rparr>)"

lemma set_reg_gpr [simp]: "gpr (cpu (set_reg rd v s)) i = (if i = 0 then 0 else if i = rd then v else gpr (cpu s) i)"
  by (simp add: set_reg_def zero_x0_def)

lemma R_set_ok: "op_rd ops < reg_num cfg \<Longrightarrow>
   R_set cfg ops v (d, s) = Inr (d, s\<lparr>cpu := (cpu s)\<lparr>gpr := (gpr (cpu s))(op_rd ops := v)\<rparr>\<rparr>)"
  by (simp add: R_set_def write_gpr_ok)

lemma operands_R:
  assumes "fields_ok f7 rs2 rs1 f3 rd opc" and "reg_ok cfg rs1" and "reg_ok cfg rs2"
  shows "decode_operand cfg (enc f7 rs2 rs1 f3 rd opc) TYPE_R c = Inr
    \<lparr>op_rd = unat rd, op_rs1 = unat rs1, op_src1 = gpr c (unat rs1), op_src2 = gpr c (unat rs2), op_imm = 0\<rparr>"
  using assms(2,3) by (simp add: decode_operand_def Let_def enc_fields [OF assms(1)] read_gpr_ok reg_ok_def)

section \<open>The M extension\<close>

text \<open>The results the manual gives, by \<open>funct3\<close>.\<close>

definition m_spec :: "u32 \<Rightarrow> word_t \<Rightarrow> word_t \<Rightarrow> word_t" where
  "m_spec f3 a b =
     (if f3 = 0 then a * b
      else if f3 = 1 then word_of_int (sint a * sint b div 2 ^ 32)
      else if f3 = 2 then word_of_int (sint a * uint b div 2 ^ 32)
      else if f3 = 3 then word_of_int (uint a * uint b div 2 ^ 32)
      else if f3 = 4 then
        (if b = 0 then - 1 else if a = 0x80000000 \<and> b = - 1 then a else word_of_int (sint a sdiv sint b))
      else if f3 = 5 then (if b = 0 then - 1 else a div b)
      else if f3 = 6 then
        (if b = 0 then a else if a = 0x80000000 \<and> b = - 1 then 0 else word_of_int (sint a smod sint b))
      else (if b = 0 then a else a mod b))"

text \<open>Where the C expression of the execute body is undefined.\<close>

definition m_undefined :: "u32 \<Rightarrow> word_t \<Rightarrow> word_t \<Rightarrow> bool" where
  "m_undefined f3 a b \<longleftrightarrow>
     f3 \<in> {4, 6} \<and> a = 0x80000000 \<and> b = - 1 \<or> f3 \<in> {6, 7} \<and> b = 0 \<or>
     f3 = 3 \<and> 2 ^ 63 \<le> uint a * uint b"

definition m_inst :: "u32 \<Rightarrow> inst_name" where
  "m_inst f3 = pick [(0, I_mul), (1, I_mulh), (2, I_mulhsu), (3, I_mulhu), (4, I_div),
     (5, I_divu), (6, I_rem), (7, I_remu)] f3"

lemma m_decode:
  "fields_ok 1 rs2 rs1 f3 rd 0x33 \<Longrightarrow> rv32_decode (enc 1 rs2 rs1 f3 rd 0x33) = m_inst f3"
  by (simp add: rv32_decode_def enc_fields Let_def pick_Cons m_inst_def)

lemma u32_less_8: "take_bit 3 (f3 :: u32) = f3 \<Longrightarrow> f3 \<in> {0, 1, 2, 3, 4, 5, 6, 7}"
proof -
  assume "take_bit 3 f3 = f3"
  then have "unat f3 = take_bit 3 (unat f3)" by (metis unsigned_take_bit_eq)
  also have "\<dots> < 2 ^ 3" by (rule take_bit_nat_less_exp)
  finally have "unat f3 < 8" by simp
  then have "unat f3 \<in> {0, 1, 2, 3, 4, 5, 6, 7}" by simp presburger
  then show ?thesis by (auto simp: word_unat_eq_iff)
qed

lemma sint_bounds: "- (2 ^ 31) \<le> sint (a :: u32)" "sint (a :: u32) < 2 ^ 31"
  using sint_ge [of a] sint_lt [of a] by simp_all

lemma uint_bounds: "0 \<le> uint (a :: u32)" "uint (a :: u32) < 2 ^ 32"
  using uint_lt2p [of a] by simp_all

lemma mul64_high_ok:
  "c_mul64_high (sint a) (sint b) = Inr (word_of_int (sint (a::u32) * sint (b::u32) div 2 ^ 32))"
  "c_mul64_high (sint a) (uint b) = Inr (word_of_int (sint (a::u32) * uint (b::u32) div 2 ^ 32))"
proof -
  have a: "\<bar>sint a\<bar> \<le> 2 ^ 31" using sint_bounds [of a] by (simp add: abs_le_iff)
  have b: "\<bar>sint b\<bar> \<le> 2 ^ 31" using sint_bounds [of b] by (simp add: abs_le_iff)
  have c: "\<bar>uint b\<bar> \<le> 2 ^ 32 - 1" using uint_bounds [of b] by simp
  have 1: "\<bar>sint a * sint b\<bar> \<le> 2 ^ 31 * 2 ^ 31"
    unfolding abs_mult by (rule mult_mono) (use a b in auto)
  have 2: "\<bar>sint a * uint b\<bar> \<le> 2 ^ 31 * (2 ^ 32 - 1)"
    unfolding abs_mult by (rule mult_mono) (use a c in auto)
  show "c_mul64_high (sint a) (sint b) = Inr (word_of_int (sint a * sint b div 2 ^ 32))"
    using 1 by (simp add: c_mul64_high_def abs_le_iff)
  show "c_mul64_high (sint a) (uint b) = Inr (word_of_int (sint a * uint b div 2 ^ 32))"
    using 2 by (simp add: c_mul64_high_def abs_le_iff)
qed

lemma mul64_high_unsigned:
  "c_mul64_high (uint a) (uint b) =
     (if 2 ^ 63 \<le> uint (a::u32) * uint (b::u32) then Inl (Undefined ''signed 64-bit overflow'')
      else Inr (word_of_int (uint a * uint b div 2 ^ 32)))"
proof -
  have "0 \<le> uint a * uint b" by simp
  then have "- (2 ^ 63) \<le> uint a * uint b" by (rule order_trans [rotated]) simp
  then show ?thesis by (simp add: c_mul64_high_def)
qed

lemma m_extension_run:
  assumes ok: "fields_ok 1 rs2 rs1 f3 rd 0x33" and r: "reg_ok cfg rs1" "reg_ok cfg rs2" "reg_ok cfg rd"
    and i: "d_inst d = enc 1 rs2 rs1 f3 rd 0x33"
    and a: "a = gpr (cpu s) (unat rs1)" and b: "b = gpr (cpu s) (unat rs2)"
  shows "if m_undefined f3 a b then \<exists>e. decode_exec cfg (d, s) = Inl (Undefined e)
    else decode_exec cfg (d, s) = Inr (d\<lparr>d_dnpc := d_snpc d\<rparr>, set_reg (unat rd) (m_spec f3 a b) s)"
proof -
  have f3: "f3 \<in> {0, 1, 2, 3, 4, 5, 6, 7}"
    using ok by (intro u32_less_8) (simp add: fields_ok_def)
  have fmt: "rv32_format (m_inst f3) = TYPE_R"
    using f3 by (auto simp: m_inst_def pick_Cons rv32_format_def)
  have rd: "unat rd < reg_num cfg" using r by (simp add: reg_ok_def)
  let ?ops = "\<lparr>op_rd = unat rd, op_rs1 = unat rs1, op_src1 = a, op_src2 = b, op_imm = 0\<rparr>"
  have run: "decode_exec cfg (d, s) =
      bindR (exec_inst cfg (m_inst f3) ?ops (d\<lparr>d_dnpc := d_snpc d\<rparr>, s)) (\<lambda>(d, s). Inr (d, zero_x0 s))"
    by (simp add: decode_exec_eq i m_decode [OF ok] fmt operands_R [OF ok r(1,2)] a b)
  show ?thesis
    unfolding run using f3 rd
    by (elim insertE emptyE)
      (simp_all add: m_inst_def pick_Cons exec_inst_def Let_def m_undefined_def m_spec_def R_set_ok
        set_reg_def mul64_high_ok mul64_high_unsigned c_div_def c_rem_def c_mod_def)
qed

text \<open>C3: Each instruction of the M extension, on any two source registers, writes to \<open>rd\<close>
  exactly the result the RISC-V manual gives and falls through to the next instruction,
  except where the C expression is undefined: \<open>rem\<close> and \<open>remu\<close> by zero, \<open>div\<close> and \<open>rem\<close> of
  the least integer by \<open>-1\<close>, and \<open>mulhu\<close> with a product of \<open>2 ^ 63\<close> or more.\<close>

theorem m_extension:
  assumes "fields_ok 1 rs2 rs1 f3 rd 0x33" and "reg_ok cfg rs1" "reg_ok cfg rs2" "reg_ok cfg rd"
    and "d_inst d = enc 1 rs2 rs1 f3 rd 0x33"
    and "a = gpr (cpu s) (unat rs1)" and "b = gpr (cpu s) (unat rs2)"
  shows "if m_undefined f3 a b then \<exists>e. decode_exec cfg (d, s) = Inl (Undefined e)
    else decode_exec cfg (d, s) = Inr (d\<lparr>d_dnpc := d_snpc d\<rparr>, set_reg (unat rd) (m_spec f3 a b) s)"
  by (rule m_extension_run [OF assms])

section \<open>Straight-line sequences\<close>

text \<open>Execute the given words one after the other, each at the address the last one left.\<close>

fun run_seq :: "config \<Rightarrow> u32 list \<Rightarrow> vaddr_t \<Rightarrow> system \<Rightarrow> (vaddr_t \<times> system) result" where
  "run_seq cfg [] p s = Inr (p, s)"
| "run_seq cfg (i # is) p s =
     bindR (decode_exec cfg (\<lparr>d_pc = p, d_snpc = p + 4, d_dnpc = 0, d_inst = i\<rparr>, s)) (\<lambda>(d, t).
     run_seq cfg is (d_dnpc d) t)"

lemma mul_low: "uint ((a :: u32) * b) = (uint a * uint b) mod 2 ^ 32"
  by (simp add: uint_word_ariths)

lemma sint_mod: "sint (a :: u32) mod 2 ^ 32 = uint a"
proof -
  have "take_bit 32 (sint a) = uint a"
    by (rule bit_eqI) (auto simp: bit_take_bit_iff bit_sint_iff bit_uint_iff)
  then show ?thesis by (simp add: take_bit_eq_mod)
qed

lemma high_low:
  assumes "x mod 2 ^ 32 = uint (a :: u32)" and "y mod 2 ^ 32 = uint (b :: u32)"
  shows "x * y div 2 ^ 32 * 2 ^ 32 + uint (a * b) = x * y"
proof -
  have "uint (a * b) = x * y mod 2 ^ 32"
    unfolding mul_low assms [symmetric] by (rule mod_mult_eq)
  then show ?thesis by (simp add: div_mult_mod_eq)
qed

lemma sint_of_high:
  assumes "\<bar>x\<bar> \<le> 2 ^ 31" and "\<bar>y\<bar> \<le> 2 ^ 32 - 1"
  shows "sint (word_of_int (x * y div 2 ^ 32) :: u32) = x * y div 2 ^ 32"
proof -
  have "\<bar>x * y\<bar> \<le> 2 ^ 31 * (2 ^ 32 - 1)"
    unfolding abs_mult by (rule mult_mono) (use assms in auto)
  then have "- (2 ^ 31) * 2 ^ 32 \<le> x * y" "x * y < 2 ^ 31 * 2 ^ 32" by auto
  then have "- (2 ^ 31) \<le> x * y div 2 ^ 32" "x * y div 2 ^ 32 < 2 ^ 31"
    by (auto simp: div_less_iff_less_mult pos_le_divide_eq)
  then show ?thesis
    by (simp add: signed_of_int signed_take_bit_int_eq_self)
qed

lemma uint_of_high: "uint (word_of_int (uint (a :: u32) * uint (b :: u32) div 2 ^ 32) :: u32) = uint a * uint b div 2 ^ 32"
proof -
  have "uint a * uint b \<le> (2 ^ 32 - 1) * (2 ^ 32 - 1)"
    by (rule mult_mono) (use uint_bounds [of a] uint_bounds [of b] in auto)
  then have "uint a * uint b < 2 ^ 32 * 2 ^ 32" by simp
  then have "uint a * uint b div 2 ^ 32 < 2 ^ 32" by (simp add: div_less_iff_less_mult)
  then have "take_bit 32 (uint a * uint b div 2 ^ 32) = uint a * uint b div 2 ^ 32"
    by (intro take_bit_int_eq_self) (simp_all add: pos_imp_zdiv_nonneg_iff)
  then show ?thesis by (simp add: unsigned_of_int)
qed

lemma m_spec_products:
  "sint (m_spec 1 a b) * 2 ^ 32 + uint (m_spec 0 a b) = sint a * sint b"
  "sint (m_spec 2 a b) * 2 ^ 32 + uint (m_spec 0 a b) = sint a * uint b"
  "uint (m_spec 3 a b) * 2 ^ 32 + uint (m_spec 0 a b) = uint a * uint b"
proof -
  have a: "\<bar>sint a\<bar> \<le> 2 ^ 31" "\<bar>uint b\<bar> \<le> 2 ^ 32 - 1" "\<bar>sint b\<bar> \<le> 2 ^ 32 - 1"
    using sint_bounds [of a] uint_bounds [of b] sint_bounds [of b] by (simp_all add: abs_le_iff)
  show "sint (m_spec 1 a b) * 2 ^ 32 + uint (m_spec 0 a b) = sint a * sint b"
    using sint_of_high [OF a(1,3)] high_low [OF sint_mod sint_mod, of a b] by (simp add: m_spec_def)
  show "sint (m_spec 2 a b) * 2 ^ 32 + uint (m_spec 0 a b) = sint a * uint b"
    using sint_of_high [OF a(1,2)] high_low [OF sint_mod, of "uint b" b a] uint_bounds [of b]
    by (simp add: m_spec_def)
  show "uint (m_spec 3 a b) * 2 ^ 32 + uint (m_spec 0 a b) = uint a * uint b"
    using uint_of_high [of a b] high_low [of "uint a" a "uint b" b] uint_bounds [of a] uint_bounds [of b]
    by (simp add: m_spec_def)
qed

lemma m_spec_division:
  assumes "b \<noteq> 0"
  shows "m_spec 4 a b * b + m_spec 6 a b = a" and "m_spec 5 a b * b + m_spec 7 a b = a"
proof -
  have "word_of_int (sint a sdiv sint b) * b + word_of_int (sint a smod sint b) =
      (word_of_int (sint a sdiv sint b * sint b + sint a smod sint b) :: u32)" by simp
  also have "\<dots> = a"
    by (simp only: sdiv_mult_smod_eq) simp
  finally show "m_spec 4 a b * b + m_spec 6 a b = a"
    using assms by (auto simp: m_spec_def)
  show "m_spec 5 a b * b + m_spec 7 a b = a"
    using assms word_mod_div_equality [of a b] by (simp add: m_spec_def)
qed

definition r_inst :: "u32 \<Rightarrow> u32 \<Rightarrow> u32 \<Rightarrow> u32 \<Rightarrow> u32 \<Rightarrow> u32" where
  "r_inst f7 f3 rd rs1 rs2 = enc f7 rs2 rs1 f3 rd 0x33"

definition regs_ok :: "config \<Rightarrow> u32 list \<Rightarrow> bool" where
  "regs_ok cfg rs \<longleftrightarrow> (\<forall>r \<in> set rs. reg_ok cfg r \<and> r \<noteq> 0)"

lemma reg_ok_bits: "reg_ok cfg r \<Longrightarrow> take_bit 5 r = r"
proof -
  assume "reg_ok cfg r"
  then have "unat r < 2 ^ 5" by (auto simp: reg_ok_def reg_num_def split: if_splits)
  then have "unat (take_bit 5 r) = unat r"
    by (simp add: unsigned_take_bit_eq take_bit_nat_eq_self)
  then show ?thesis by (simp add: word_unat_eq_iff)
qed

lemma fields_ok_m: "reg_ok cfg rd \<Longrightarrow> reg_ok cfg rs1 \<Longrightarrow> reg_ok cfg rs2 \<Longrightarrow> f3 \<in> {0, 1, 2, 3, 4, 5, 6, 7} \<Longrightarrow>
   fields_ok 1 rs2 rs1 f3 rd 0x33"
  by (auto simp: fields_ok_def reg_ok_bits)

lemma run_m:
  assumes r: "reg_ok cfg rd" "reg_ok cfg rs1" "reg_ok cfg rs2" and f3: "f3 \<in> {0, 1, 2, 3, 4, 5, 6, 7}"
    and def: "\<not> m_undefined f3 (gpr (cpu s) (unat rs1)) (gpr (cpu s) (unat rs2))"
  shows "run_seq cfg (r_inst 1 f3 rd rs1 rs2 # is) p s =
    run_seq cfg is (p + 4) (set_reg (unat rd)
      (m_spec f3 (gpr (cpu s) (unat rs1)) (gpr (cpu s) (unat rs2))) s)"
  using m_extension_run [OF fields_ok_m [OF r f3] r(2,3,1), where s = s and
      d = "\<lparr>d_pc = p, d_snpc = p + 4, d_dnpc = 0, d_inst = enc 1 rs2 rs1 f3 rd 0x33\<rparr>"] def
  by (simp add: r_inst_def)

lemma run_two_m:
  assumes "regs_ok cfg [x, y]" "reg_ok cfg rs1" "reg_ok cfg rs2"
    and "x \<noteq> rs1" "x \<noteq> rs2" and "gpr (cpu s) 0 = 0"
    and a: "a = gpr (cpu s) (unat rs1)" and b: "b = gpr (cpu s) (unat rs2)"
    and f: "f \<in> {0, 1, 2, 3, 4, 5, 6, 7}" "g \<in> {0, 1, 2, 3, 4, 5, 6, 7}"
    and "\<not> m_undefined f a b" "\<not> m_undefined g a b"
  shows "run_seq cfg [r_inst 1 f x rs1 rs2, r_inst 1 g y rs1 rs2] p s =
    Inr (p + 8, set_reg (unat y) (m_spec g a b) (set_reg (unat x) (m_spec f a b) s))"
proof -
  have regs: "reg_ok cfg x" "reg_ok cfg y" "unat rs1 \<noteq> unat x" "unat rs2 \<noteq> unat x"
    using assms(1-5) by (auto simp: regs_ok_def word_unat_eq_iff)
  let ?s = "set_reg (unat x) (m_spec f a b) s"
  have ab: "gpr (cpu ?s) (unat rs1) = a" "gpr (cpu ?s) (unat rs2) = b"
    using regs assms(6) a b by auto
  have "run_seq cfg [r_inst 1 f x rs1 rs2, r_inst 1 g y rs1 rs2] p s =
      run_seq cfg [r_inst 1 g y rs1 rs2] (p + 4) ?s"
    unfolding a b by (rule run_m) (use regs assms in auto)
  also have "\<dots> = run_seq cfg [] (p + 4 + 4) (set_reg (unat y) (m_spec g a b) ?s)"
    using run_m [OF regs(2) assms(2,3) f(2), of ?s "[]" "p + 4"] assms(12) unfolding ab by simp
  finally show ?thesis by simp
qed

lemma two_targets:
  "regs_ok cfg [x, y] \<Longrightarrow> x \<noteq> y \<Longrightarrow> gpr (cpu (set_reg (unat y) v (set_reg (unat x) u s))) (unat y) = v \<and>
     gpr (cpu (set_reg (unat y) v (set_reg (unat x) u s))) (unat x) = u"
  by (auto simp: regs_ok_def word_unat_eq_iff)

text \<open>The pairs \<open>mul\<close>/\<open>mulh\<close> and \<open>mul\<close>/\<open>mulhsu\<close> leave in two registers the low and
  high words of the exact 64-bit product, signed or mixed.\<close>

lemma mul_pair_is_product:
  assumes "regs_ok cfg [lo, hi]" "reg_ok cfg rs1" "reg_ok cfg rs2"
    and "lo \<noteq> hi" "lo \<noteq> rs1" "lo \<noteq> rs2" and "gpr (cpu s) 0 = 0"
    and "a = gpr (cpu s) (unat rs1)" "b = gpr (cpu s) (unat rs2)"
  shows "(\<exists>t. run_seq cfg [r_inst 1 0 lo rs1 rs2, r_inst 1 1 hi rs1 rs2] p s = Inr (p + 8, t) \<and>
      sint (gpr (cpu t) (unat hi)) * 2 ^ 32 + uint (gpr (cpu t) (unat lo)) = sint a * sint b) \<and>
    (\<exists>t. run_seq cfg [r_inst 1 0 lo rs1 rs2, r_inst 1 2 hi rs1 rs2] p s = Inr (p + 8, t) \<and>
      sint (gpr (cpu t) (unat hi)) * 2 ^ 32 + uint (gpr (cpu t) (unat lo)) = sint a * uint b)"
proof -
  note run = run_two_m [OF assms(1-3,5-9), where f = 0]
  show ?thesis
    using run [of 1] run [of 2] two_targets [OF assms(1,4)] m_spec_products [of a b]
    by (simp add: m_undefined_def)
qed

text \<open>After \<open>div\<close> and \<open>rem\<close> (or \<open>divu\<close> and \<open>remu\<close>) of the same operands with a
  non-zero divisor, quotient times divisor plus remainder is the dividend.\<close>

lemma div_rem_identity:
  assumes "regs_ok cfg [q, r]" "reg_ok cfg rs1" "reg_ok cfg rs2"
    and "q \<noteq> r" "q \<noteq> rs1" "q \<noteq> rs2" and "gpr (cpu s) 0 = 0"
    and "a = gpr (cpu s) (unat rs1)" "b = gpr (cpu s) (unat rs2)" and "b \<noteq> 0"
    and "(f, g) = (4, 6) \<and> \<not> (a = 0x80000000 \<and> b = - 1) \<or> (f, g) = (5, 7)"
  shows "\<exists>t. run_seq cfg [r_inst 1 f q rs1 rs2, r_inst 1 g r rs1 rs2] p s = Inr (p + 8, t) \<and>
    gpr (cpu t) (unat q) * b + gpr (cpu t) (unat r) = a"
proof -
  have "f \<in> {0, 1, 2, 3, 4, 5, 6, 7}" "g \<in> {0, 1, 2, 3, 4, 5, 6, 7}"
    "\<not> m_undefined f a b" "\<not> m_undefined g a b" "m_spec f a b * b + m_spec g a b = a"
    using assms(10,11) m_spec_division [OF assms(10), of a] by (auto simp: m_undefined_def)
  with run_two_m [OF assms(1-3,5-9), of f g] two_targets [OF assms(1,4)] show ?thesis by simp
qed

section \<open>Instructions with immediates\<close>

lemma BITS5_eqI:
  assumes "hi = lo + 4" and "\<And>n. n \<in> {0, 1, 2, 3, 4} \<Longrightarrow> bit x (lo + n) = bit y (lo + n)"
  shows "BITS (ucast (x :: u32)) hi lo = BITS (ucast (y :: u32)) hi lo"
proof (rule bit_word_eqI)
  fix n
  show "bit (BITS (ucast x) hi lo) n = bit (BITS (ucast y) hi lo) n"
  proof (cases "n < 5")
    case True
    then have "n \<in> {0, 1, 2, 3, 4}" by auto
    from assms(2) [OF this] True assms(1) show ?thesis by (simp add: bit_BITS bit_ucast_iff)
  qed (simp add: bit_BITS assms(1))
qed

lemma put_regs:
  "BITS (ucast (put_I off i)) 11 7 = BITS (ucast i) 11 7"
  "BITS (ucast (put_I off i)) 19 15 = BITS (ucast i) 19 15"
  "BITS (ucast (put_S off i)) 19 15 = BITS (ucast i) 19 15"
  "BITS (ucast (put_S off i)) 24 20 = BITS (ucast i) 24 20"
  "BITS (ucast (put_B off i)) 19 15 = BITS (ucast i) 19 15"
  "BITS (ucast (put_B off i)) 24 20 = BITS (ucast i) 24 20"
  "BITS (ucast (put_U off i)) 11 7 = BITS (ucast i) 11 7"
  "BITS (ucast (put_J off i)) 11 7 = BITS (ucast i) 11 7"
  by (rule BITS5_eqI, simp, elim insertE emptyE;
      simp only: put_I_def put_S_def put_B_def put_U_def put_J_def imm_bits; simp)+

definition i_inst :: "u32 \<Rightarrow> u32 \<Rightarrow> u32 \<Rightarrow> u32 \<Rightarrow> u32 \<Rightarrow> u32" where
  "i_inst opc f3 rd rs1 off = put_I off (enc 0 0 rs1 f3 rd opc)"

definition s_inst :: "u32 \<Rightarrow> u32 \<Rightarrow> u32 \<Rightarrow> u32 \<Rightarrow> u32" where
  "s_inst f3 rs1 rs2 off = put_S off (enc 0 rs2 rs1 f3 0 0x23)"

definition b_inst :: "u32 \<Rightarrow> u32 \<Rightarrow> u32 \<Rightarrow> u32 \<Rightarrow> u32" where
  "b_inst f3 rs1 rs2 off = put_B off (enc 0 rs2 rs1 f3 0 0x63)"

definition u_inst :: "u32 \<Rightarrow> u32 \<Rightarrow> u32 \<Rightarrow> u32" where
  "u_inst opc rd off = put_U off (enc 0 0 0 0 rd opc)"

definition j_inst :: "u32 \<Rightarrow> u32 \<Rightarrow> u32" where
  "j_inst rd off = put_J off (enc 0 0 0 0 rd 0x6f)"

lemma fields_simple:
  "reg_ok cfg rd \<Longrightarrow> reg_ok cfg rs1 \<Longrightarrow> take_bit 3 f3 = f3 \<Longrightarrow> take_bit 7 opc = opc \<Longrightarrow> fields_ok 0 0 rs1 f3 rd opc"
  "reg_ok cfg rs1 \<Longrightarrow> reg_ok cfg rs2 \<Longrightarrow> take_bit 3 f3 = f3 \<Longrightarrow> take_bit 7 opc = opc \<Longrightarrow> fields_ok 0 rs2 rs1 f3 0 opc"
  "reg_ok cfg rd \<Longrightarrow> take_bit 7 opc = opc \<Longrightarrow> fields_ok 0 0 0 0 rd opc"
  by (simp_all add: fields_ok_def reg_ok_bits)

lemma operand_simps:
  "reg_ok cfg rd \<Longrightarrow> reg_ok cfg rs1 \<Longrightarrow> take_bit 3 f3 = f3 \<Longrightarrow> take_bit 7 opc = opc \<Longrightarrow>
   decode_operand cfg (i_inst opc f3 rd rs1 off) TYPE_I c = Inr
     \<lparr>op_rd = unat rd, op_rs1 = unat rs1, op_src1 = gpr c (unat rs1), op_src2 = 0, op_imm = signed_take_bit 11 off\<rparr>"
  "reg_ok cfg rs1 \<Longrightarrow> reg_ok cfg rs2 \<Longrightarrow> take_bit 3 f3 = f3 \<Longrightarrow> \<exists>rd.
   decode_operand cfg (s_inst f3 rs1 rs2 off) TYPE_S c = Inr
     \<lparr>op_rd = rd, op_rs1 = unat rs1, op_src1 = gpr c (unat rs1), op_src2 = gpr c (unat rs2),
      op_imm = signed_take_bit 11 off\<rparr>"
  "reg_ok cfg rs1 \<Longrightarrow> reg_ok cfg rs2 \<Longrightarrow> take_bit 3 f3 = f3 \<Longrightarrow> \<exists>rd.
   decode_operand cfg (b_inst f3 rs1 rs2 off) TYPE_B c = Inr
     \<lparr>op_rd = rd, op_rs1 = unat rs1, op_src1 = gpr c (unat rs1), op_src2 = gpr c (unat rs2),
      op_imm = signed_take_bit 12 off AND NOT 1\<rparr>"
  "reg_ok cfg rd \<Longrightarrow> take_bit 7 opc = opc \<Longrightarrow> \<exists>rs1.
   decode_operand cfg (u_inst opc rd off) TYPE_U c = Inr
     \<lparr>op_rd = unat rd, op_rs1 = rs1, op_src1 = 0, op_src2 = 0, op_imm = off AND 0xfffff000\<rparr>"
  "reg_ok cfg rd \<Longrightarrow> \<exists>rs1.
   decode_operand cfg (j_inst rd off) TYPE_J c = Inr
     \<lparr>op_rd = unat rd, op_rs1 = rs1, op_src1 = 0, op_src2 = 0, op_imm = signed_take_bit 20 off AND NOT 1\<rparr>"
  by (simp_all add: decode_operand_def Let_def i_inst_def s_inst_def b_inst_def u_inst_def j_inst_def
      put_regs enc_fields fields_simple immI_put immS_put immB_put immU_put immJ_put read_gpr_ok
      reg_ok_def [symmetric])

lemma inst_op_f3:
  "reg_ok cfg rd \<Longrightarrow> reg_ok cfg rs1 \<Longrightarrow> take_bit 3 f3 = f3 \<Longrightarrow> take_bit 7 opc = opc \<Longrightarrow>
   rv_op (i_inst opc f3 rd rs1 off) = opc \<and> rv_f3 (i_inst opc f3 rd rs1 off) = f3"
  "reg_ok cfg rs1 \<Longrightarrow> reg_ok cfg rs2 \<Longrightarrow> take_bit 3 f3 = f3 \<Longrightarrow>
   rv_op (s_inst f3 rs1 rs2 off) = 0x23 \<and> rv_f3 (s_inst f3 rs1 rs2 off) = f3"
  "reg_ok cfg rs1 \<Longrightarrow> reg_ok cfg rs2 \<Longrightarrow> take_bit 3 f3 = f3 \<Longrightarrow>
   rv_op (b_inst f3 rs1 rs2 off) = 0x63 \<and> rv_f3 (b_inst f3 rs1 rs2 off) = f3"
  "reg_ok cfg rd \<Longrightarrow> take_bit 7 opc = opc \<Longrightarrow> rv_op (u_inst opc rd off) = opc"
  "reg_ok cfg rd \<Longrightarrow> rv_op (j_inst rd off) = 0x6f"
  by (simp_all add: i_inst_def s_inst_def b_inst_def u_inst_def j_inst_def put_fields enc_fields fields_simple)

lemmas decode_simps = rv32_decode_def pick_Cons pick_Nil Let_def inst_op_f3 rv32_format_def

section \<open>Loading a constant\<close>

lemma hi_lo: "(((c :: u32) + 0x800) AND 0xfffff000) + signed_take_bit 11 c = c"
proof -
  have m: "(0xfffff000 :: u32) = NOT (mask 12)" by (simp add: mask_eq_exp_minus_1)
  have hi: "x AND 0xfffff000 = x - take_bit 12 x" for x :: u32
  proof -
    have "(x AND 0xfffff000) + take_bit 12 x = x"
      unfolding m take_bit_eq_mask
      by (subst disjunctive_add_eq_or) (auto intro!: bit_word_eqI simp: bit_simps)
    then show ?thesis by (simp add: eq_diff_eq)
  qed
  have t: "take_bit 12 (take_bit 32 k + 2048) = take_bit 12 (k + 2048)" for k :: int
    using take_bit_add [of 12 "take_bit 32 k" 2048] take_bit_add [of 12 k 2048] by simp
  have "signed_take_bit 11 c = take_bit 12 (c + 0x800) - 0x800"
    by transfer (simp add: signed_take_bit_eq_take_bit_shift t)
  with hi show ?thesis by simp
qed

lemma run_cons:
  assumes "decode_operand cfg i (rv32_format (rv32_decode i)) (cpu s) = Inr ops"
    and "exec_inst cfg (rv32_decode i) ops (\<lparr>d_pc = p, d_snpc = p + 4, d_dnpc = p + 4, d_inst = i\<rparr>, s) =
      Inr (d, t)"
  shows "run_seq cfg (i # is) p s = run_seq cfg is (d_dnpc d) (zero_x0 t)"
  using assms by (simp add: decode_exec_eq)

lemma run_R:
  assumes "decode_operand cfg i (rv32_format (rv32_decode i)) (cpu s) = Inr ops"
    and "op_rd ops < reg_num cfg"
    and "exec_inst cfg (rv32_decode i) ops (\<lparr>d_pc = p, d_snpc = p + 4, d_dnpc = p + 4, d_inst = i\<rparr>, s) =
      R_set cfg ops v (\<lparr>d_pc = p, d_snpc = p + 4, d_dnpc = p + 4, d_inst = i\<rparr>, s)"
  shows "run_seq cfg (i # is) p s = run_seq cfg is (p + 4) (set_reg (op_rd ops) v s)"
  using assms by (simp add: decode_exec_eq R_set_ok set_reg_def)

text \<open>\<open>lui\<close> and \<open>addi\<close> with the two halves an assembler computes (the upper half of
  \<open>c + 0x800\<close> and the low twelve bits) load any 32-bit constant \<open>c\<close>.\<close>

lemma lui_addi_loads_constant:
  assumes "regs_ok cfg [rd]"
  shows "\<exists>t. run_seq cfg [u_inst 0x37 rd (c + 0x800), i_inst 0x13 0 rd rd c] p s = Inr (p + 8, t) \<and>
    gpr (cpu t) (unat rd) = c"
proof -
  have rd: "reg_ok cfg rd" "unat rd < reg_num cfg" "unat rd \<noteq> 0"
    using assms by (auto simp: regs_ok_def reg_ok_def word_unat_eq_iff)
  have d1: "rv32_decode (u_inst 0x37 rd (c + 0x800)) = I_lui" "rv32_decode (i_inst 0x13 0 rd rd c) = I_addi"
    using rd by (simp_all add: decode_simps)
  let ?i1 = "u_inst 0x37 rd (c + 0x800)" and ?i2 = "i_inst 0x13 0 rd rd c"
  let ?v = "(c + 0x800) AND 0xfffff000" and ?s = "set_reg (unat rd) ((c + 0x800) AND 0xfffff000) s"
  obtain r where "decode_operand cfg ?i1 TYPE_U (cpu s) = Inr
     \<lparr>op_rd = unat rd, op_rs1 = r, op_src1 = 0, op_src2 = 0, op_imm = ?v\<rparr>"
    using operand_simps(4) [OF rd(1)] by fastforce
  then have o1: "decode_operand cfg ?i1 (rv32_format (rv32_decode ?i1)) (cpu s) = Inr
     \<lparr>op_rd = unat rd, op_rs1 = r, op_src1 = 0, op_src2 = 0, op_imm = ?v\<rparr>"
    by (simp add: d1 rv32_format_def)
  have o2: "decode_operand cfg ?i2 (rv32_format (rv32_decode ?i2)) (cpu ?s) = Inr
     \<lparr>op_rd = unat rd, op_rs1 = unat rd, op_src1 = ?v, op_src2 = 0, op_imm = signed_take_bit 11 c\<rparr>"
    using rd by (simp add: d1 rv32_format_def operand_simps(1))
  have "run_seq cfg [?i1, ?i2] p s = run_seq cfg [?i2] (p + 4) ?s"
    using run_R [OF o1, of p ?v] rd(2) by (simp add: d1 exec_inst_def del: run_seq.simps)
  also have "\<dots> = Inr (p + 8, set_reg (unat rd) c ?s)"
    using run_R [OF o2, of "p + 4" c "[]"] rd(2) by (simp add: d1 exec_inst_def hi_lo)
  finally show ?thesis using rd by simp
qed

section \<open>Branches\<close>

definition branch_cond :: "u32 \<Rightarrow> word_t \<Rightarrow> word_t \<Rightarrow> bool" where
  "branch_cond f3 a b \<longleftrightarrow>
     (if f3 = 0 then a = b else if f3 = 1 then a \<noteq> b
      else if f3 = 4 then sint a < sint b else if f3 = 5 then sint b \<le> sint a
      else if f3 = 6 then uint a < uint b else uint b \<le> uint a)"

lemma run_branch:
  assumes r: "reg_ok cfg rs1" "reg_ok cfg rs2" and f3: "f3 \<in> {0, 1, 4, 5, 6, 7}"
  shows "run_seq cfg (b_inst f3 rs1 rs2 off # is) p s =
    run_seq cfg is (if branch_cond f3 (gpr (cpu s) (unat rs1)) (gpr (cpu s) (unat rs2))
                    then p + (signed_take_bit 12 off AND NOT 1) else p + 4) (zero_x0 s)"
proof -
  let ?i = "b_inst f3 rs1 rs2 off"
  have f: "take_bit 3 f3 = f3" using f3 by auto
  obtain rd where o: "decode_operand cfg ?i TYPE_B (cpu s) = Inr
     \<lparr>op_rd = rd, op_rs1 = unat rs1, op_src1 = gpr (cpu s) (unat rs1), op_src2 = gpr (cpu s) (unat rs2),
      op_imm = signed_take_bit 12 off AND NOT 1\<rparr>"
    using operand_simps(3) [OF r f] by blast
  have d: "rv32_decode ?i = pick [(0, I_beq), (1, I_bne), (4, I_blt), (5, I_bge), (6, I_bltu), (7, I_bgeu)] f3"
    using inst_op_f3(3) [OF r f] by (simp add: rv32_decode_def Let_def pick_Cons)
  have fmt: "rv32_format (rv32_decode ?i) = TYPE_B"
    using f3 unfolding d by (auto simp: pick_Cons rv32_format_def)
  let ?ops = "\<lparr>op_rd = rd, op_rs1 = unat rs1, op_src1 = gpr (cpu s) (unat rs1),
    op_src2 = gpr (cpu s) (unat rs2), op_imm = signed_take_bit 12 off AND NOT 1\<rparr>"
  let ?d = "\<lparr>d_pc = p, d_snpc = p + 4, d_dnpc = p + 4, d_inst = ?i\<rparr>"
  have x: "exec_inst cfg (rv32_decode ?i) ?ops (?d, s) =
      Inr (?d\<lparr>d_dnpc := (if branch_cond f3 (gpr (cpu s) (unat rs1)) (gpr (cpu s) (unat rs2))
        then p + (signed_take_bit 12 off AND NOT 1) else p + 4)\<rparr>, s)"
    unfolding d using f3
    by (elim insertE emptyE)
      (simp_all add: pick_Cons exec_inst_def branch_def branch_cond_def
        word_sless_alt word_sle_eq word_less_def word_le_def)
  show ?thesis
    using run_cons [OF _ x] o fmt by simp
qed

text \<open>C7: A conditional branch jumps to its own address plus the sign-extended even offset
  exactly when the manual's condition on the two registers holds (signed for \<open>blt\<close> and
  \<open>bge\<close>, unsigned for \<open>bltu\<close> and \<open>bgeu\<close>), falls through otherwise, and changes nothing else.\<close>

theorem branches:
  assumes "reg_ok cfg rs1" "reg_ok cfg rs2" and "f3 \<in> {0, 1, 4, 5, 6, 7}"
  shows "run_seq cfg [b_inst f3 rs1 rs2 off] p s =
    Inr (if branch_cond f3 (gpr (cpu s) (unat rs1)) (gpr (cpu s) (unat rs2))
         then p + (signed_take_bit 12 off AND NOT 1) else p + 4, zero_x0 s)"
  using run_branch [OF assms, of off "[]" p s] by simp

section \<open>Calls and returns\<close>

definition no_symbols :: "system \<Rightarrow> bool" where
  "no_symbols s \<longleftrightarrow> symbol_tbl (ftrace s) = None"

lemma trace_call_none: "no_symbols s \<Longrightarrow> trace_call cfg p t tail s = Inr s"
  by (simp add: trace_call_def trace_func_call_def no_symbols_def)

lemma trace_ret_none: "no_symbols s \<Longrightarrow> trace_ret p s = s"
  by (simp add: trace_ret_def trace_func_ret.simps no_symbols_def)

lemma even_and_not_1: "even (p :: u32) \<Longrightarrow> p AND NOT 1 = p"
  by (rule bit_word_eqI) (auto simp: bit_simps bit_1_iff bit_0)


section \<open>Stores and loads\<close>

text \<open>What a load of \<open>funct3\<close> gives for a value stored with the same width.\<close>

definition loaded :: "u32 \<Rightarrow> word_t \<Rightarrow> word_t" where
  "loaded f3 v = (if f3 = 0 then scast (ucast v :: u8) else if f3 = 1 then scast (ucast v :: u16)
     else if f3 = 4 then ucast (ucast v :: u8) else if f3 = 5 then ucast (ucast v :: u16) else v)"

lemma zero_x0_harr [simp]: "harr (zero_x0 s) = harr s"
  by (simp add: zero_x0_def)

lemma loaded_take_bit:
  "scast (ucast (take_bit 8 v) :: u8) = (scast (ucast (v :: u32) :: u8) :: u32)"
  "scast (ucast (take_bit 16 v) :: u16) = (scast (ucast (v :: u32) :: u16) :: u32)"
  "(ucast (ucast v :: u8) :: u32) = take_bit 8 v" "(ucast (ucast v :: u16) :: u32) = take_bit 16 v"
proof -
  have "(ucast (take_bit 8 v) :: u8) = ucast v" "(ucast (take_bit 16 v) :: u16) = ucast v"
    by (auto intro!: bit_word_eqI simp: bit_simps)
  then show "scast (ucast (take_bit 8 v) :: u8) = (scast (ucast v :: u8) :: u32)"
    "scast (ucast (take_bit 16 v) :: u16) = (scast (ucast v :: u16) :: u32)" by simp_all
  show "(ucast (ucast v :: u8) :: u32) = take_bit 8 v" "(ucast (ucast v :: u16) :: u32) = take_bit 16 v"
    by (auto intro!: bit_word_eqI simp: bit_simps)
qed

lemma run_store:
  assumes r: "reg_ok cfg rs1" "reg_ok cfg rs2" and f: "(f3, len) \<in> {(0, 1), (1, 2), (2, 4)}"
    and w: "paddr_write cfg (gpr (cpu s) (unat rs1) + signed_take_bit 11 off) len (gpr (cpu s) (unat rs2)) s = Inr t"
  shows "run_seq cfg (s_inst f3 rs1 rs2 off # is) p s = run_seq cfg is (p + 4) (zero_x0 t)"
proof -
  let ?i = "s_inst f3 rs1 rs2 off"
  have b: "take_bit 3 f3 = f3" using f by auto
  obtain rd where o: "decode_operand cfg ?i TYPE_S (cpu s) = Inr
     \<lparr>op_rd = rd, op_rs1 = unat rs1, op_src1 = gpr (cpu s) (unat rs1), op_src2 = gpr (cpu s) (unat rs2),
      op_imm = signed_take_bit 11 off\<rparr>"
    using operand_simps(2) [OF r b] by blast
  have d: "rv32_decode ?i = pick [(0, I_sb), (1, I_sh), (2, I_sw)] f3"
    using inst_op_f3(2) [OF r b] by (simp add: rv32_decode_def Let_def pick_Cons)
  have fmt: "rv32_format (rv32_decode ?i) = TYPE_S"
    using f unfolding d by (auto simp: pick_Cons rv32_format_def)
  let ?ops = "\<lparr>op_rd = rd, op_rs1 = unat rs1, op_src1 = gpr (cpu s) (unat rs1),
    op_src2 = gpr (cpu s) (unat rs2), op_imm = signed_take_bit 11 off\<rparr>"
  let ?d = "\<lparr>d_pc = p, d_snpc = p + 4, d_dnpc = p + 4, d_inst = ?i\<rparr>"
  have x: "exec_inst cfg (rv32_decode ?i) ?ops (?d, s) = Inr (?d, t)"
    unfolding d using f w
    by (elim insertE emptyE) (simp_all add: pick_Cons exec_inst_def store_src2_def vaddr_write_def)
  show ?thesis
    using run_cons [OF _ x] o fmt by simp
qed

lemma run_load:
  assumes r: "reg_ok cfg rd" "reg_ok cfg rs1" and f: "(f3, len) \<in> {(0, 1), (1, 2), (2, 4), (4, 1), (5, 2)}"
    and rd: "paddr_read cfg (gpr (cpu s) (unat rs1) + signed_take_bit 11 off) len s = Inr (take_bit (8 * nat len) v, t)"
  shows "run_seq cfg (i_inst 0x03 f3 rd rs1 off # is) p s = run_seq cfg is (p + 4) (set_reg (unat rd) (loaded f3 v) t)"
proof -
  let ?i = "i_inst 0x03 f3 rd rs1 off"
  have b: "take_bit 3 f3 = f3" "take_bit 7 (3 :: u32) = 3" using f by auto
  have o: "decode_operand cfg ?i TYPE_I (cpu s) = Inr
     \<lparr>op_rd = unat rd, op_rs1 = unat rs1, op_src1 = gpr (cpu s) (unat rs1), op_src2 = 0,
      op_imm = signed_take_bit 11 off\<rparr>"
    using operand_simps(1) [OF r b] by simp
  have d: "rv32_decode ?i = pick [(0, I_lb), (1, I_lh), (2, I_lw), (4, I_lbu), (5, I_lhu)] f3"
    using inst_op_f3(1) [OF r b] by (simp add: rv32_decode_def Let_def pick_Cons)
  have fmt: "rv32_format (rv32_decode ?i) = TYPE_I"
    using f unfolding d by (auto simp: pick_Cons rv32_format_def)
  let ?ops = "\<lparr>op_rd = unat rd, op_rs1 = unat rs1, op_src1 = gpr (cpu s) (unat rs1), op_src2 = 0,
      op_imm = signed_take_bit 11 off\<rparr>"
  let ?d = "\<lparr>d_pc = p, d_snpc = p + 4, d_dnpc = p + 4, d_inst = ?i\<rparr>"
  have x: "exec_inst cfg (rv32_decode ?i) ?ops (?d, s) =
      Inr (?d, t\<lparr>cpu := (cpu t)\<lparr>gpr := (gpr (cpu t))(unat rd := loaded f3 v)\<rparr>\<rparr>)"
    unfolding d using f rd r(1)
    by (elim insertE emptyE)
      (auto simp: pick_Cons exec_inst_def load_ext_def vaddr_read_def R_set_ok loaded_def
        loaded_take_bit reg_ok_def)
  show ?thesis
    using run_cons [OF _ x, of "is"] o fmt by (simp add: set_reg_def)
qed

text \<open>C4: What \<open>sb\<close>, \<open>sh\<close> or \<open>sw\<close> stores in main memory, a load of the same width from the
  same address gives back: sign-extended by \<open>lb\<close> and \<open>lh\<close>, zero-extended by \<open>lbu\<close> and
  \<open>lhu\<close>, whole by \<open>lw\<close>.\<close>

theorem store_then_load:
  assumes "reg_ok cfg rs1" "reg_ok cfg rs2" "regs_ok cfg [rd]" "gpr (cpu s) 0 = 0"
    and "(fs, fl, len) \<in> {(0, 0, 1), (0, 4, 1), (1, 1, 2), (1, 5, 2), (2, 2, 4)}"
    and addr: "addr = gpr (cpu s) (unat rs1) + signed_take_bit 11 off"
    and mem: "in_pmem cfg addr" "writable_memory cfg addr"
      "unat (addr - CONFIG_MBASE cfg) + nat len \<le> unat (CONFIG_MSIZE cfg)"
  shows "\<exists>t. run_seq cfg [s_inst fs rs1 rs2 off, i_inst 0x03 fl rd rs1 off] p s = Inr (p + 8, t) \<and>
    gpr (cpu t) (unat rd) = loaded fl (gpr (cpu s) (unat rs2))"
proof -
  let ?v = "gpr (cpu s) (unat rs2)"
  have len: "len \<in> {1, 2, 4}" "(fs, len) \<in> {(0, 1), (1, 2), (2, 4)}"
    "(fl, len) \<in> {(0, 1), (1, 2), (2, 4), (4, 1), (5, 2)}" using assms(5) by auto
  have rd: "reg_ok cfg rd" "unat rd \<noteq> 0" using assms(3) by (auto simp: regs_ok_def word_unat_eq_iff)
  obtain t where t: "paddr_write cfg addr len ?v s = Inr t"
    using paddr_write_pmem_total [OF mem(1,2) len(1) mem(3)] by blast
  have regs: "gpr (cpu (zero_x0 t)) = gpr (cpu s)"
    using paddr_write_frame [OF t] assms(4) by (auto simp: mem_frame_def zero_x0_def fun_eq_iff)
  obtain h where h: "host_write cfg (A_pmem, unat (addr - CONFIG_MBASE cfg)) len ?v (harr s) = Inr h" "harr t = h"
    using t by (auto simp: paddr_write_pmem [OF mem(2) guest_to_host_pmem [OF mem(1)]] result_simps)
  have "\<exists>u. paddr_read cfg addr len (zero_x0 t) = Inr (take_bit (8 * nat len) ?v, u)"
    using host_write_read [OF h(1) len(1)] h(2)
    by (simp add: paddr_read_pmem [OF writable_readable [OF mem(2)] guest_to_host_pmem [OF mem(1)]])
  then obtain u where u: "paddr_read cfg addr len (zero_x0 t) = Inr (take_bit (8 * nat len) ?v, u)" ..
  show ?thesis
    using run_store [OF assms(1,2) len(2) t [unfolded addr], of "[i_inst 0x03 fl rd rs1 off]" p]
      run_load [OF rd(1) assms(1) len(3), of "zero_x0 t" off ?v u "[]" "p + 4"] u addr regs rd(2)
    by (simp del: run_seq.simps(2))
qed

section \<open>Traps\<close>

definition ECALL :: u32 where "ECALL = 0x00000073"
definition MRET :: u32 where "MRET = 0x30200073"

definition set_csrs :: "(nat \<Rightarrow> word_t) \<Rightarrow> system \<Rightarrow> system" where
  "set_csrs r s = s\<lparr>cpu := (cpu s)\<lparr>sr := r\<rparr>\<rparr>"

lemma mstatus_after_trap:
  "((m AND NOT (push_bit 7 1)) OR push_bit 7 (drop_bit 3 m AND 1)) AND NOT (push_bit 3 1) OR push_bit 11 3
     = ((m :: u32) AND NOT 0x88) OR push_bit 4 (m AND 8) OR 0x1800"
  by (rule u32_eqI) (elim insertE emptyE; simp only: imm_bits; simp)

lemma mstatus_trap_mret:
  fixes m :: u32
  defines "t \<equiv> (m AND NOT 0x88) OR push_bit 4 (m AND 8) OR 0x1800"
  shows "((t AND NOT (push_bit 3 1)) OR push_bit 3 (drop_bit 7 t AND 1)) OR push_bit 7 1 = m OR 0x1880"
  unfolding t_def
  by (rule u32_eqI) (elim insertE emptyE; simp only: imm_bits; simp)

lemma run_ecall:
  "run_seq cfg (ECALL # is) p s = run_seq cfg is (sr (cpu s) CSR_MTVEC)
     (zero_x0 (set_csrs ((sr (cpu s))(CSR_MTVAL := 0, CSR_MEPC := p, CSR_MCAUSE := MCA_ENV_CAL_MMO,
        CSR_MSTATUS := (sr (cpu s) CSR_MSTATUS AND NOT 0x88) OR push_bit 4 (sr (cpu s) CSR_MSTATUS AND 8)
          OR 0x1800)) s))"
proof -
  have d: "rv32_decode ECALL = I_ecall" by (simp add: ECALL_def decode_simps)
  obtain ops where o: "decode_operand cfg ECALL TYPE_N (cpu s) = Inr ops"
    by (simp add: decode_operand_def Let_def)
  show ?thesis
    using run_cons [of cfg ECALL s ops p] mstatus_after_trap [of "sr (cpu s) CSR_MSTATUS"]
    by (simp add: d rv32_format_def o exec_inst_def isa_raise_intr_def Let_def set_csrs_def)
qed

lemma run_mret:
  "run_seq cfg (MRET # is) p s = run_seq cfg is (sr (cpu s) CSR_MEPC)
     (zero_x0 (set_csrs ((sr (cpu s))(CSR_MSTATUS :=
        ((sr (cpu s) CSR_MSTATUS AND NOT (push_bit 3 1)) OR push_bit 3 (drop_bit 7 (sr (cpu s) CSR_MSTATUS) AND 1))
          OR push_bit 7 1)) s))"
proof -
  have d: "rv32_decode MRET = I_mret" by (simp add: MRET_def decode_simps)
  obtain ops where o: "decode_operand cfg MRET TYPE_N (cpu s) = Inr ops"
    by (simp add: decode_operand_def Let_def)
  show ?thesis
    using run_cons [of cfg MRET s ops p]
    by (simp add: d rv32_format_def o exec_inst_def Let_def set_csrs_def)
qed

text \<open>C5: \<open>ecall\<close> enters the handler at \<open>mtvec\<close> with interrupts off, the cause and the
  address of the \<open>ecall\<close> in the trap CSRs and the interrupt bit saved in \<open>MPIE\<close>; \<open>mret\<close>
  returns to that address with the interrupt bit restored. Of \<open>mstatus\<close>, only \<open>MPIE\<close> and
  \<open>MPP\<close> differ from before the trap, and no general register but \<open>x0\<close> is touched.\<close>

theorem ecall_mret:
  fixes s p
  defines "m \<equiv> sr (cpu s) CSR_MSTATUS"
  shows "(\<exists>t. run_seq cfg [ECALL] p s = Inr (sr (cpu s) CSR_MTVEC, t) \<and>
      sr (cpu t) CSR_MEPC = p \<and> sr (cpu t) CSR_MCAUSE = MCA_ENV_CAL_MMO \<and>
      \<not> bit (sr (cpu t) CSR_MSTATUS) 3 \<and> bit (sr (cpu t) CSR_MSTATUS) 7 = bit m 3) \<and>
    run_seq cfg [ECALL, MRET] p s = Inr (p, zero_x0 (set_csrs
      ((sr (cpu s))(CSR_MTVAL := 0, CSR_MEPC := p, CSR_MCAUSE := MCA_ENV_CAL_MMO,
                    CSR_MSTATUS := m OR 0x1880)) s))"
proof
  show "\<exists>t. run_seq cfg [ECALL] p s = Inr (sr (cpu s) CSR_MTVEC, t) \<and>
      sr (cpu t) CSR_MEPC = p \<and> sr (cpu t) CSR_MCAUSE = MCA_ENV_CAL_MMO \<and>
      \<not> bit (sr (cpu t) CSR_MSTATUS) 3 \<and> bit (sr (cpu t) CSR_MSTATUS) 7 = bit m 3"
    by (simp add: run_ecall zero_x0_def set_csrs_def m_def bit_simps del: run_seq.simps(2))
  show "run_seq cfg [ECALL, MRET] p s = Inr (p, zero_x0 (set_csrs
      ((sr (cpu s))(CSR_MTVAL := 0, CSR_MEPC := p, CSR_MCAUSE := MCA_ENV_CAL_MMO,
                    CSR_MSTATUS := m OR 0x1880)) s))"
    using mstatus_trap_mret [of m]
    by (simp add: run_ecall run_mret zero_x0_def set_csrs_def m_def del: run_seq.simps(2))
qed

section \<open>CSR accesses\<close>

definition csr_index :: "u32 \<Rightarrow> nat" where
  "csr_index c = unat (c AND 0xfff)"

definition csr_known :: "u32 \<Rightarrow> bool" where
  "csr_known c \<longleftrightarrow> csr_index c \<in> set known_csrs"

definition csr_result :: "u32 \<Rightarrow> bool \<Rightarrow> word_t \<Rightarrow> word_t \<Rightarrow> word_t" where
  "csr_result f3 zero old a = (if f3 = 1 then a else if zero then old
     else if f3 = 2 then old OR a else old AND NOT a)"

lemma csr_imm:
  "signed_take_bit 11 (c :: u32) AND 0xfff = c AND 0xfff"
  "unat ((ucast (signed_take_bit 11 c) :: u16) AND 0xfff) = unat (c AND 0xfff)"
proof -
  have m: "(0xfff :: u32) = mask 12" "(0xfff :: u16) = mask 12" by (simp_all add: mask_eq_exp_minus_1)
  have e: "bit c (min 11 n) = bit c n" if "n < 12" for n
    using that by (cases "n = 11") (auto simp: min_def)
  show "signed_take_bit 11 c AND 0xfff = c AND 0xfff"
    unfolding m by (rule bit_word_eqI) (auto simp: bit_simps e)
  have "(ucast (signed_take_bit 11 c) :: u16) AND mask 12 = ucast (c AND mask 12)"
    by (rule bit_word_eqI) (auto simp: bit_simps e)
  moreover have "unat (c AND mask 12) < 2 ^ 12"
    unfolding and_mask_eq_take_bit unsigned_take_bit_eq by (rule take_bit_nat_less_exp)
  then have "unat (ucast (c AND mask 12) :: u16) = unat (c AND mask 12)"
    by (simp add: unsigned_ucast_eq take_bit_nat_eq_self)
  ultimately show "unat ((ucast (signed_take_bit 11 c) :: u16) AND 0xfff) = unat (c AND 0xfff)"
    unfolding m by simp
qed

lemma csr_valid_cases:
  "csr_known c \<Longrightarrow> \<exists>t. csr_valid cfg (ucast (signed_take_bit 11 c)) (d, s) = (True, (d, t)) \<and> cpu t = cpu s"
  "\<not> csr_known c \<Longrightarrow> \<exists>t. csr_valid cfg (ucast (signed_take_bit 11 c)) (d, s) =
     (False, (d\<lparr>d_dnpc := fst (isa_raise_intr MCA_ILLEGAL_INS (d_pc d) (cpu s))\<rparr>, t)) \<and>
     cpu t = snd (isa_raise_intr MCA_ILLEGAL_INS (d_pc d) (cpu s))"
  by (auto simp: csr_valid_def check_csr_exist_def csr_imm csr_known_def csr_index_def Let_def
      difftest_skip_ref_def split: prod.splits)

text \<open>C6: \<open>csrrw\<close>, \<open>csrrs\<close> and \<open>csrrc\<close> on a register the emulator knows put its old value
  into \<open>rd\<close> and write, set or clear the bits of \<open>rs1\<close> (nothing when \<open>rs1\<close> is \<open>x0\<close>, for the
  last two), leaving every other CSR and register alone; on any other number they trap to
  \<open>mtvec\<close> as an illegal instruction and write no general register but \<open>x0\<close>.\<close>

theorem csr_access:
  assumes r: "reg_ok cfg rd" "reg_ok cfg rs1" and f3: "f3 \<in> {1, 2, 3}"
  shows "if csr_known c
    then \<exists>t. run_seq cfg [i_inst 0x73 f3 rd rs1 c] p s = Inr (p + 4, t) \<and>
      gpr (cpu t) = (gpr (cpu s))(unat rd := sr (cpu s) (csr_index c), 0 := 0) \<and>
      sr (cpu t) = (sr (cpu s))(csr_index c :=
        csr_result f3 (rs1 = 0) (sr (cpu s) (csr_index c)) (gpr (cpu s) (unat rs1)))
    else \<exists>t. run_seq cfg [i_inst 0x73 f3 rd rs1 c] p s = Inr (sr (cpu s) CSR_MTVEC, t) \<and>
      sr (cpu t) CSR_MCAUSE = MCA_ILLEGAL_INS \<and> sr (cpu t) CSR_MEPC = p \<and>
      gpr (cpu t) = (gpr (cpu s))(0 := 0)"
proof -
  let ?i = "i_inst 0x73 f3 rd rs1 c"
  have b: "take_bit 3 f3 = f3" "take_bit 7 (0x73 :: u32) = 0x73" using f3 by auto
  let ?ops = "\<lparr>op_rd = unat rd, op_rs1 = unat rs1, op_src1 = gpr (cpu s) (unat rs1), op_src2 = 0,
      op_imm = signed_take_bit 11 c\<rparr>"
  have o: "decode_operand cfg ?i TYPE_I (cpu s) = Inr ?ops"
    using operand_simps(1) [OF r b] by simp
  have d: "rv32_decode ?i = pick [(1, I_csrrw), (2, I_csrrs), (3, I_csrrc)] f3"
    using inst_op_f3(1) [OF r b] f3 by (auto simp: rv32_decode_def Let_def pick_Cons)
  have fmt: "rv32_format (rv32_decode ?i) = TYPE_I"
    using f3 unfolding d by (auto simp: pick_Cons rv32_format_def)
  let ?d = "\<lparr>d_pc = p, d_snpc = p + 4, d_dnpc = p + 4, d_inst = ?i\<rparr>"
  have rd: "unat rd < reg_num cfg" using r by (simp add: reg_ok_def)
  have z: "0 < unat rs1 \<longleftrightarrow> rs1 \<noteq> 0" by (simp add: unat_gt_0)
  have x: "exec_inst cfg (rv32_decode ?i) ?ops (?d, s) =
      csr_op cfg ?ops (f3 = 1 \<or> rs1 \<noteq> 0) (\<lambda>v. csr_result f3 False v (gpr (cpu s) (unat rs1))) (?d, s)"
    unfolding d using f3
    by (elim insertE emptyE) (simp_all add: pick_Cons exec_inst_def csr_result_def z)
  show ?thesis
  proof (cases "csr_known c")
    case True
    then obtain t where t: "csr_valid cfg (ucast (signed_take_bit 11 c)) (?d, s) = (True, (?d, t))" "cpu t = cpu s"
      using csr_valid_cases(1) by blast
    have "exec_inst cfg (rv32_decode ?i) ?ops (?d, s) = Inr (?d,
        let u = t\<lparr>cpu := (cpu t)\<lparr>gpr := (gpr (cpu t))(unat rd := sr (cpu t) (csr_index c))\<rparr>\<rparr>
        in if f3 = 1 \<or> rs1 \<noteq> 0 then u\<lparr>cpu := (cpu u)\<lparr>sr := (sr (cpu u))(csr_index c :=
          csr_result f3 False (sr (cpu u) (csr_index c)) (gpr (cpu s) (unat rs1)))\<rparr>\<rparr> else u)"
      using rd t(1) unfolding x
      by (simp add: csr_op_def R_set_ok check_csrs_idx_def csr_imm csr_index_def Let_def)
    from run_cons [OF _ this, of "[]"] o fmt True show ?thesis
      using t(2) by (auto simp: zero_x0_def Let_def csr_result_def)
  next
    case False
    then obtain t where t: "csr_valid cfg (ucast (signed_take_bit 11 c)) (?d, s) =
        (False, (?d\<lparr>d_dnpc := fst (isa_raise_intr MCA_ILLEGAL_INS (d_pc ?d) (cpu s))\<rparr>, t))"
      "cpu t = snd (isa_raise_intr MCA_ILLEGAL_INS (d_pc ?d) (cpu s))"
      using csr_valid_cases(2) by blast
    have "exec_inst cfg (rv32_decode ?i) ?ops (?d, s) =
        Inr (?d\<lparr>d_dnpc := fst (isa_raise_intr MCA_ILLEGAL_INS (d_pc ?d) (cpu s))\<rparr>, t)"
      unfolding x by (simp add: csr_op_def t(1) [simplified])
    from run_cons [OF _ this, of "[]"] o fmt False show ?thesis
      using t(2) by (simp add: zero_x0_def isa_raise_intr_def Let_def)
  qed
qed

section \<open>What an instruction leaves alone\<close>

definition inst_frame :: "nat \<Rightarrow> bool \<Rightarrow> bool \<Rightarrow> exec_state \<Rightarrow> exec_state \<Rightarrow> bool" where
  "inst_frame rd csrs stores ds dt \<longleftrightarrow>
     (\<forall>i. i \<noteq> rd \<longrightarrow> gpr (cpu (snd dt)) i = gpr (cpu (snd ds)) i) \<and>
     pc (cpu (snd dt)) = pc (cpu (snd ds)) \<and>
     (csrs \<or> sr (cpu (snd dt)) = sr (cpu (snd ds))) \<and>
     (stores \<or> (\<forall>a. a \<noteq> A_io \<longrightarrow> harr (snd dt) a = harr (snd ds) a)) \<and>
     mmio_maps (snd dt) = mmio_maps (snd ds) \<and>
     g_nr_guest_inst (snd dt) = g_nr_guest_inst (snd ds) \<and> itrace (snd dt) = itrace (snd ds) \<and>
     (nemu_state (snd dt) = nemu_state (snd ds) \<or>
      state (nemu_state (snd dt)) = NEMU_END \<or> state (nemu_state (snd dt)) = NEMU_ABORT) \<and>
     d_pc (fst dt) = d_pc (fst ds) \<and> d_snpc (fst dt) = d_snpc (fst ds) \<and>
     d_inst (fst dt) = d_inst (fst ds)"

lemma inst_frame_refl: "inst_frame rd c w (d, s) (d\<lparr>d_dnpc := x\<rparr>, s)" "inst_frame rd c w ds ds"
  by (simp_all add: inst_frame_def)

lemma R_set_frame: "R_set cfg ops v ds = Inr dt \<Longrightarrow> inst_frame (op_rd ops) False False ds dt"
  by (cases ds) (auto simp: R_set_def write_gpr_def check_reg_idx_def inst_frame_def result_simps split: if_splits)

lemma inst_frame_weaken: "inst_frame rd False False ds dt \<Longrightarrow> inst_frame rd c w ds dt"
  by (auto simp: inst_frame_def)

lemma branch_frame: "branch ops b ds = Inr dt \<Longrightarrow> inst_frame rd False False ds dt"
  by (cases ds) (auto simp: branch_def inst_frame_def)

lemma load_frame: "load_ext cfg ops len ext ds = Inr dt \<Longrightarrow> inst_frame (op_rd ops) False False ds dt"
  by (cases ds) (auto simp: load_ext_def vaddr_read_def inst_frame_def result_simps paddr_read_memory
      mem_frame_def dest!: R_set_frame dest: paddr_read_frame)

lemma store_frame: "store_src2 cfg ops len ds = Inr dt \<Longrightarrow> inst_frame rd False True ds dt"
  by (cases ds) (auto simp: store_src2_def vaddr_write_def inst_frame_def result_simps mem_frame_def
      dest: paddr_write_frame)

lemma csr_valid_frame: "csr_valid cfg c ds = (b, dt) \<Longrightarrow> inst_frame rd True False ds dt"
  by (cases ds) (auto simp: csr_valid_def difftest_skip_ref_def isa_raise_intr_def Let_def inst_frame_def
      split: CSR_status.splits prod.splits if_splits)

lemma csr_op_frame: "csr_op cfg ops b f ds = Inr dt \<Longrightarrow> inst_frame (op_rd ops) True False ds dt"
  by (cases ds) (fastforce simp: csr_op_def inst_frame_def Let_def result_simps
      dest: csr_valid_frame dest!: R_set_frame split: prod.splits bool.splits if_splits)

lemma trace_call_frame: "trace_call cfg p t b s = Inr u \<Longrightarrow> inst_frame rd False False (d, s) (d, u)"
  by (auto simp: trace_call_def inst_frame_def result_simps)

lemma trace_ret_frame: "inst_frame rd False False (d, s) (d, trace_ret p s)"
  by (auto simp: trace_ret_def inst_frame_def)

lemma inst_frame_trans: "inst_frame rd c w a b \<Longrightarrow> inst_frame rd c w b e \<Longrightarrow> inst_frame rd c w a e"
  by (auto simp: inst_frame_def)

lemma paddr_read_inst_frame: "paddr_read cfg a n s = Inr (v, t) \<Longrightarrow> inst_frame rd False False (d, s) (d, t)"
  by (auto simp: inst_frame_def mem_frame_def paddr_read_memory dest: paddr_read_frame)

lemma set_nemu_state_frame:
  "inst_frame rd False False (d, s) (d, set_nemu_state cfg NEMU_END p r s)"
  "inst_frame rd False False (d, s) (d, set_nemu_state cfg NEMU_ABORT p r s)"
  by (auto simp: set_nemu_state_def difftest_skip_ref_def inst_frame_def Let_def)

lemma invalid_inst_frame: "invalid_inst cfg p s = Inr u \<Longrightarrow> inst_frame rd False False (d, s) (d, u)"
  by (auto simp: invalid_inst_def inst_fetch_def vaddr_ifetch_def result_simps
      intro!: inst_frame_trans [OF inst_frame_trans [OF paddr_read_inst_frame paddr_read_inst_frame]
        set_nemu_state_frame(2)])

definition writes_csrs :: "inst_name \<Rightarrow> bool" where
  "writes_csrs n \<longleftrightarrow> n \<in> {I_csrrw, I_csrrs, I_csrrc, I_csrrwi, I_csrrsi, I_csrrci, I_ecall, I_mret}"

definition is_store :: "inst_name \<Rightarrow> bool" where
  "is_store n \<longleftrightarrow> n \<in> {I_sb, I_sh, I_sw}"

lemma jump_frame:
  assumes "(if a then Inr s else if b then Inr (trace_ret p s) else if c then trace_call cfg p q x s
      else if e then trace_call cfg p q y s else Inr s) = Inr u"
  shows "inst_frame rd False False (d, s) (d, u)"
  using assms by (auto simp: inst_frame_refl trace_ret_frame dest: trace_call_frame split: if_splits)

lemma link_frame:
  "(if c then trace_call cfg p q x s else Inr s) = Inr u \<Longrightarrow> inst_frame rd False False (d, s) (d, u)"
  by (auto simp: inst_frame_refl dest: trace_call_frame split: if_splits)

lemma jump_step:
  "inst_frame (op_rd ops) False False (d, s) (d, x) \<Longrightarrow> R_set cfg ops v (d\<lparr>d_dnpc := y\<rparr>, x) = Inr dt \<Longrightarrow>
   inst_frame (op_rd ops) False False (d, s) dt"
  by (auto simp: inst_frame_def dest!: R_set_frame)

lemma exec_system_frame:
  "n \<in> {I_jal, I_jalr, I_ecall, I_ebreak, I_mret} \<Longrightarrow> exec_inst cfg n ops (d, s) = Inr dt \<Longrightarrow>
   inst_frame (op_rd ops) (writes_csrs n) (is_store n) (d, s) dt"
proof (elim insertE emptyE)
  assume "n = I_jal" and "exec_inst cfg n ops (d, s) = Inr dt"
  then show ?thesis
    by (auto simp: exec_inst_def writes_csrs_def is_store_def bindR_eq_Inr Let_def
        intro: jump_step [OF link_frame])
next
  assume "n = I_jalr" and "exec_inst cfg n ops (d, s) = Inr dt"
  then show ?thesis
    by (auto simp: exec_inst_def writes_csrs_def is_store_def bindR_eq_Inr Let_def
        intro: jump_step [OF jump_frame])
next
  assume "n = I_ecall" and "exec_inst cfg n ops (d, s) = Inr dt"
  then show ?thesis
    by (auto simp: exec_inst_def isa_raise_intr_def writes_csrs_def inst_frame_def Let_def)
next
  assume "n = I_ebreak" and "exec_inst cfg n ops (d, s) = Inr dt"
  then show ?thesis
    by (auto simp: exec_inst_def writes_csrs_def is_store_def result_simps set_nemu_state_frame)
next
  assume "n = I_mret" and "exec_inst cfg n ops (d, s) = Inr dt"
  then show ?thesis
    by (auto simp: exec_inst_def writes_csrs_def inst_frame_def Let_def)
qed

lemma exec_inst_frame:
  "exec_inst cfg n ops (d, s) = Inr dt \<Longrightarrow> inst_frame (op_rd ops) (writes_csrs n) (is_store n) (d, s) dt"
proof (cases "n \<in> {I_jal, I_jalr, I_ecall, I_ebreak, I_mret}")
  case False
  assume "exec_inst cfg n ops (d, s) = Inr dt"
  with False show ?thesis
    by (cases n)
      (auto simp: exec_inst_def writes_csrs_def is_store_def result_simps Let_def
        dest: R_set_frame branch_frame load_frame store_frame csr_op_frame invalid_inst_frame)
qed (rule exec_system_frame)

lemma decode_operand_rd: "decode_operand cfg i t c = Inr ops \<Longrightarrow> op_rd ops = unat (BITS (ucast i) 11 7)"
  by (cases t) (auto simp: decode_operand_def Let_def result_simps)

text \<open>C2: Whatever word is executed, in every configuration and on every path that returns:
  \<open>x0\<close> is 0 afterwards, no general register but \<open>x0\<close> and the one in the \<open>rd\<close> field has
  changed, the CSRs change only under the CSR instructions, \<open>ecall\<close> and \<open>mret\<close>, guest memory
  only under stores, and the table of device regions never.\<close>

theorem decode_exec_frame:
  assumes "decode_exec cfg (d, s) = Inr (d', t)"
  defines "n \<equiv> rv32_decode (d_inst d)" and "rd \<equiv> unat (BITS (ucast (d_inst d)) 11 7)"
  shows "gpr (cpu t) 0 = 0 \<and> (\<forall>i. i \<noteq> 0 \<and> i \<noteq> rd \<longrightarrow> gpr (cpu t) i = gpr (cpu s) i) \<and>
    pc (cpu t) = pc (cpu s) \<and> (\<not> writes_csrs n \<longrightarrow> sr (cpu t) = sr (cpu s)) \<and>
    (\<not> is_store n \<longrightarrow> (\<forall>a. a \<noteq> A_io \<longrightarrow> harr t a = harr s a)) \<and> mmio_maps t = mmio_maps s \<and>
    d_pc d' = d_pc d \<and> d_inst d' = d_inst d"
proof -
  from assms(1) obtain ops u where o: "decode_operand cfg (d_inst d) (rv32_format n) (cpu s) = Inr ops"
    and x: "exec_inst cfg n ops (d\<lparr>d_dnpc := d_snpc d\<rparr>, s) = Inr (d', u)" and t: "t = zero_x0 u"
    by (auto simp: decode_exec_eq result_simps n_def)
  have "inst_frame rd (writes_csrs n) (is_store n) (d\<lparr>d_dnpc := d_snpc d\<rparr>, s) (d', u)"
    using exec_inst_frame [OF x] decode_operand_rd [OF o] by (simp add: rd_def)
  then show ?thesis
    unfolding t by (auto simp: inst_frame_def zero_x0_def)
qed

section \<open>The statements at concrete inputs\<close>

text \<open>A native machine with 7 in \<open>x1\<close>, 2 in \<open>x2\<close> and the address \<open>0x80000010\<close> in \<open>x5\<close>.\<close>

definition sys_example :: system where
  "sys_example = system_zero\<lparr>cpu := cpu0\<lparr>gpr := (\<lambda>i. if i = 1 then 7 else if i = 2 then 2
     else if i = 5 then 0x80000010 else 0)\<rparr>\<rparr>"

lemma example_regs [simp]:
  "gpr (cpu sys_example) 0 = 0" "gpr (cpu sys_example) (Suc 0) = 7" "gpr (cpu sys_example) 2 = 2"
  "gpr (cpu sys_example) 5 = 0x80000010" "reg_num native_config = 32"
  "sr (cpu sys_example) = (\<lambda>_. 0)"
  by (simp_all add: sys_example_def reg_num_def native_config_def cpu0_def)

lemma m_extension_witness:
  "decode_exec native_config (\<lparr>d_pc = 0, d_snpc = 4, d_dnpc = 0, d_inst = enc 1 2 1 5 3 0x33\<rparr>, sys_example) =
    Inr (\<lparr>d_pc = 0, d_snpc = 4, d_dnpc = 4, d_inst = enc 1 2 1 5 3 0x33\<rparr>, set_reg 3 3 sys_example)"
  using m_extension [of 2 1 5 3 native_config
      "\<lparr>d_pc = 0, d_snpc = 4, d_dnpc = 0, d_inst = enc 1 2 1 5 3 0x33\<rparr>" 7 sys_example 2]
  by (simp add: fields_ok_def reg_ok_def m_undefined_def m_spec_def)

lemma mul_pair_is_product_witness:
  "\<exists>t. run_seq native_config [r_inst 1 0 3 1 2, r_inst 1 1 4 1 2] 0x80000000 sys_example = Inr (0x80000008, t) \<and>
    sint (gpr (cpu t) 4) * 2 ^ 32 + uint (gpr (cpu t) 3) = 14"
  using mul_pair_is_product [of native_config 3 4 1 2 sys_example 7 2 "0x80000000"]
  by (simp add: regs_ok_def reg_ok_def)

lemma div_rem_identity_witness:
  "\<exists>t. run_seq native_config [r_inst 1 4 3 1 2, r_inst 1 6 4 1 2] 0x80000000 sys_example = Inr (0x80000008, t) \<and>
    gpr (cpu t) 3 * 2 + gpr (cpu t) 4 = 7"
  using div_rem_identity [of native_config 3 4 1 2 sys_example 7 2 4 6 "0x80000000"]
  by (simp add: regs_ok_def reg_ok_def)

lemma lui_addi_loads_constant_witness:
  "\<exists>t. run_seq native_config [u_inst 0x37 3 (0xdeadbeef + 0x800), i_inst 0x13 0 3 3 0xdeadbeef] 0 system_zero =
     Inr (8, t) \<and> gpr (cpu t) 3 = 0xdeadbeef"
  using lui_addi_loads_constant [of native_config 3 "0xdeadbeef" 0 system_zero]
  by (simp add: regs_ok_def reg_ok_def)

lemma branches_witness:
  "run_seq native_config [b_inst 6 2 1 0xfffffff8] 0x80000010 sys_example = Inr (0x80000008, zero_x0 sys_example)"
  using branches [of native_config 2 1 6 "0xfffffff8" "0x80000010" sys_example]
  by (simp add: reg_ok_def branch_cond_def)


lemma store_then_load_witness:
  "\<exists>t. run_seq native_config [s_inst 0 5 1 4, i_inst 0x03 0 6 5 4] 0x80000000 sys_example = Inr (0x80000008, t) \<and>
    gpr (cpu t) 6 = 7"
  using store_then_load [of native_config 5 1 6 sys_example 0 0 1 "0x80000014" 4 "0x80000000"]
  by (simp add: regs_ok_def reg_ok_def loaded_def native_pmem)

lemma ecall_mret_witness:
  "run_seq native_config [ECALL, MRET] 0x80000000 sys_example = Inr (0x80000000, zero_x0 (set_csrs
     ((\<lambda>_. 0)(0x343 := 0, 0x341 := 0x80000000, 0x342 := 0xb, 0x300 := 0x1880)) sys_example))"
  using ecall_mret [of native_config "0x80000000" sys_example] by simp

lemma csr_access_witness:
  "\<exists>t. run_seq native_config [i_inst 0x73 1 3 1 0x305] 0 sys_example = Inr (4, t) \<and>
    sr (cpu t) 0x305 = 7 \<and> gpr (cpu t) 3 = 0"
  using csr_access [of native_config 3 1 1 "0x305" 0 sys_example]
  by (auto simp: reg_ok_def csr_known_def csr_index_def known_csrs_def csr_result_def)

lemma decode_exec_frame_witness:
  "\<exists>d t. decode_exec native_config (\<lparr>d_pc = 0, d_snpc = 4, d_dnpc = 0, d_inst = ECALL\<rparr>, sys_example) = Inr (d, t) \<and>
    gpr (cpu t) 2 = 2"
proof -
  have "\<exists>ops. decode_operand native_config ECALL TYPE_N (cpu sys_example) = Inr ops"
    by (simp add: decode_operand_def Let_def)
  moreover have dec: "rv32_decode ECALL = I_ecall" "BITS (ucast ECALL) 11 7 = 0"
    by (simp_all add: ECALL_def decode_simps BITS_def BITMASK_eq mask_eq_exp_minus_1)
  ultimately obtain d t where x: "decode_exec native_config
      (\<lparr>d_pc = 0, d_snpc = 4, d_dnpc = 0, d_inst = ECALL\<rparr>, sys_example) = Inr (d, t)"
    by (auto simp: decode_exec_eq rv32_format_def exec_inst_def case_prod_beta)
  then show ?thesis
    using decode_exec_frame [OF x] by (simp add: dec)
qed

end
