(* ===== verification/Sdb_Expr.thy ===== *)
theory Sdb_Expr
  imports Riscv_Exec "HOL-Library.Char_ord"
begin

text \<open>
  The expression evaluator of the debugger, \<open>nemu/src/monitor/sdb/expr.c\<close>: the lexer
  (the regular expressions of its rule table are data, matched the POSIX way), the
  array of tokens, and the recursive evaluation by the position of the main operator.
\<close>

section \<open>The C library functions it uses\<close>

text \<open>
  Regular expressions in the shapes the rules use. \<open>match_ends\<close> gives the lengths of the
  prefixes a regex matches; POSIX \<open>regexec\<close> reports the longest match at the leftmost
  position, and the code uses it only when that position is 0.
\<close>

datatype regex =
    Lit string
  | One_of "char list"
  | Many1 "char list"
  | Seq regex regex
  | Alt regex regex

fun match_ends :: "regex \<Rightarrow> string \<Rightarrow> nat list" where
  "match_ends (Lit w) s = (if take (length w) s = w then [length w] else [])"
| "match_ends (One_of cs) s = (case s of [] \<Rightarrow> [] | c # _ \<Rightarrow> if c \<in> set cs then [1] else [])"
| "match_ends (Many1 cs) s = [1..<Suc (length (takeWhile (\<lambda>c. c \<in> set cs) s))]"
| "match_ends (Seq r1 r2) s =
     concat (map (\<lambda>n. map (\<lambda>k. n + k) (match_ends r2 (drop n s))) (match_ends r1 s))"
| "match_ends (Alt r1 r2) s = match_ends r1 s @ match_ends r2 s"

definition regexec_at_0 :: "regex \<Rightarrow> string \<Rightarrow> nat option" where
  "regexec_at_0 r s = (case match_ends r s of [] \<Rightarrow> None | n # ns \<Rightarrow> Some (fold max ns n))"

definition digit_chars :: "char list" where
  "digit_chars = ''0123456789''"

definition hex_chars :: "char list" where
  "hex_chars = ''0123456789abcdefABCDEF''"

definition digit_value :: "char \<Rightarrow> nat" where
  "digit_value c =
     (let n = of_char c :: nat
      in if 48 \<le> n \<and> n \<le> 57 then n - 48
         else if 97 \<le> n \<and> n \<le> 122 then n - 87
         else if 65 \<le> n \<and> n \<le> 90 then n - 55 else 36)"

text \<open>
  \<open>strtol\<close> on what the lexer hands it: digits, after \<open>0x\<close> in base 16. The value saturates
  at \<open>LONG_MAX\<close>; its conversion to \<open>int\<close> keeps the low 32 bits.
\<close>

definition strtol_digits :: "nat \<Rightarrow> string \<Rightarrow> int" where
  "strtol_digits base s =
     min (2 ^ 63 - 1)
       (fold (\<lambda>c v. v * int base + int (digit_value c)) (takeWhile (\<lambda>c. digit_value c < base) s) 0)"

definition strtol16 :: "string \<Rightarrow> int" where
  "strtol16 s = strtol_digits 16 (drop 2 s)"

definition to_int :: "int \<Rightarrow> int" where
  "to_int v = sint (word_of_int v :: u32)"

definition c_int :: "int \<Rightarrow> int result" where
  "c_int v = (if - (2 ^ 31) \<le> v \<and> v < 2 ^ 31 then Inr v else Inl (Undefined ''signed overflow''))"

definition INT_MAX :: int where
  "INT_MAX = 2147483647"

section \<open>Tokens\<close>

datatype token_type =
    TK_CHAR char
  | TK_NOTYPE | TK_EQ | TK_NUMBER | TK_NEGATIVE | TK_NOEQ | TK_AND
  | TK_POINTER_DEREF | TK_REG | TK_HEX | TK_OR

record Token =
  ttype :: token_type
  tstr :: string

definition reg_regex :: regex where
  "reg_regex =
     Alt (Seq (Lit ''$'')
           (Alt (Lit ''0'') (Alt (Lit ''ra'') (Alt (Seq (One_of ''sgt'') (Lit ''p''))
           (Alt (Lit ''pc'') (Alt (Seq (Lit ''t'') (One_of ''0123456''))
           (Alt (Seq (Lit ''a'') (One_of ''01234567''))
             (Seq (Lit ''s'') (Alt (One_of digit_chars) (Seq (Lit ''1'') (One_of ''01''))))))))))) 
     (Alt (Lit ''mcause'') (Alt (Lit ''mtvec'') (Alt (Lit ''mtval'')
     (Alt (Lit ''mstatus'') (Lit ''mepc'')))))"

definition rules :: "(regex \<times> token_type) list" where
  "rules =
     [(Many1 '' '', TK_NOTYPE),
      (Lit ''+'', TK_CHAR CHR ''+''),
      (Lit ''=='', TK_EQ),
      (Lit ''!='', TK_NOEQ),
      (Lit ''&&'', TK_AND),
      (Lit ''||'', TK_OR),
      (Lit ''-'', TK_CHAR CHR ''-''),
      (Lit ''*'', TK_CHAR CHR ''*''),
      (Lit ''/'', TK_CHAR CHR ''/''),
      (Lit ''('', TK_CHAR CHR ''(''),
      (Lit '')'', TK_CHAR CHR '')''),
      (reg_regex, TK_REG),
      (Seq (Lit ''0'') (Seq (One_of ''xX'') (Many1 hex_chars)), TK_HEX),
      (Many1 digit_chars, TK_NUMBER)]"

text \<open>\<open>tokens\<close> is a static array; its entries start zeroed and survive from one call to the next.\<close>

type_synonym token_array = "nat \<Rightarrow> Token"

definition NR_TOKENS :: nat where
  "NR_TOKENS = 100000"

definition tokens0 :: token_array where
  "tokens0 = (\<lambda>_. \<lparr>ttype = TK_CHAR (CHR 0x00), tstr = []\<rparr>)"

definition tok :: "token_array \<Rightarrow> int \<Rightarrow> Token result" where
  "tok ts i = (if 0 \<le> i \<and> i < int NR_TOKENS then Inr (ts (nat i)) else Inl (Undefined ''tokens''))"

section \<open>make\_token\<close>

fun first_rule :: "(regex \<times> token_type) list \<Rightarrow> string \<Rightarrow> (nat \<times> token_type) option" where
  "first_rule [] s = None"
| "first_rule ((r, t) # rs) s =
     (case regexec_at_0 r s of Some n \<Rightarrow> Some (n, t) | None \<Rightarrow> first_rule rs s)"

text \<open>Every rule consumes at least one character, so the lexer makes progress.\<close>

fun proper_regex :: "regex \<Rightarrow> bool" where
  "proper_regex (Lit w) \<longleftrightarrow> w \<noteq> []"
| "proper_regex (One_of cs) \<longleftrightarrow> True"
| "proper_regex (Many1 cs) \<longleftrightarrow> True"
| "proper_regex (Seq r1 r2) \<longleftrightarrow> proper_regex r1"
| "proper_regex (Alt r1 r2) \<longleftrightarrow> proper_regex r1 \<and> proper_regex r2"

lemma match_ends_pos: "proper_regex r \<Longrightarrow> n \<in> set (match_ends r s) \<Longrightarrow> 0 < n"
  by (induction r arbitrary: s n) (fastforce split: list.splits if_splits)+

lemma fold_max_mem: "fold max ns (n :: nat) \<in> set (n # ns)"
proof (induction ns arbitrary: n)
  case (Cons k ns)
  show ?case using Cons.IH [of "max k n"] by (auto simp: max_def split: if_splits)
qed simp

lemma regexec_pos: "proper_regex r \<Longrightarrow> regexec_at_0 r s = Some n \<Longrightarrow> 0 < n"
proof -
  assume "proper_regex r" "regexec_at_0 r s = Some n"
  then obtain k ks where k: "match_ends r s = k # ks" "n = fold max ks k"
    by (auto simp: regexec_at_0_def split: list.splits)
  then show "0 < n"
    using match_ends_pos [OF \<open>proper_regex r\<close>] fold_max_mem [of ks k] by metis
qed

lemma first_rule_pos:
  "list_all (\<lambda>(r, t). proper_regex r) rs \<Longrightarrow> first_rule rs s = Some (n, t) \<Longrightarrow> 0 < n"
  by (induction rs s rule: first_rule.induct) (auto dest: regexec_pos split: option.splits)

lemma rules_proper: "list_all (\<lambda>(r, t). proper_regex r) rules"
  by (simp add: rules_def reg_regex_def)

text \<open>
  The buffer \<open>token.str\<close> holds 32 characters with the final NUL, the array 100000 tokens;
  nothing checks either. The result is whether all the input was recognised, the array,
  and \<open>nr_token\<close>.
\<close>

function make_token_from :: "string \<Rightarrow> nat \<Rightarrow> token_array \<Rightarrow> (bool \<times> token_array \<times> nat) result" where
  "make_token_from e nr ts =
     (if e = [] then Inr (True, ts, nr)
      else case first_rule rules e of
        None \<Rightarrow> Inr (False, ts, nr)
      | Some (n, t) \<Rightarrow>
          if t = TK_NOTYPE then make_token_from (drop n e) nr ts
          else if 32 \<le> n then Inl (Undefined ''token.str'')
          else if NR_TOKENS \<le> nr then Inl (Undefined ''tokens'')
          else make_token_from (drop n e) (Suc nr) (ts(nr := \<lparr>ttype = t, tstr = take n e\<rparr>)))"
  by pat_completeness auto

termination
  by (relation "measure (\<lambda>(e, nr, ts). length e)") (auto dest: first_rule_pos [OF rules_proper])

declare make_token_from.simps [simp del]

definition make_token :: "string \<Rightarrow> token_array \<Rightarrow> (bool \<times> token_array \<times> nat) result" where
  "make_token e ts = make_token_from e 0 ts"

section \<open>Parentheses and the main operator\<close>

definition LPAR :: token_type where "LPAR = TK_CHAR CHR ''(''"
definition RPAR :: token_type where "RPAR = TK_CHAR CHR '')''"

text \<open>The loop over \<open>i\<close> from \<open>p\<close> to \<open>q\<close>: \<open>None\<close> when \<open>cnt\<close> becomes negative.\<close>

function count_par :: "token_array \<Rightarrow> int \<Rightarrow> int \<Rightarrow> int \<Rightarrow> int option result" where
  "count_par ts i q cnt =
     (if q < i then Inr (Some cnt)
      else bindR (tok ts i) (\<lambda>t.
        let cnt = (if ttype t = LPAR then cnt + 1 else if ttype t = RPAR then cnt - 1 else cnt)
        in if cnt < 0 then Inr None else count_par ts (i + 1) q cnt))"
  by pat_completeness auto

termination by (relation "measure (\<lambda>(ts, i, q, cnt). nat (q + 1 - i))") auto

declare count_par.simps [simp del]

function check_parantheses :: "token_array \<Rightarrow> int \<Rightarrow> int \<Rightarrow> int result" where
  "check_parantheses ts p q =
     bindR (count_par ts p q 0) (\<lambda>cnt.
     if cnt \<noteq> Some 0 then Inr (- 1)
     else
       bindR (tok ts p) (\<lambda>tp.
       if ttype tp \<noteq> LPAR then Inr 0
       else
         bindR (tok ts q) (\<lambda>tq.
         if ttype tq \<noteq> RPAR then Inr 0
         else
           bindR (check_parantheses ts (p + 1) (q - 1)) (\<lambda>ret.
           Inr (if ret = - 1 then 0 else if ret = 0 \<or> ret = 1 then 1 else 2)))))"
  by pat_completeness auto

termination
  by (relation "measure (\<lambda>(ts, p, q). nat (q + 1))") (auto simp: tok_def split: if_splits)

declare check_parantheses.simps [simp del]

function skip_par :: "token_array \<Rightarrow> int \<Rightarrow> int \<Rightarrow> int result" where
  "skip_par ts i cnt =
     (if cnt = 0 then Inr i
      else bindR (tok ts (i + 1)) (\<lambda>t.
        skip_par ts (i + 1)
          (if ttype t = LPAR then cnt + 1 else if ttype t = RPAR then cnt - 1 else cnt)))"
  by pat_completeness auto

termination
  by (relation "measure (\<lambda>(ts, i, cnt). nat (int NR_TOKENS - i))")
    (auto simp: tok_def split: if_splits)

declare skip_par.simps [simp del]

text \<open>The six tests of the loop body, each on the \<open>flag\<close> the ones before it left.\<close>

definition op_levels :: "(int \<times> token_type list) list" where
  "op_levels =
     [(6, [TK_OR]), (5, [TK_AND]), (4, [TK_EQ, TK_NOEQ]),
      (3, [TK_CHAR CHR ''+'', TK_CHAR CHR ''-'']), (2, [TK_CHAR CHR ''*'', TK_CHAR CHR ''/'']),
      (1, [TK_POINTER_DEREF, TK_NEGATIVE]), (0, [TK_REG, TK_HEX])]"

definition scan_token :: "token_type \<Rightarrow> int \<Rightarrow> int \<times> int \<Rightarrow> int \<times> int" where
  "scan_token t i st =
     fold (\<lambda>(lev, tys) (fl, op). if fl \<le> lev \<and> t \<in> set tys then (lev, max op i) else (fl, op))
       op_levels st"

lemma skip_par_ge: "skip_par ts i cnt = Inr j \<Longrightarrow> i \<le> j"
proof (induction ts i cnt rule: skip_par.induct)
  case (1 ts i cnt)
  from "1.prems" show ?case
    by (subst (asm) skip_par.simps) (force simp: result_simps dest: "1.IH" split: if_splits)
qed

function main_op_from :: "token_array \<Rightarrow> int \<Rightarrow> int \<Rightarrow> int \<times> int \<Rightarrow> (int \<times> int) result" where
  "main_op_from ts i q st =
     (if q < i then Inr st
      else bindR (tok ts i) (\<lambda>t.
        bindR (if ttype t = LPAR then skip_par ts i 1 else Inr i) (\<lambda>i.
        bindR (tok ts i) (\<lambda>t. main_op_from ts (i + 1) q (scan_token (ttype t) i st)))))"
  by pat_completeness auto

termination
  by (relation "measure (\<lambda>(ts, i, q, st). nat (q + 1 - i))")
    (auto split: if_splits dest: skip_par_ge)

declare main_op_from.simps [simp del]

definition find_main_op_pos :: "token_array \<Rightarrow> int \<Rightarrow> int \<Rightarrow> int result" where
  "find_main_op_pos ts p q = bindR (main_op_from ts p q (- 1, - 1)) (\<lambda>(fl, op). Inr op)"

lemma scan_token_cases:
  "scan_token t i (fl, op) = (fl', op') \<Longrightarrow> op' = op \<or> op' = max op i \<and> t \<noteq> RPAR"
  by (auto simp: scan_token_def op_levels_def RPAR_def split: if_splits)

lemma skip_par_RPAR:
  "skip_par ts i cnt = Inr j \<Longrightarrow> 0 < cnt \<Longrightarrow> \<exists>t. tok ts j = Inr t \<and> ttype t = RPAR"
proof (induction ts i cnt rule: skip_par.induct)
  case (1 ts i cnt)
  let ?cnt = "\<lambda>t. if ttype t = LPAR then cnt + 1 else if ttype t = RPAR then cnt - 1 else cnt"
  from "1.prems" obtain t where t: "tok ts (i + 1) = Inr t" and s: "skip_par ts (i + 1) (?cnt t) = Inr j"
    by (subst (asm) skip_par.simps) (auto simp: result_simps)
  show ?case
  proof (cases "?cnt t = 0")
    case True
    with s have "j = i + 1" by (subst (asm) skip_par.simps) simp
    with True t "1.prems" show ?thesis by (auto split: if_splits)
  next
    case False
    then show ?thesis using "1.IH" [OF _ t] "1.prems" s by (auto split: if_splits)
  qed
qed

text \<open>The main operator found, if any, lies between the ends of the range.\<close>

lemma main_op_from_range:
  "main_op_from ts i q (fl, op) = Inr (fl', op') \<Longrightarrow> - 1 \<le> op \<Longrightarrow> op < i \<Longrightarrow> 0 \<le> i \<Longrightarrow>
   op' = op \<or> (i \<le> op' \<and> op' \<le> q)"
proof (induction ts i q "(fl, op)" arbitrary: fl op rule: main_op_from.induct)
  case (1 ts i q fl op)
  show ?case
  proof (cases "q < i")
    case True
    with "1.prems" show ?thesis by (subst (asm) main_op_from.simps) simp
  next
    case False
    from "1.prems" False obtain t j u where t: "tok ts i = Inr t"
      and j: "(if ttype t = LPAR then skip_par ts i 1 else Inr i) = Inr j"
      and u: "tok ts j = Inr u"
      and m: "main_op_from ts (j + 1) q (scan_token (ttype u) j (fl, op)) = Inr (fl', op')"
      by (subst (asm) main_op_from.simps) (auto simp: result_simps)
    obtain f o2 where f: "scan_token (ttype u) j (fl, op) = (f, o2)" by fastforce
    have ij: "i \<le> j" using j by (auto split: if_splits dest: skip_par_ge)
    have o2: "o2 = op \<or> o2 = j \<and> j \<le> q"
    proof (cases "ttype t = LPAR")
      case True
      with j skip_par_RPAR [of ts i 1 j] u have "ttype u = RPAR" by auto
      with scan_token_cases [OF f] show ?thesis by auto
    next
      case False
      with j have "j = i" by simp
      with scan_token_cases [OF f] "1.prems" \<open>\<not> q < i\<close> show ?thesis by auto
    qed
    with "1.prems" ij have "- 1 \<le> o2" "o2 < j + 1" "0 \<le> j + 1" by auto
    from "1.hyps" [OF False t j u _ _ this] m f o2 ij show ?thesis by auto
  qed
qed

lemma find_main_op_range:
  "find_main_op_pos ts p q = Inr op \<Longrightarrow> 0 \<le> p \<Longrightarrow> op = - 1 \<or> (p \<le> op \<and> op \<le> q)"
  using main_op_from_range [of ts p q "- 1" "- 1"]
  by (auto simp: find_main_op_pos_def result_simps)

section \<open>eval and expr\<close>

definition is_true :: "bool \<Rightarrow> int" where
  "is_true b = (if b then 1 else 0)"

text \<open>The switch on the operator, once both operands are known.\<close>

definition apply_op :: "token_type \<Rightarrow> int \<Rightarrow> int \<Rightarrow> int result" where
  "apply_op t val1 val2 =
     (if t = TK_EQ then Inr (is_true (val1 = val2))
      else if t = TK_NOEQ then Inr (is_true (val1 \<noteq> val2))
      else if t = TK_AND then Inr (is_true (val1 \<noteq> 0 \<and> val2 \<noteq> 0))
      else if t = TK_OR then Inr (is_true (val1 \<noteq> 0 \<or> val2 \<noteq> 0))
      else if t = TK_CHAR CHR ''+'' then c_int (val1 + val2)
      else if t = TK_CHAR CHR ''-'' then c_int (val1 - val2)
      else if t = TK_CHAR CHR ''*'' then c_int (val1 * val2)
      else if t = TK_CHAR CHR ''/'' then (if val2 = 0 then Inr INT_MAX else c_int (val1 sdiv val2))
      else Inr 0)"

definition token_value :: "config \<Rightarrow> Token \<Rightarrow> system \<Rightarrow> int" where
  "token_value cfg t s =
     (if ttype t = TK_NUMBER then to_int (strtol_digits 10 (tstr t))
      else if ttype t = TK_REG then
        (case isa_reg_str2val cfg (drop 1 (tstr t)) (cpu s) of Some w \<Rightarrow> sint w | None \<Rightarrow> 0)
      else if ttype t = TK_HEX then to_int (strtol16 (tstr t))
      else 0)"

text \<open>
  Without a main operator the code evaluates \<open>eval (0, q)\<close> and then reads \<open>tokens[-1]\<close>: it
  recurses for ever or leaves the array, which the model reports at once.
\<close>

function eval :: "config \<Rightarrow> token_array \<Rightarrow> int \<Rightarrow> int \<Rightarrow> system \<Rightarrow> (int \<times> system) result" where
  "eval cfg ts p q s =
     (if p > q then Inr (INT_MAX, s)
      else if p < 0 then Inl (Undefined ''tokens'')
      else if p = q then bindR (tok ts p) (\<lambda>t. Inr (token_value cfg t s, s))
      else
        bindR (check_parantheses ts p q) (\<lambda>paren.
        if paren = 1 then eval cfg ts (p + 1) (q - 1) s
        else
          bindR (find_main_op_pos ts p q) (\<lambda>op.
          if op = - 1 then Inl (Undefined ''tokens[-1]'')
          else
            bindR (eval cfg ts (op + 1) q s) (\<lambda>(val2, s).
            bindR (tok ts op) (\<lambda>t.
            if ttype t = TK_NEGATIVE then bindR (c_int (- val2)) (\<lambda>v. Inr (v, s))
            else if ttype t = TK_POINTER_DEREF then
              bindR (paddr_read cfg (word_of_int val2) 4 s) (\<lambda>(w, s). Inr (sint w, s))
            else
              bindR (eval cfg ts p (op - 1) s) (\<lambda>(val1, s).
              bindR (apply_op (ttype t) val1 val2) (\<lambda>v. Inr (v, s))))))))"
  by pat_completeness auto

termination
  by (relation "measure (\<lambda>(cfg, ts, p, q, s). nat (q + 1 - p))")
    (auto dest!: find_main_op_range)

declare eval.simps [simp del]

text \<open>The pass that tells a sign from a subtraction and a dereference from a product.\<close>

definition mark_unary :: "token_array \<Rightarrow> nat \<Rightarrow> token_array" where
  "mark_unary ts i =
     (if (ttype (ts i) = TK_CHAR CHR ''-'' \<or> ttype (ts i) = TK_CHAR CHR ''*'') \<and>
         (i = 0 \<or> (ttype (ts (i - 1)) \<noteq> RPAR \<and> ttype (ts (i - 1)) \<noteq> TK_NUMBER))
      then ts(i := (ts i)\<lparr>ttype := (if ttype (ts i) = TK_CHAR CHR ''*'' then TK_POINTER_DEREF
                                     else TK_NEGATIVE)\<rparr>)
      else ts)"

text \<open>
  The result: the value with \<open>*success\<close>, the token array and the machine after it (a
  dereference may read a device).
\<close>

definition expr ::
    "config \<Rightarrow> string \<Rightarrow> token_array \<Rightarrow> system \<Rightarrow> (word_t \<times> bool \<times> token_array \<times> system) result" where
  "expr cfg e ts s =
     bindR (make_token e ts) (\<lambda>(ok, ts, nr_token).
     if \<not> ok then Inr (0, False, ts, s)
     else
       let ts = fold (\<lambda>i ts. mark_unary ts i) [0..<nr_token] ts in
       bindR (eval cfg ts 0 (int nr_token - 1) s) (\<lambda>(res, s).
       Inr (word_of_int res, True, ts, s)))"

end
