(* ===== verification/Sdb_Expr_Properties.thy ===== *)
theory Sdb_Expr_Properties
  imports Sdb_Expr
begin

text \<open>
  What \<open>expr.c\<close> computes: an expression printed with no more parentheses than its
  operators' precedence needs is read back as that expression, and evaluated right
  operand first with the C meaning of its operators.
\<close>

section \<open>Expressions and how they are written\<close>

datatype ast = Leaf Token | Neg ast | Deref ast | Bin token_type ast ast

definition token_level :: "token_type \<Rightarrow> int" where
  "token_level t =
     (if t = TK_OR then 6 else if t = TK_AND then 5 else if t = TK_EQ \<or> t = TK_NOEQ then 4
      else if t = TK_CHAR CHR ''+'' \<or> t = TK_CHAR CHR ''-'' then 3
      else if t = TK_CHAR CHR ''*'' \<or> t = TK_CHAR CHR ''/'' then 2
      else if t = TK_POINTER_DEREF \<or> t = TK_NEGATIVE then 1
      else if t = TK_REG \<or> t = TK_HEX then 0 else - 1)"

fun ast_level :: "ast \<Rightarrow> int" where
  "ast_level (Leaf t) = token_level (ttype t)"
| "ast_level (Neg e) = 1"
| "ast_level (Deref e) = 1"
| "ast_level (Bin t l r) = token_level t"

fun ast_ok :: "ast \<Rightarrow> bool" where
  "ast_ok (Leaf t) \<longleftrightarrow> ttype t \<in> {TK_NUMBER, TK_REG, TK_HEX}"
| "ast_ok (Neg e) \<longleftrightarrow> ast_ok e"
| "ast_ok (Deref e) \<longleftrightarrow> ast_ok e"
| "ast_ok (Bin t l r) \<longleftrightarrow> 2 \<le> token_level t \<and> ast_ok l \<and> ast_ok r"

definition op_text :: "token_type \<Rightarrow> string" where
  "op_text t =
     (case t of TK_CHAR c \<Rightarrow> [c] | TK_EQ \<Rightarrow> ''=='' | TK_NOEQ \<Rightarrow> ''!='' | TK_AND \<Rightarrow> ''&&''
      | TK_OR \<Rightarrow> ''||'' | TK_NEGATIVE \<Rightarrow> ''-'' | TK_POINTER_DEREF \<Rightarrow> ''*'' | _ \<Rightarrow> [])"

definition op_token :: "token_type \<Rightarrow> Token" where
  "op_token t = \<lparr>ttype = t, tstr = op_text t\<rparr>"

definition wrap :: "int \<Rightarrow> ast \<Rightarrow> Token list \<Rightarrow> Token list" where
  "wrap k e ts = (if ast_level e \<le> k then ts else op_token LPAR # ts @ [op_token RPAR])"

fun written :: "ast \<Rightarrow> Token list" where
  "written (Leaf t) = [t]"
| "written (Neg e) = op_token TK_NEGATIVE # wrap 0 e (written e)"
| "written (Deref e) = op_token TK_POINTER_DEREF # wrap 0 e (written e)"
| "written (Bin t l r) =
     wrap (token_level t) l (written l) @ op_token t # wrap (token_level t - 1) r (written r)"

fun meaning :: "config \<Rightarrow> ast \<Rightarrow> system \<Rightarrow> (int \<times> system) result" where
  "meaning cfg (Leaf t) s = Inr (token_value cfg t s, s)"
| "meaning cfg (Neg e) s =
     bindR (meaning cfg e s) (\<lambda>(v, s). bindR (c_int (- v)) (\<lambda>w. Inr (w, s)))"
| "meaning cfg (Deref e) s =
     bindR (meaning cfg e s) (\<lambda>(v, s).
     bindR (paddr_read cfg (word_of_int v) 4 s) (\<lambda>(w, s). Inr (sint w, s)))"
| "meaning cfg (Bin t l r) s =
     bindR (meaning cfg r s) (\<lambda>(v2, s).
     bindR (meaning cfg l s) (\<lambda>(v1, s).
     bindR (apply_op t v1 v2) (\<lambda>v. Inr (v, s))))"

fun seg :: "token_array \<Rightarrow> nat \<Rightarrow> Token list \<Rightarrow> bool" where
  "seg ts p [] \<longleftrightarrow> p \<le> NR_TOKENS"
| "seg ts p (x # xs) \<longleftrightarrow> p < NR_TOKENS \<and> ts p = x \<and> seg ts (Suc p) xs"

lemma seg_bound: "seg ts p xs \<Longrightarrow> p + length xs \<le> NR_TOKENS"
proof (induction xs arbitrary: p)
  case (Cons x xs)
  then show ?case using Cons.IH [of "Suc p"] by simp
qed simp

lemma seg_append: "seg ts p (xs @ ys) \<longleftrightarrow> seg ts p xs \<and> seg ts (p + length xs) ys"
proof (induction xs arbitrary: p)
  case Nil
  then show ?case using seg_bound [of ts p ys] by auto
qed auto

lemma tok_int: "i < NR_TOKENS \<Longrightarrow> tok ts (int i) = Inr (ts i)"
  by (simp add: tok_def)

lemma paren_types [simp]:
  "LPAR \<noteq> RPAR" "RPAR \<noteq> LPAR" "ttype (op_token t) = t" "TK_NEGATIVE \<noteq> LPAR"
  "TK_POINTER_DEREF \<noteq> LPAR" "token_level LPAR = - 1" "token_level RPAR = - 1"
  by (simp_all add: LPAR_def RPAR_def op_token_def token_level_def)

lemma op_not_paren: "0 \<le> token_level t \<Longrightarrow> t \<noteq> LPAR \<and> t \<noteq> RPAR"
  by auto

lemma leaf_not_paren:
  "ttype t \<in> {TK_NUMBER, TK_REG, TK_HEX} \<Longrightarrow> ttype t \<noteq> LPAR \<and> ttype t \<noteq> RPAR"
  by (auto simp: LPAR_def RPAR_def)

lemma written_nonempty [simp]: "written e \<noteq> []"
  by (cases e) auto

section \<open>Parentheses\<close>

fun count_list :: "Token list \<Rightarrow> int \<Rightarrow> int option" where
  "count_list [] c = Some c"
| "count_list (t # ts) c =
     (let c = (if ttype t = LPAR then c + 1 else if ttype t = RPAR then c - 1 else c)
      in if c < 0 then None else count_list ts c)"

lemma count_par_seg:
  "seg ts p xs \<Longrightarrow> q = int p + int (length xs) - 1 \<Longrightarrow> count_par ts (int p) q c = Inr (count_list xs c)"
proof (induction xs arbitrary: p c)
  case Nil
  then show ?case by (subst count_par.simps) simp
next
  case (Cons x xs)
  then show ?case
    using Cons.IH [of "Suc p"]
    by (subst count_par.simps) (simp add: tok_int Let_def add.commute)
qed

lemma count_append: "count_list (xs @ ys) c = Option.bind (count_list xs c) (count_list ys)"
  by (induction xs arbitrary: c) (auto simp: Let_def)

lemma count_written: "ast_ok e \<Longrightarrow> 0 \<le> c \<Longrightarrow> count_list (written e) c = Some c"
proof (induction e arbitrary: c)
  case (Leaf t)
  then show ?case using leaf_not_paren [of t] by auto
next
  case (Bin t l r)
  then show ?case
    using op_not_paren [of t] by (auto simp: wrap_def count_append Let_def)
qed (auto simp: wrap_def count_append Let_def LPAR_def RPAR_def)

lemma count_wrap: "ast_ok e \<Longrightarrow> 0 \<le> c \<Longrightarrow> count_list (wrap k e (written e)) c = Some c"
  by (auto simp: wrap_def count_append count_written Let_def)

lemma count_drop: "count_list xs (c + 1) = Some 0 \<Longrightarrow> 0 \<le> c \<Longrightarrow> count_list xs c = None"
proof (induction xs arbitrary: c)
  case (Cons x xs)
  from Cons.prems show ?case
    using Cons.IH [of "c + 1"] Cons.IH [of "c - 1"] Cons.IH [of c]
    by (auto simp: Let_def split: if_splits)
qed simp

lemma count_par_total:
  "0 \<le> p \<Longrightarrow> q < int NR_TOKENS \<Longrightarrow> \<exists>c. count_par ts p q k = Inr c"
proof (induction ts p q k rule: count_par.induct)
  case (1 ts p q k)
  show ?case
  proof (cases "q < p")
    case False
    then have "tok ts p = Inr (ts (nat p))" using "1.prems" by (simp add: tok_def)
    with False "1.IH" [OF False this refl] "1.prems" show ?thesis
      by (subst count_par.simps) (auto simp: Let_def)
  qed (subst count_par.simps, simp)
qed

lemma check_total:
  assumes "0 \<le> p" and "p < int NR_TOKENS" and "0 \<le> q" and "q < int NR_TOKENS" and "p \<le> q + 1"
    and "p = q + 1 \<Longrightarrow> ttype (ts (nat q)) \<noteq> RPAR" and "count_par ts p q 0 = Inr c"
  shows "\<exists>r \<in> {- 1, 0, 1}. check_parantheses ts p q = Inr r \<and> (r = - 1 \<longleftrightarrow> c \<noteq> Some 0)"
  using assms
proof (induction ts p q arbitrary: c rule: check_parantheses.induct)
  case (1 ts p q)
  have tp: "tok ts p = Inr (ts (nat p))" and tq: "tok ts q = Inr (ts (nat q))"
    using "1.prems" by (simp_all add: tok_def)
  show ?case
  proof (cases "c = Some 0 \<and> ttype (ts (nat p)) = LPAR \<and> ttype (ts (nat q)) = RPAR")
    case False
    then show ?thesis
      using "1.prems"(7) tp tq by (subst check_parantheses.simps) auto
  next
    case True
    then have "p \<noteq> q" by auto
    moreover have "p \<noteq> q + 1" using True "1.prems"(6) by auto
    ultimately have pq: "p < q" using "1.prems"(5) by linarith
    obtain c' where c': "count_par ts (p + 1) (q - 1) 0 = Inr c'"
      using count_par_total [of "p + 1" "q - 1"] "1.prems" by auto
    have "p + 1 = q - 1 + 1 \<Longrightarrow> ttype (ts (nat (q - 1))) \<noteq> RPAR"
      using True by auto
    then have "\<exists>r \<in> {- 1, 0, 1}. check_parantheses ts (p + 1) (q - 1) = Inr r"
      using "1.IH" [OF "1.prems"(7) _ tp _ tq _ _ _ _ _ _ _ c'] "1.prems" pq True by auto
    then show ?thesis
      using "1.prems"(7) tp tq True by (subst check_parantheses.simps) auto
  qed
qed

text \<open>Parentheses around a whole expression are recognised; inside it they do not match.\<close>

lemma check_wrapped:
  assumes "seg ts p (op_token LPAR # written e @ [op_token RPAR])" and "ast_ok e"
    and "q = int p + int (length (written e)) + 1"
  shows "check_parantheses ts (int p) q = Inr 1"
proof -
  let ?n = "length (written e)"
  have s: "seg ts (Suc p) (written e)" and lp: "ts p = op_token LPAR" and p: "p < NR_TOKENS"
    and rp: "ts (Suc p + ?n) = op_token RPAR" and b: "Suc p + ?n < NR_TOKENS"
    using assms(1) by (auto simp: seg_append)
  have n: "0 < ?n" by simp
  have 1: "count_par ts (int p) q 0 = Inr (Some 0)"
    using count_par_seg [OF assms(1), of q 0] assms(2,3) by (auto simp: count_append count_written Let_def)
  have "count_par ts (int (Suc p)) (q - 1) 0 = Inr (Some 0)"
    using count_par_seg [OF s, of "q - 1" 0] assms(2,3) by (auto simp: count_written)
  then obtain r where r: "check_parantheses ts (int p + 1) (q - 1) = Inr r" "r = 0 \<or> r = 1"
    using check_total [of "int p + 1" "q - 1" ts "Some 0"] p b n assms(3)
    by (auto simp: add.commute)
  have tq: "tok ts q = Inr (op_token RPAR)"
    using tok_int [OF b, of ts] rp assms(3) by (simp add: add.commute add.left_commute)
  show ?thesis
    by (subst check_parantheses.simps) (use 1 r lp p tq in \<open>auto simp: tok_int\<close>)
qed

lemma check_unwrapped:
  assumes "seg ts p (written e)" and "ast_ok e" and "1 < length (written e)"
    and "q = int p + int (length (written e)) - 1"
  shows "check_parantheses ts (int p) q = Inr 0"
proof -
  let ?n = "length (written e)"
  have p: "p < NR_TOKENS" and q: "nat q < NR_TOKENS" and q0: "0 \<le> q"
    using seg_bound [OF assms(1)] assms(3,4) by auto
  have 1: "count_par ts (int p) q 0 = Inr (Some 0)"
    using count_par_seg [OF assms(1) assms(4)] assms(2) by (simp add: count_written)
  have tq: "tok ts q = Inr (ts (nat q))" using q q0 tok_int [OF q, of ts] by simp
  show ?thesis
  proof (cases "ttype (ts p) = LPAR")
    case False
    then show ?thesis using 1 p by (subst check_parantheses.simps) (simp add: tok_int)
  next
    case True
    then obtain t l r where e: "e = Bin t l r"
      using assms by (cases e) auto
    let ?l = "wrap (token_level t) l (written l)"
    obtain x xs where x: "?l = x # xs" by (cases ?l) (auto simp: wrap_def split: if_splits)
    with True e assms(1) have xt: "ttype x = LPAR" by auto
    have cl: "count_list ?l 0 = Some 0" using assms(2) e by (simp add: count_wrap)
    then have "count_list xs 0 = None"
      using count_drop [of xs 0] xt x by (simp add: Let_def)
    then have c2: "count_list (butlast (xs @ ys)) 0 = None" if "ys \<noteq> []" for ys
      using that by (simp add: butlast_append count_append)
    let ?mid = "butlast (tl (written e))"
    have we: "written e = x # xs @ op_token t # wrap (token_level t - 1) r (written r)"
      using e x by simp
    then have "count_list ?mid 0 = None" using c2 by simp
    moreover have sm: "seg ts (Suc p) ?mid"
    proof -
      have "tl (written e) \<noteq> []" using we by simp
      then have "written e = [x] @ ?mid @ [last (tl (written e))]"
        using we append_butlast_last_id [of "tl (written e)"] by simp
      then have "seg ts p ([x] @ ?mid @ [last (tl (written e))])" using assms(1) by simp
      then show ?thesis by (simp add: seg_append)
    qed
    moreover have "q - 1 = int (Suc p) + int (length ?mid) - 1"
      using assms(3,4) by simp
    ultimately have c0: "count_par ts (int p + 1) (q - 1) 0 = Inr None"
      using count_par_seg [OF sm, of "q - 1" 0] by (simp add: add.commute)
    then have "check_parantheses ts (int p + 1) (q - 1) = Inr (- 1)"
      by (subst check_parantheses.simps) simp
    then show ?thesis
      using 1 p tq by (subst check_parantheses.simps) (simp add: tok_int)
  qed
qed

section \<open>The main operator\<close>

lemma scan_token_level:
  assumes "op < i"
  shows "scan_token t i (fl, op) =
    (if 0 \<le> token_level t \<and> fl \<le> token_level t then (token_level t, i) else (fl, op))"
  using assms by (cases t) (auto simp: scan_token_def op_levels_def token_level_def)

lemma skip_seg:
  "count_list xs k = Some m \<Longrightarrow> 0 \<le> k \<Longrightarrow> seg ts (Suc i) xs \<Longrightarrow>
   skip_par ts (int i) (k + 1) = skip_par ts (int (i + length xs)) (m + 1)"
proof (induction xs arbitrary: i k)
  case (Cons x xs)
  let ?k = "if ttype x = LPAR then k + 1 else if ttype x = RPAR then k - 1 else k"
  have k: "0 \<le> ?k" "count_list xs ?k = Some m"
    using Cons.prems(1) by (auto simp: Let_def split: if_splits)
  have t: "tok ts (int i + 1) = Inr x"
    using Cons.prems(3) tok_int [of "Suc i" ts] by (auto simp: add.commute)
  have "skip_par ts (int i) (k + 1) = skip_par ts (int (Suc i)) (?k + 1)"
    using Cons.prems(2) t by (subst skip_par.simps) (auto simp: add.commute)
  also have "\<dots> = skip_par ts (int (i + length (x # xs))) (m + 1)"
    using Cons.IH [OF k(2) k(1), of "Suc i"] Cons.prems(3) by (auto simp: add.commute)
  finally show ?case .
qed simp

lemma skip_wrapped:
  assumes "seg ts i (op_token LPAR # written e @ [op_token RPAR])" and "ast_ok e"
  shows "skip_par ts (int i) 1 = Inr (int (i + length (written e) + 1))"
proof -
  let ?n = "length (written e)"
  have s: "seg ts (Suc i) (written e)" and j: "Suc i + ?n < NR_TOKENS"
    and rp: "ts (Suc i + ?n) = op_token RPAR"
    using assms(1) by (auto simp: seg_append)
  have "skip_par ts (int i) 1 = skip_par ts (int (i + ?n)) 1"
    using skip_seg [OF _ _ s, of 0 0] assms(2) by (simp add: count_written)
  also have "\<dots> = skip_par ts (int (Suc i + ?n)) 0"
    using tok_int [OF j, of ts] rp by (subst skip_par.simps) (simp add: algebra_simps)
  also have "\<dots> = Inr (int (Suc i + ?n))" by (subst skip_par.simps) simp
  finally show ?thesis by simp
qed

fun main_pos :: "ast \<Rightarrow> nat" where
  "main_pos (Bin t l r) = length (wrap (token_level t) l (written l))"
| "main_pos e = 0"

definition found :: "nat \<Rightarrow> ast \<Rightarrow> int \<times> int \<Rightarrow> int \<times> int" where
  "found i e st =
     (if 0 \<le> ast_level e \<and> fst st \<le> ast_level e then (ast_level e, int (i + main_pos e)) else st)"

lemma main_op_token:
  assumes "seg ts i (x # xs)" and "ttype x \<noteq> LPAR" and "int i \<le> q" and "op < int i"
  shows "main_op_from ts (int i) q (fl, op) = main_op_from ts (int (Suc i)) q
    (if 0 \<le> token_level (ttype x) \<and> fl \<le> token_level (ttype x)
     then (token_level (ttype x), int i) else (fl, op))"
  using assms
  by (subst main_op_from.simps) (auto simp: tok_int scan_token_level add.commute)

lemma main_op_wrapped:
  assumes "seg ts i (op_token LPAR # written e @ [op_token RPAR])" and "ast_ok e"
    and "int i + int (length (written e)) + 1 \<le> q" and "op < int i"
  shows "main_op_from ts (int i) q (fl, op) =
    main_op_from ts (int (i + length (written e) + 2)) q (fl, op)"
proof -
  let ?j = "i + length (written e) + 1"
  have t: "tok ts (int i) = Inr (op_token LPAR)" and u: "tok ts (int ?j) = Inr (op_token RPAR)"
    using assms(1) tok_int [of i ts] tok_int [of ?j ts] by (auto simp: seg_append)
  have "scan_token RPAR (int ?j) (fl, op) = (fl, op)"
    using assms(4) by (subst scan_token_level) auto
  then show ?thesis
    using t u skip_wrapped [OF assms(1,2)] assms(3)
    by (subst main_op_from.simps) (simp add: algebra_simps)
qed

lemma found_same: "ast_level e < fl \<Longrightarrow> found i e (fl, op) = (fl, op)"
  by (simp add: found_def)

lemma ast_level_ge: "- 1 \<le> ast_level e"
  by (cases e) (auto simp: token_level_def)

lemma token_levelE:
  assumes "2 \<le> token_level t" shows "0 \<le> token_level t" "t \<noteq> LPAR"
  using assms by auto

lemma main_op_wrap:
  assumes IH: "\<And>i fl op. seg ts i (written e) \<Longrightarrow> int i + int (length (written e)) \<le> q + 1 \<Longrightarrow> op < int i \<Longrightarrow>
      main_op_from ts (int i) q (fl, op) =
        main_op_from ts (int (i + length (written e))) q (found i e (fl, op))"
    and "seg ts i (wrap k e (written e))" and "int i + int (length (wrap k e (written e))) \<le> q + 1"
    and "op < int i" and "ast_ok e"
  shows "\<exists>fl' op'. main_op_from ts (int i) q (fl, op) =
      main_op_from ts (int (i + length (wrap k e (written e)))) q (fl', op') \<and>
    op' < int (i + length (wrap k e (written e))) \<and> (fl' = fl \<and> op' = op \<or> fl \<le> fl' \<and> fl' \<le> k)"
proof (cases "ast_level e \<le> k")
  case True
  have "main_pos e < length (written e)" by (cases e) auto
  then show ?thesis
    using True IH [of i op fl] assms(2-4)
    by (intro exI [of _ "fst (found i e (fl, op))"] exI [of _ "snd (found i e (fl, op))"])
      (auto simp: wrap_def found_def)
next
  case False
  then show ?thesis
    using main_op_wrapped [of ts i e q op fl] assms(2-5)
    by (intro exI [of _ fl] exI [of _ op]) (auto simp: wrap_def)
qed

lemma main_op_unary:
  assumes IH: "\<And>i fl op. seg ts i (written e) \<Longrightarrow> int i + int (length (written e)) \<le> q + 1 \<Longrightarrow> op < int i \<Longrightarrow>
      main_op_from ts (int i) q (fl, op) =
        main_op_from ts (int (i + length (written e))) q (found i e (fl, op))"
    and s: "seg ts i (op_token t # wrap 0 e (written e))"
    and len: "int i + 1 + int (length (wrap 0 e (written e))) \<le> q + 1"
    and "op < int i" and e: "ast_ok e" and t: "token_level t = 1"
  shows "main_op_from ts (int i) q (fl, op) =
    main_op_from ts (int (Suc i + length (wrap 0 e (written e)))) q
      (if fl \<le> 1 then (1, int i) else (fl, op))"
proof -
  let ?st = "if fl \<le> 1 then (1, int i) else (fl, op)" and ?e = "wrap 0 e (written e)"
  have "t \<noteq> LPAR" using t by auto
  then have 1: "main_op_from ts (int i) q (fl, op) = main_op_from ts (int (Suc i)) q ?st"
    using main_op_token [OF s _ _ \<open>op < int i\<close>, of q fl] t len by simp
  have o2: "snd ?st < int (Suc i)" using \<open>op < int i\<close> by auto
  have "seg ts (Suc i) ?e" using s by simp
  then obtain f3 o3 where 3: "main_op_from ts (int (Suc i)) q ?st =
      main_op_from ts (int (Suc i + length ?e)) q (f3, o3)"
    "f3 = fst ?st \<and> o3 = snd ?st \<or> fst ?st \<le> f3 \<and> f3 \<le> 0"
    using main_op_wrap [of ts e q "Suc i" 0 "snd ?st" "fst ?st", OF IH _ _ o2 e] len by auto
  then have "(f3, o3) = ?st" by (auto split: if_splits)
  with 1 3(1) show ?thesis by simp
qed

lemma main_op_written:
  "seg ts i (written e) \<Longrightarrow> int i + int (length (written e)) \<le> q + 1 \<Longrightarrow> op < int i \<Longrightarrow> ast_ok e \<Longrightarrow>
   main_op_from ts (int i) q (fl, op) =
     main_op_from ts (int (i + length (written e))) q (found i e (fl, op))"
proof (induction e arbitrary: i fl op)
  case (Leaf t)
  then show ?case
    using main_op_token [of ts i t "[]" q op fl] leaf_not_paren [of t] by (simp add: found_def)
next
  case (Neg e)
  have "token_level TK_NEGATIVE = 1" by (simp add: token_level_def)
  with Neg show ?case
    using main_op_unary [of ts e q i TK_NEGATIVE op fl] by (simp add: found_def)
next
  case (Deref e)
  have "token_level TK_POINTER_DEREF = 1" by (simp add: token_level_def)
  with Deref show ?case
    using main_op_unary [of ts e q i TK_POINTER_DEREF op fl] by (simp add: found_def)
next
  case (Bin t l r)
  let ?k = "token_level t" and ?l = "wrap (token_level t) l (written l)"
    and ?r = "wrap (token_level t - 1) r (written r)"
  let ?m = "i + length ?l"
  have k: "2 \<le> ?k" "ast_ok l" "ast_ok r" using Bin.prems by auto
  have sl: "seg ts i ?l" and so: "seg ts ?m (op_token t # ?r)" and sr: "seg ts (Suc ?m) ?r"
    using Bin.prems(1) by (simp_all add: seg_append)
  have len: "int i + int (length ?l) + 1 + int (length ?r) \<le> q + 1"
    using Bin.prems(2) by simp
  obtain f1 o1 where 1: "main_op_from ts (int i) q (fl, op) = main_op_from ts (int ?m) q (f1, o1)"
    "o1 < int ?m" "f1 = fl \<and> o1 = op \<or> fl \<le> f1 \<and> f1 \<le> ?k"
    using main_op_wrap [OF Bin.IH(1) sl _ Bin.prems(3) k(2), of fl] len k(2) by auto
  let ?st = "if f1 \<le> ?k then (?k, int ?m) else (f1, o1)"
  have 2: "main_op_from ts (int ?m) q (f1, o1) = main_op_from ts (int (Suc ?m)) q ?st"
    using main_op_token [OF so _ _ 1(2), of q f1] token_levelE [OF k(1)] len by simp
  have o2: "snd ?st < int (Suc ?m)" using 1(2) by auto
  obtain f3 o3 where 3: "main_op_from ts (int (Suc ?m)) q ?st =
      main_op_from ts (int (Suc ?m + length ?r)) q (f3, o3)"
    "f3 = fst ?st \<and> o3 = snd ?st \<or> fst ?st \<le> f3 \<and> f3 \<le> ?k - 1"
    using main_op_wrap [OF Bin.IH(2) sr _ o2 k(3), of "fst ?st"] len k(3) by auto
  have "(f3, o3) = found i (Bin t l r) (fl, op)"
    using 1(3) 3(2) k(1) by (auto simp: found_def split: if_splits)
  then show ?case using 1(1) 2 3(1) by (simp add: algebra_simps)
qed

lemma main_op_of:
  assumes "seg ts p (written e)" and "ast_ok e" and "0 \<le> ast_level e"
    and "q = int p + int (length (written e)) - 1"
  shows "find_main_op_pos ts (int p) q = Inr (int (p + main_pos e))"
proof -
  have "main_op_from ts (int p) q (- 1, - 1) =
      main_op_from ts (int (p + length (written e))) q (ast_level e, int (p + main_pos e))"
    using main_op_written [OF assms(1) _ _ assms(2), of q "- 1" "- 1"] assms(3,4)
    by (simp add: found_def)
  also have "\<dots> = Inr (ast_level e, int (p + main_pos e))"
    using assms(4) by (subst main_op_from.simps) simp
  finally show ?thesis by (simp add: find_main_op_pos_def)
qed

section \<open>Evaluation\<close>

lemma eval_wrap:
  assumes "seg ts p (wrap k e (written e))" and "ast_ok e"
    and "q = int p + int (length (wrap k e (written e))) - 1"
    and IH: "\<And>p q. seg ts p (written e) \<Longrightarrow> q = int p + int (length (written e)) - 1 \<Longrightarrow>
      eval cfg ts (int p) q s = meaning cfg e s"
  shows "eval cfg ts (int p) q s = meaning cfg e s"
proof (cases "ast_level e \<le> k")
  case False
  then have s: "seg ts p (op_token LPAR # written e @ [op_token RPAR])"
    and q: "q = int p + int (length (written e)) + 1"
    using assms(1,3) by (auto simp: wrap_def)
  have "eval cfg ts (int p) q s = eval cfg ts (int (Suc p)) (q - 1) s"
    using check_wrapped [OF s assms(2) q] q by (subst eval.simps) (simp add: add.commute)
  also have "\<dots> = meaning cfg e s"
    using s q by (intro IH) (auto simp: seg_append)
  finally show ?thesis .
qed (use assms in \<open>auto simp: wrap_def\<close>)

lemma wrap_nonempty [simp]: "wrap k e (written e) \<noteq> []"
  by (simp add: wrap_def)

lemma eval_written:
  "seg ts p (written e) \<Longrightarrow> ast_ok e \<Longrightarrow> q = int p + int (length (written e)) - 1 \<Longrightarrow>
   eval cfg ts (int p) q s = meaning cfg e s"
proof (induction e arbitrary: p q s)
  case (Leaf t)
  then show ?case by (subst eval.simps) (simp add: tok_int)
next
  case (Neg e)
  have op: "find_main_op_pos ts (int p) q = Inr (int p)"
    using main_op_of [OF Neg.prems(1,2) _ Neg.prems(3)] by simp
  have "eval cfg ts (int (Suc p)) q s = meaning cfg e s"
    using Neg.prems Neg.IH by (intro eval_wrap [of ts "Suc p" 0 e]) auto
  then show ?case
    using op check_unwrapped [OF Neg.prems(1,2) _ Neg.prems(3)] Neg.prems
    by (subst eval.simps) (auto simp: tok_int add.commute intro!: bindR_cong)
next
  case (Deref e)
  have op: "find_main_op_pos ts (int p) q = Inr (int p)"
    using main_op_of [OF Deref.prems(1,2) _ Deref.prems(3)] by simp
  have "eval cfg ts (int (Suc p)) q s = meaning cfg e s"
    using Deref.prems Deref.IH by (intro eval_wrap [of ts "Suc p" 0 e]) auto
  then show ?case
    using op check_unwrapped [OF Deref.prems(1,2) _ Deref.prems(3)] Deref.prems
    by (subst eval.simps) (auto simp: tok_int add.commute intro!: bindR_cong)
next
  case (Bin t l r)
  let ?l = "wrap (token_level t) l (written l)" and ?r = "wrap (token_level t - 1) r (written r)"
  let ?m = "p + length ?l"
  have ok: "ast_ok l" "ast_ok r" "2 \<le> token_level t" using Bin.prems by auto
  then have t: "t \<noteq> TK_NEGATIVE" "t \<noteq> TK_POINTER_DEREF" by (auto simp: token_level_def)
  have sl: "seg ts p ?l" and so: "?m < NR_TOKENS" "ts ?m = op_token t" and sr: "seg ts (Suc ?m) ?r"
    using Bin.prems(1) by (simp_all add: seg_append)
  have q: "q = int (Suc ?m) + int (length ?r) - 1" using Bin.prems(3) by simp
  have op: "find_main_op_pos ts (int p) q = Inr (int ?m)"
    using main_op_of [OF Bin.prems(1,2) _ Bin.prems(3)] ok by simp
  have "eval cfg ts (int (Suc ?m)) q s' = meaning cfg r s'" for s'
    using eval_wrap [OF sr ok(2) q] Bin.IH(2) ok by simp
  moreover have "eval cfg ts (int p) (int ?m - 1) s' = meaning cfg l s'" for s'
    using eval_wrap [OF sl ok(1)] Bin.IH(1) ok by simp
  moreover have "check_parantheses ts (int p) q = Inr 0"
    using check_unwrapped [OF Bin.prems(1,2) _ Bin.prems(3)] by simp
  moreover have "int p < q" using q by (cases ?l) auto
  moreover have "tok ts (int p + int (length ?l)) = Inr (op_token t)"
    using tok_int [OF so(1), of ts] so(2) by simp
  ultimately show ?case
    using op t by (subst eval.simps) (auto simp: add.commute intro!: bindR_cong)
qed

section \<open>The lexer reads back what is written\<close>

text \<open>Tokens are spelled with a space after each; the lexer cannot tell a sign from an operator.\<close>

definition spell :: "Token list \<Rightarrow> string" where
  "spell ts = concat (map (\<lambda>t. tstr t @ '' '') ts)"

definition reg_texts :: "string list" where
  "reg_texts = [''$0'', ''$ra'', ''$sp'', ''$gp'', ''$tp'', ''$pc'',
     ''$t0'', ''$t1'', ''$t2'', ''$t3'', ''$t4'', ''$t5'', ''$t6'',
     ''$a0'', ''$a1'', ''$a2'', ''$a3'', ''$a4'', ''$a5'', ''$a6'', ''$a7'',
     ''$s0'', ''$s1'', ''$s2'', ''$s3'', ''$s4'', ''$s5'', ''$s6'', ''$s7'', ''$s8'', ''$s9'',
     ''$s10'', ''$s11'', ''mcause'', ''mtvec'', ''mtval'', ''mstatus'', ''mepc'']"

definition op_types :: "token_type list" where
  "op_types = [TK_EQ, TK_NOEQ, TK_AND, TK_OR, TK_CHAR CHR ''+'', TK_CHAR CHR ''-'',
     TK_CHAR CHR ''*'', TK_CHAR CHR ''/'', LPAR, RPAR, TK_NEGATIVE, TK_POINTER_DEREF]"

definition token_ok :: "Token \<Rightarrow> bool" where
  "token_ok t \<longleftrightarrow> length (tstr t) < 32 \<and>
     (if ttype t = TK_NUMBER then tstr t \<noteq> [] \<and> set (tstr t) \<subseteq> set digit_chars
      else if ttype t = TK_HEX then
        (\<exists>x ds. tstr t = CHR ''0'' # x # ds \<and> x \<in> {CHR ''x'', CHR ''X''} \<and> ds \<noteq> [] \<and>
           set ds \<subseteq> set hex_chars)
      else if ttype t = TK_REG then tstr t \<in> set reg_texts
      else ttype t \<in> set op_types \<and> tstr t = op_text (ttype t))"

definition lexed :: "Token \<Rightarrow> Token" where
  "lexed t = t\<lparr>ttype := (if ttype t = TK_NEGATIVE then TK_CHAR CHR ''-''
     else if ttype t = TK_POINTER_DEREF then TK_CHAR CHR ''*'' else ttype t)\<rparr>"

lemma fold_max_upt: "fold max [a..<b] (m :: nat) = (if a < b then max m (b - 1) else m)"
  by (induction b) (auto simp: max_def)

lemma many1_at_0:
  "regexec_at_0 (Many1 cs) s =
     (let n = length (takeWhile (\<lambda>c. c \<in> set cs) s) in if n = 0 then None else Some n)"
proof (cases "length (takeWhile (\<lambda>c. c \<in> set cs) s)")
  case 0
  then show ?thesis by (simp add: regexec_at_0_def)
next
  case (Suc n)
  then have "match_ends (Many1 cs) s = 1 # [2..<Suc (Suc n)]"
    by (simp add: upt_conv_Cons numeral_2_eq_2 del: upt_Suc)
  then show ?thesis using Suc by (simp add: regexec_at_0_def fold_max_upt del: match_ends.simps)
qed

lemma seq_lit_at_0:
  "regexec_at_0 (Lit w) s = (if take (length w) s = w then Some (length w) else None)"
  by (simp add: regexec_at_0_def)

lemma no_match: "match_ends r s = [] \<Longrightarrow> regexec_at_0 r s = None"
  by (simp add: regexec_at_0_def)

lemma reg_lexed:
  "w \<in> set reg_texts \<Longrightarrow> first_rule rules (w @ '' '' @ rest) = Some (length w, TK_REG)"
  unfolding reg_texts_def
  by (simp only: list.set insert_iff empty_iff simp_thms, elim disjE; hypsubst)
    (simp_all add: rules_def regexec_at_0_def reg_regex_def digit_chars_def)

lemma op_lexed:
  "t \<in> set op_types \<Longrightarrow>
   first_rule rules (op_text t @ '' '' @ rest) =
     Some (length (op_text t), ttype (lexed (op_token t)))"
  unfolding op_types_def
  by (simp only: list.set insert_iff empty_iff simp_thms, elim disjE; hypsubst)
    (simp_all add: rules_def regexec_at_0_def reg_regex_def digit_chars_def op_text_def op_token_def
      lexed_def LPAR_def RPAR_def)

lemma digit_not_special:
  "c \<in> set digit_chars \<Longrightarrow> c \<notin> {CHR '' '', CHR ''+'', CHR ''='', CHR ''!'', CHR ''&'', CHR ''|'', CHR ''-'',
     CHR ''*'', CHR ''/'', CHR ''('', CHR '')'', CHR ''$'', CHR ''m'', CHR ''x'', CHR ''X''}"
  by (auto simp: digit_chars_def)

lemma takeWhile_all: "set xs \<subseteq> set cs \<Longrightarrow> c \<notin> set cs \<Longrightarrow>
    takeWhile (\<lambda>c. c \<in> set cs) (xs @ c # rest) = xs"
  by (induction xs) auto

lemma number_lexed:
  assumes "w \<noteq> []" and "set w \<subseteq> set digit_chars"
  shows "first_rule rules (w @ '' '' @ rest) = Some (length w, TK_NUMBER)"
proof -
  obtain c cs where w: "w = c # cs" using assms(1) by (cases w) auto
  then have c: "c \<in> set digit_chars" using assms(2) by auto
  have sp: "CHR '' '' \<notin> set digit_chars" by (simp add: digit_chars_def)
  obtain d ds where d: "cs @ '' '' @ rest = d # ds" "d \<noteq> CHR ''x''" "d \<noteq> CHR ''X''"
  proof (cases cs)
    case (Cons d ds)
    then show ?thesis using that assms(2) w digit_not_special [of d] by auto
  qed auto
  have n: "regexec_at_0 (Many1 digit_chars) (w @ '' '' @ rest) = Some (length w)"
    using takeWhile_all [OF assms(2) sp, of rest] w by (simp add: many1_at_0)
  have "match_ends (Many1 '' '') (w @ '' '' @ rest) = []"
    using w digit_not_special [OF c] by simp
  moreover have "match_ends reg_regex (w @ '' '' @ rest) = []"
    using w digit_not_special [OF c] by (auto simp: reg_regex_def)
  moreover have "match_ends (Seq (Lit ''0'') (Seq (One_of ''xX'') (Many1 hex_chars)))
      (w @ '' '' @ rest) = []"
    using w d by simp
  ultimately show ?thesis
    using n w digit_not_special [OF c]
    by (simp add: rules_def no_match seq_lit_at_0 del: match_ends.simps)
qed

lemma map_add2_upt: "map (\<lambda>k. k + 2) [a..<b] = [a + 2..<b + 2]"
  by (induction b) auto

lemma hex_lexed:
  assumes "x \<in> {CHR ''x'', CHR ''X''}" and "ds \<noteq> []" and "set ds \<subseteq> set hex_chars"
  shows "first_rule rules (CHR ''0'' # x # ds @ '' '' @ rest) = Some (length ds + 2, TK_HEX)"
proof -
  let ?s = "CHR ''0'' # x # ds @ '' '' @ rest"
  have sp: "CHR '' '' \<notin> set hex_chars" by (simp add: hex_chars_def)
  have tw: "takeWhile (\<lambda>c. c \<in> set hex_chars) (ds @ '' '' @ rest) = ds"
    using takeWhile_all [OF assms(3) sp, of rest] by simp
  obtain n where n: "length ds = Suc n" using assms(2) by (cases ds) auto
  have "match_ends (Many1 hex_chars) (ds @ '' '' @ rest) = [1..<Suc (length ds)]"
    by (simp only: match_ends.simps tw)
  then have "match_ends (Seq (Lit ''0'') (Seq (One_of ''xX'') (Many1 hex_chars))) ?s =
      map (\<lambda>k. k + 2) [1..<Suc (length ds)]"
    using assms(1) by (auto simp: numeral_2_eq_2 simp del: upt_Suc)
  also have "\<dots> = [1 + 2..<Suc (length ds) + 2]" by (rule map_add2_upt)
  also have "\<dots> = (1 + 2) # [Suc (1 + 2)..<Suc (length ds) + 2]"
    using n by (intro upt_conv_Cons) simp
  finally have h: "regexec_at_0 (Seq (Lit ''0'') (Seq (One_of ''xX'') (Many1 hex_chars))) ?s =
      Some (length ds + 2)"
    using n by (simp add: regexec_at_0_def fold_max_upt del: match_ends.simps)
  have "match_ends reg_regex ?s = []" by (auto simp: reg_regex_def)
  with h show ?thesis
    by (simp add: rules_def no_match seq_lit_at_0 many1_at_0 del: match_ends.simps)
qed

lemma token_lexed:
  "token_ok t \<Longrightarrow> first_rule rules (tstr t @ '' '' @ rest) = Some (length (tstr t), ttype (lexed t))"
proof -
  assume t: "token_ok t"
  consider "ttype t = TK_NUMBER" | "ttype t = TK_HEX" | "ttype t = TK_REG"
    | "ttype t \<in> set op_types" "tstr t = op_text (ttype t)"
      "ttype t \<noteq> TK_NUMBER" "ttype t \<noteq> TK_HEX" "ttype t \<noteq> TK_REG"
    using t by (auto simp: token_ok_def split: if_splits)
  then show ?thesis
  proof cases
    case 1
    with t show ?thesis using number_lexed [of "tstr t" rest] by (simp add: token_ok_def lexed_def)
  next
    case 2
    with t obtain x ds where "tstr t = CHR ''0'' # x # ds" "x \<in> {CHR ''x'', CHR ''X''}" "ds \<noteq> []"
      "set ds \<subseteq> set hex_chars" by (auto simp: token_ok_def)
    with 2 show ?thesis using hex_lexed [of x ds rest] by (simp add: lexed_def)
  next
    case 3
    with t show ?thesis using reg_lexed [of "tstr t" rest] by (simp add: token_ok_def lexed_def)
  next
    case 4
    then show ?thesis using op_lexed [OF 4(1), of rest] by (simp add: lexed_def op_token_def)
  qed
qed

lemma token_ok_nonempty: "token_ok t \<Longrightarrow> tstr t \<noteq> []"
  by (auto simp: token_ok_def reg_texts_def op_types_def op_text_def LPAR_def RPAR_def split: if_splits)

lemma token_no_space: "token_ok t \<Longrightarrow> hd (tstr t) \<noteq> CHR '' ''"
proof -
  assume t: "token_ok t"
  show ?thesis
  proof
    assume "hd (tstr t) = CHR '' ''"
    then obtain cs where "tstr t = CHR '' '' # cs"
      using token_ok_nonempty [OF t] by (cases "tstr t") auto
    then have "first_rule rules (tstr t @ '' '' @ []) = Some (Suc (length (takeWhile (\<lambda>c. c = CHR '' '') (cs @ '' ''))), TK_NOTYPE)"
      by (simp add: rules_def many1_at_0 Let_def)
    with token_lexed [OF t, of "[]"] have "ttype (lexed t) = TK_NOTYPE" by simp
    with t show False
      by (auto simp: lexed_def token_ok_def op_types_def LPAR_def RPAR_def split: if_splits)
  qed
qed

lemma lexed_not_space: "token_ok t \<Longrightarrow> ttype (lexed t) \<noteq> TK_NOTYPE"
  by (auto simp: lexed_def token_ok_def op_types_def LPAR_def RPAR_def split: if_splits)

lemma spell_no_space: "\<forall>t \<in> set ts. token_ok t \<Longrightarrow> spell ts = [] \<or> hd (spell ts) \<noteq> CHR '' ''"
  using token_no_space token_ok_nonempty by (cases ts) (auto simp: spell_def hd_append)

lemma skip_space:
  assumes "e = [] \<or> hd e \<noteq> CHR '' ''"
  shows "make_token_from (CHR '' '' # e) nr ts = make_token_from e nr ts"
proof -
  have "takeWhile (\<lambda>c. c \<in> set '' '') e = []" using assms by (cases e) auto
  then have "first_rule rules (CHR '' '' # e) = Some (1, TK_NOTYPE)"
    by (simp add: rules_def many1_at_0)
  then show ?thesis by (subst make_token_from.simps) simp
qed

definition put_tokens :: "nat \<Rightarrow> Token list \<Rightarrow> token_array \<Rightarrow> token_array" where
  "put_tokens nr xs ts = (\<lambda>i. if nr \<le> i \<and> i < nr + length xs then xs ! (i - nr) else ts i)"

lemma put_tokens_Cons: "put_tokens (Suc nr) xs (ts(nr := x)) = put_tokens nr (x # xs) ts"
  by (auto simp: put_tokens_def fun_eq_iff nth_Cons')

lemma make_token_spell:
  "\<forall>t \<in> set xs. token_ok t \<Longrightarrow> nr + length xs \<le> NR_TOKENS \<Longrightarrow>
   make_token_from (spell xs) nr ts = Inr (True, put_tokens nr (map lexed xs) ts, nr + length xs)"
proof (induction xs arbitrary: nr ts)
  case Nil
  then show ?case
    by (subst make_token_from.simps) (auto simp: spell_def put_tokens_def fun_eq_iff)
next
  case (Cons x xs)
  have x: "token_ok x" using Cons.prems by simp
  have len: "length (tstr x) < 32" using x by (simp add: token_ok_def)
  have sp: "spell (x # xs) = tstr x @ '' '' @ spell xs" by (simp add: spell_def)
  have lx: "\<lparr>ttype = ttype (lexed x), tstr = tstr x\<rparr> = lexed x" by (simp add: lexed_def)
  have "make_token_from (spell (x # xs)) nr ts =
      make_token_from (CHR '' '' # spell xs) (Suc nr) (ts(nr := lexed x))"
    using token_lexed [OF x, of "spell xs"] token_ok_nonempty [OF x] lexed_not_space [OF x] len lx
      Cons.prems
    by (subst make_token_from.simps) (simp add: sp)
  also have "\<dots> = make_token_from (spell xs) (Suc nr) (ts(nr := lexed x))"
    using spell_no_space [of xs] Cons.prems by (intro skip_space) auto
  finally show ?case using Cons by (simp add: put_tokens_Cons)
qed

section \<open>Telling signs from operators\<close>

definition ends_operand :: "Token \<Rightarrow> bool" where
  "ends_operand t \<longleftrightarrow> ttype t = RPAR \<or> ttype t = TK_NUMBER"

fun signs_ok :: "bool \<Rightarrow> Token list \<Rightarrow> bool" where
  "signs_ok b [] \<longleftrightarrow> True"
| "signs_ok b (t # ts) \<longleftrightarrow>
     (ttype t \<in> {TK_NEGATIVE, TK_POINTER_DEREF} \<longrightarrow> \<not> b) \<and>
     (ttype t \<in> {TK_CHAR CHR ''-'', TK_CHAR CHR ''*''} \<longrightarrow> b) \<and> signs_ok (ends_operand t) ts"

text \<open>
  The left operand of \<open>-\<close> and \<open>*\<close> must end with a number or a parenthesis for the pass in
  \<open>expr\<close> to leave the operator alone: after a register or a hexadecimal number it becomes
  a sign.
\<close>

fun operators_safe :: "ast \<Rightarrow> bool" where
  "operators_safe (Leaf t) \<longleftrightarrow> True"
| "operators_safe (Neg e) \<longleftrightarrow> operators_safe e"
| "operators_safe (Deref e) \<longleftrightarrow> operators_safe e"
| "operators_safe (Bin t l r) \<longleftrightarrow> operators_safe l \<and> operators_safe r \<and>
     (t \<in> {TK_CHAR CHR ''-'', TK_CHAR CHR ''*''} \<longrightarrow>
        ends_operand (last (wrap (token_level t) l (written l))))"

lemma signs_append:
  "xs \<noteq> [] \<Longrightarrow> signs_ok b (xs @ ys) \<longleftrightarrow> signs_ok b xs \<and> signs_ok (ends_operand (last xs)) ys"
  by (induction xs arbitrary: b rule: list_nonempty_induct) auto

lemma signs_wrap: "signs_ok False (written e) \<Longrightarrow> signs_ok False (wrap k e (written e))"
  by (auto simp: wrap_def signs_append ends_operand_def LPAR_def RPAR_def op_token_def)

lemma signs_written: "ast_ok e \<Longrightarrow> operators_safe e \<Longrightarrow> signs_ok False (written e)"
proof (induction e)
  case (Bin t l r)
  then have 1: "signs_ok False (wrap (token_level t) l (written l))"
    "signs_ok False (wrap (token_level t - 1) r (written r))"
    by (auto intro: signs_wrap)
  have 2: "t \<notin> {TK_NEGATIVE, TK_POINTER_DEREF}" "\<not> ends_operand (op_token t)"
    using Bin.prems by (auto simp: token_level_def ends_operand_def op_token_def RPAR_def)
  show ?case
    using 1 2 Bin.prems by (simp add: signs_append)
qed (auto simp: ends_operand_def op_token_def RPAR_def intro!: signs_wrap)

lemma signs_nth: "signs_ok b xs \<Longrightarrow> k < length xs \<Longrightarrow>
   (ttype (xs ! k) \<in> {TK_NEGATIVE, TK_POINTER_DEREF} \<longrightarrow>
      \<not> (if k = 0 then b else ends_operand (xs ! (k - 1)))) \<and>
   (ttype (xs ! k) \<in> {TK_CHAR CHR ''-'', TK_CHAR CHR ''*''} \<longrightarrow>
      (if k = 0 then b else ends_operand (xs ! (k - 1))))"
proof (induction xs arbitrary: b k)
  case (Cons x xs)
  show ?case
  proof (cases k)
    case (Suc j)
    with Cons.prems Cons.IH [of "ends_operand x" j] show ?thesis
      by (cases j) auto
  qed (use Cons.prems in auto)
qed simp

definition marked :: "Token list \<Rightarrow> token_array \<Rightarrow> nat \<Rightarrow> token_array" where
  "marked xs ts k = (\<lambda>i. if i < k then xs ! i else put_tokens 0 (map lexed xs) ts i)"

lemma mark_step:
  assumes "signs_ok False xs" and "k < length xs"
  shows "mark_unary (marked xs ts k) k = marked xs ts (Suc k)"
proof -
  let ?x = "xs ! k" and ?m = "marked xs ts k"
  have mk: "?m k = lexed ?x" using assms(2) by (simp add: marked_def put_tokens_def)
  have prev: "k \<noteq> 0 \<Longrightarrow> ?m (k - 1) = xs ! (k - 1)" by (simp add: marked_def)
  have upd: "marked xs ts (Suc k) = ?m(k := ?x)"
    by (auto simp: marked_def fun_eq_iff less_Suc_eq)
  note s = signs_nth [OF assms]
  consider "ttype ?x = TK_NEGATIVE" | "ttype ?x = TK_POINTER_DEREF"
    | "ttype ?x \<in> {TK_CHAR CHR ''-'', TK_CHAR CHR ''*''}" "lexed ?x = ?x"
    | "ttype ?x \<notin> {TK_CHAR CHR ''-'', TK_CHAR CHR ''*''}" "lexed ?x = ?x"
    by (cases "ttype ?x") (auto simp: lexed_def)
  then show ?thesis
  proof cases
    case 1
    with s mk prev show ?thesis
      by (auto simp: upd mark_unary_def lexed_def ends_operand_def split: if_splits)
  next
    case 2
    with s mk prev show ?thesis
      by (auto simp: upd mark_unary_def lexed_def ends_operand_def split: if_splits)
  next
    case 3
    with s mk prev show ?thesis
      by (auto simp: upd mark_unary_def ends_operand_def fun_eq_iff split: if_splits)
  next
    case 4
    with mk show ?thesis by (auto simp: upd mark_unary_def fun_eq_iff)
  qed
qed

lemma mark_all:
  assumes "signs_ok False xs"
  shows "k \<le> length xs \<Longrightarrow>
    fold (\<lambda>i ts. mark_unary ts i) [0..<k] (put_tokens 0 (map lexed xs) ts) = marked xs ts k"
proof (induction k)
  case (Suc k)
  then show ?case using mark_step [OF assms, of k ts] by simp
qed (auto simp: marked_def)

lemma seg_marked: "length xs \<le> NR_TOKENS \<Longrightarrow> seg (marked xs ts (length xs)) 0 xs"
proof -
  have "p + length ys \<le> NR_TOKENS \<Longrightarrow> (\<And>i. i < length ys \<Longrightarrow> a (p + i) = ys ! i) \<Longrightarrow> seg a p ys"
    for a :: token_array and p ys
  proof (induction ys arbitrary: p)
    case (Cons y ys)
    then show ?case using Cons.prems(2) [of 0] Cons.prems(2) [of "Suc _"] by force
  qed simp
  from this [of 0 xs] show "length xs \<le> NR_TOKENS \<Longrightarrow> seg (marked xs ts (length xs)) 0 xs"
    by (auto simp: marked_def)
qed

lemma expr_written:
  assumes "ast_ok e" and "operators_safe e" and "\<forall>t \<in> set (written e). token_ok t"
    and "length (written e) \<le> NR_TOKENS"
  shows "expr cfg (spell (written e)) ts s =
    bindR (meaning cfg e s) (\<lambda>(v, t).
    Inr (word_of_int v, True, marked (written e) ts (length (written e)), t))"
proof -
  let ?xs = "written e"
  have "make_token (spell ?xs) ts = Inr (True, put_tokens 0 (map lexed ?xs) ts, length ?xs)"
    using make_token_spell [of ?xs 0 ts] assms(3,4) by (simp add: make_token_def)
  moreover have "eval cfg (marked ?xs ts (length ?xs)) 0 (int (length ?xs) - 1) s = meaning cfg e s"
    using eval_written [OF seg_marked [OF assms(4), of ts] assms(1),
        where q = "int (length ?xs) - 1" and cfg = cfg and s = s] by simp
  moreover have "fold (\<lambda>i ts. mark_unary ts i) [0..<length ?xs] (put_tokens 0 (map lexed ?xs) ts) =
      marked ?xs ts (length ?xs)"
    by (rule mark_all) (simp_all add: signs_written assms)
  ultimately show ?thesis by (simp add: expr_def)
qed

definition num :: "string \<Rightarrow> ast" where
  "num w = Leaf \<lparr>ttype = TK_NUMBER, tstr = w\<rparr>"



lemma sign_after_operand:
  assumes "first_rule rules w = Some (n, ty)" and "ty \<in> {TK_REG, TK_HEX}" and "n < 32"
    and "drop n w = ''-1''"
  shows "\<exists>ts'. expr cfg w ts s = Inr (- 1, True, ts', s)"
proof -
  let ?a = "\<lparr>ttype = ty, tstr = take n w\<rparr>" and ?b = "\<lparr>ttype = TK_NEGATIVE, tstr = ''-''\<rparr>"
    and ?c = "\<lparr>ttype = TK_NUMBER, tstr = ''1''\<rparr>"
  let ?ts = "ts(0 := ?a, 1 := ?b, 2 := ?c)"
  have w: "w \<noteq> []" using assms(4) by auto
  have 1: "first_rule rules ''-1'' = Some (1, TK_CHAR CHR ''-'')" "first_rule rules ''1'' = Some (1, TK_NUMBER)"
    by (simp_all add: rules_def regexec_at_0_def reg_regex_def digit_chars_def)
  have "make_token w ts = Inr (True, ts(0 := ?a, 1 := ?b\<lparr>ttype := TK_CHAR CHR ''-''\<rparr>, 2 := ?c), 3)"
    using assms w 1
    by (auto simp: make_token_def NR_TOKENS_def make_token_from.simps [of w] make_token_from.simps [of "''-1''"]
        make_token_from.simps [of "''1''"] make_token_from.simps [of "[]"])
  moreover have "fold (\<lambda>i ts. mark_unary ts i) [0..<3]
      (ts(0 := ?a, 1 := ?b\<lparr>ttype := TK_CHAR CHR ''-''\<rparr>, 2 := ?c)) = ?ts"
    using assms(2) by (auto simp: mark_unary_def numeral_3_eq_3 RPAR_def)
  moreover have "eval cfg ?ts 0 2 s = Inr (- 1, s)"
  proof -
    have sg: "seg ?ts 0 [?a, ?b, ?c]" by (simp add: NR_TOKENS_def numeral_2_eq_2)
    have "count_par ?ts 0 2 0 = Inr (Some 0)"
      using count_par_seg [OF sg, of 2 0] assms(2) by (auto simp: LPAR_def RPAR_def)
    then have "check_parantheses ?ts 0 2 = Inr 0"
      using tok_int [of 0 ?ts] assms(2)
      by (subst check_parantheses.simps) (auto simp: NR_TOKENS_def LPAR_def)
    moreover have "find_main_op_pos ?ts 0 2 = Inr 1"
      using main_op_token [of ?ts 0 ?a "[?b, ?c]" 2 "- 1" "- 1"]
        main_op_token [of ?ts 1 ?b "[?c]" 2 0 0] main_op_token [of ?ts 2 ?c "[]" 2 1 1] sg assms(2)
      by (auto simp: find_main_op_pos_def token_level_def LPAR_def numeral_2_eq_2
          main_op_from.simps [of _ 3])
    moreover have "eval cfg ?ts 2 2 s = Inr (1, s)"
      using tok_int [of 2 ?ts]
      by (subst eval.simps) (simp add: NR_TOKENS_def token_value_def strtol_digits_def digit_value_def to_int_def)
    moreover have "tok ?ts 1 = Inr ?b"
      using tok_int [of 1 ?ts] by (simp add: NR_TOKENS_def)
    ultimately show ?thesis by (subst eval.simps) (simp add: c_int_def)
  qed
  ultimately show ?thesis by (simp add: expr_def)
qed


end
