(* ===== verification/Sdb_Watchpoint.thy ===== *)
theory Sdb_Watchpoint
  imports Sdb_Expr
begin

text \<open>
  The watchpoint pool of the debugger, \<open>nemu/src/monitor/sdb/watchpoint.c\<close>: 32 slots
  linked into a list of active and a list of free watchpoints by index pointers. The two
  lists it represents are its abstraction; a locale states the contract of such a pool.
\<close>

section \<open>The pool\<close>

definition NR_WP :: nat where
  "NR_WP = 32"

text \<open>A pointer into \<open>wp_pool\<close> is an index; \<open>expression\<close> is a buffer of 256 characters.\<close>

record WP =
  wp_NO :: int
  wp_next :: "nat option"
  wp_expression :: string
  wp_value :: u32

record sdb_state =
  wp_pool :: "nat \<Rightarrow> WP"
  wp_head :: "nat option"
  wp_free :: "nat option"
  tokens :: token_array

definition set_next :: "nat \<Rightarrow> nat option \<Rightarrow> sdb_state \<Rightarrow> sdb_state" where
  "set_next i p b = b\<lparr>wp_pool := (wp_pool b)(i := (wp_pool b i)\<lparr>wp_next := p\<rparr>)\<rparr>"

text \<open>\<open>expression\<close> is a fresh allocation, whose contents are not read before they are set.\<close>

definition init_wp_pool :: "sdb_state \<Rightarrow> sdb_state" where
  "init_wp_pool b =
     b\<lparr>wp_pool := (\<lambda>i. if i < NR_WP
          then (wp_pool b i)\<lparr>wp_NO := int i,
                 wp_next := (if i = NR_WP - 1 then None else Some (i + 1)), wp_expression := []\<rparr>
          else wp_pool b i),
       wp_head := None, wp_free := Some 0\<rparr>"

definition new_wp :: "sdb_state \<Rightarrow> (nat \<times> sdb_state) result" where
  "new_wp b =
     (case wp_free b of
        None \<Rightarrow> Inl (Assert_failed ''new_wp'')
      | Some pos \<Rightarrow>
          let b = b\<lparr>wp_free := wp_next (wp_pool b pos)\<rparr>;
              b = set_next pos (wp_head b) b
          in Inr (pos, b\<lparr>wp_head := Some pos\<rparr>))"

text \<open>
  The search for the predecessor of a slot in the list of active ones: \<open>None\<close> if it never
  returns, \<open>Some None\<close> if the end of the list is reached.
\<close>

partial_function (option) find_prev ::
    "(nat \<Rightarrow> WP) \<Rightarrow> nat option \<Rightarrow> nat \<Rightarrow> nat option option" where
  "find_prev pool pos wp =
     (case pos of
        None \<Rightarrow> Some None
      | Some i \<Rightarrow>
          if wp_next (pool i) \<noteq> Some wp then find_prev pool (wp_next (pool i)) wp
          else Some (Some i))"

definition free_wp :: "nat \<Rightarrow> sdb_state \<Rightarrow> sdb_state result option" where
  "free_wp wp b =
     (let put_free = (\<lambda>b. (set_next wp (wp_free b) b)\<lparr>wp_free := Some wp\<rparr>) in
      if Some wp = wp_head b
      then Some (Inr (put_free (b\<lparr>wp_head := wp_next (wp_pool b wp)\<rparr>)))
      else map_option
        (\<lambda>pos. case pos of
           None \<Rightarrow> Inl (Assert_failed ''free_wp'')
         | Some i \<Rightarrow> Inr (put_free (set_next i (wp_next (wp_pool b wp)) b)))
        (find_prev (wp_pool b) (wp_head b) wp))"

definition wp_set :: "string \<Rightarrow> u32 \<Rightarrow> sdb_state \<Rightarrow> sdb_state result" where
  "wp_set args res b =
     bindR (new_wp b) (\<lambda>(wp, b).
     if 256 \<le> length args then Inl (Undefined ''wp expression buffer'')
     else Inr (b\<lparr>wp_pool := (wp_pool b)(wp := (wp_pool b wp)\<lparr>wp_expression := args, wp_value := res\<rparr>)\<rparr>))"

definition wp_remove :: "int \<Rightarrow> sdb_state \<Rightarrow> sdb_state result option" where
  "wp_remove no b =
     (if no < 0 \<or> no \<ge> int NR_WP then Some (Inr b) else free_wp (nat no) b)"

text \<open>
  The re-evaluation of the active watchpoints, counting those whose value has changed. A
  failed or undefined evaluation stops it; \<open>None\<close> is a list without end.
\<close>

partial_function (option) wp_difftest_from ::
    "config \<Rightarrow> nat option \<Rightarrow> nat \<Rightarrow> sdb_state \<Rightarrow> system \<Rightarrow> (nat \<times> sdb_state \<times> system) result option"
where
  "wp_difftest_from cfg pos diffnum b s =
     (case pos of
        None \<Rightarrow> Some (Inr (diffnum, b, s))
      | Some i \<Rightarrow>
          case expr cfg (wp_expression (wp_pool b i)) (tokens b) s of
            Inl e \<Rightarrow> Some (Inl e)
          | Inr (new_value, ok, ts, s) \<Rightarrow>
              let b = b\<lparr>tokens := ts\<rparr> in
              if wp_value (wp_pool b i) \<noteq> new_value
              then wp_difftest_from cfg (wp_next (wp_pool b i)) (Suc diffnum)
                     (b\<lparr>wp_pool := (wp_pool b)(i := (wp_pool b i)\<lparr>wp_value := new_value\<rparr>)\<rparr>) s
              else wp_difftest_from cfg (wp_next (wp_pool b i)) diffnum b s)"

definition wp_difftest ::
    "config \<Rightarrow> sdb_state \<Rightarrow> system \<Rightarrow> (nat \<times> sdb_state \<times> system) result option" where
  "wp_difftest cfg b s =
     (if CONFIG_WATCHPOINT cfg then wp_difftest_from cfg (wp_head b) 0 b s else Some (Inr (0, b, s)))"

text \<open>The lines \<open>info_watchpoint\<close> and \<open>wp_print\<close> print: the active list in order.\<close>

partial_function (option) wp_lines ::
    "(nat \<Rightarrow> WP) \<Rightarrow> nat option \<Rightarrow> WP list \<Rightarrow> WP list option" where
  "wp_lines pool pos acc =
     (case pos of None \<Rightarrow> Some acc | Some i \<Rightarrow> wp_lines pool (wp_next (pool i)) (acc @ [pool i]))"

definition info_watchpoint :: "sdb_state \<Rightarrow> (int \<times> string) list option" where
  "info_watchpoint b = map_option (map (\<lambda>w. (wp_NO w, wp_expression w))) (wp_lines (wp_pool b) (wp_head b) [])"

definition wp_print :: "sdb_state \<Rightarrow> (string \<times> u32) list option" where
  "wp_print b = map_option (map (\<lambda>w. (wp_expression w, wp_value w))) (wp_lines (wp_pool b) (wp_head b) [])"

section \<open>The lists the pool represents\<close>

fun linked :: "(nat \<Rightarrow> WP) \<Rightarrow> nat option \<Rightarrow> nat list \<Rightarrow> bool" where
  "linked pool p [] \<longleftrightarrow> p = None"
| "linked pool p (i # is) \<longleftrightarrow> p = Some i \<and> linked pool (wp_next (pool i)) is"

text \<open>\<open>active\<close> and \<open>free\<close> list the slots in use, newest first, and the slots to hand out.\<close>

definition pool_repr :: "sdb_state \<Rightarrow> nat list \<Rightarrow> nat list \<Rightarrow> bool" where
  "pool_repr b active free \<longleftrightarrow>
     linked (wp_pool b) (wp_head b) active \<and> linked (wp_pool b) (wp_free b) free \<and>
     distinct (active @ free) \<and> set (active @ free) = {0..<NR_WP}"

lemma linked_upd [simp]:
  "i \<notin> set is \<Longrightarrow> linked (pool(i := w)) p is = linked pool p is"
  by (induction "is" arbitrary: p) auto

lemma linked_append:
  "linked pool p (is @ j # js) \<Longrightarrow> linked pool (Some j) (j # js)"
  by (induction "is" arbitrary: p) auto

lemma linked_splice:
  "linked pool p (is @ i # x # js) \<Longrightarrow> distinct (is @ i # x # js) \<Longrightarrow>
   linked (pool(i := (pool i)\<lparr>wp_next := wp_next (pool x)\<rparr>)) p (is @ i # js)"
  by (induction "is" arbitrary: p) auto

lemma find_prev_found:
  "linked pool p (is @ i # x # js) \<Longrightarrow> distinct (is @ i # x # js) \<Longrightarrow>
   find_prev pool p x = Some (Some i)"
proof (induction "is" arbitrary: p)
  case Nil
  then show ?case by (subst find_prev.simps) simp
next
  case (Cons k "is")
  then have "wp_next (pool k) \<noteq> Some x" by (cases "is") auto
  with Cons show ?case by (subst find_prev.simps) simp
qed

lemma find_prev_missing:
  "linked pool p is \<Longrightarrow> x \<notin> set is \<Longrightarrow> find_prev pool p x = Some None"
proof (induction "is" arbitrary: p)
  case Nil
  then show ?case by (subst find_prev.simps) simp
next
  case (Cons k "is")
  then have "wp_next (pool k) \<noteq> Some x" by (cases "is") auto
  with Cons show ?case by (subst find_prev.simps) simp
qed

lemma wp_lines_linked: "linked pool p is \<Longrightarrow> wp_lines pool p acc = Some (acc @ map pool is)"
proof (induction "is" arbitrary: p acc)
  case Nil
  then show ?case by (subst wp_lines.simps) simp
next
  case (Cons i "is")
  then show ?case by (subst wp_lines.simps) simp
qed

lemma pool_repr_tokens [simp]: "pool_repr (b\<lparr>tokens := ts\<rparr>) a f = pool_repr b a f"
  by (simp add: pool_repr_def)

lemma init_pool_repr: "pool_repr (init_wp_pool b) [] [0..<NR_WP]"
proof -
  have "k \<le> NR_WP \<Longrightarrow> linked (wp_pool (init_wp_pool b)) (if k = 0 then None else Some (NR_WP - k))
      [NR_WP - k..<NR_WP]" for k
  proof (induction k)
    case (Suc k)
    have "[NR_WP - Suc k..<NR_WP] = (NR_WP - Suc k) # [NR_WP - k..<NR_WP]"
      using Suc.prems by (subst upt_conv_Cons) (auto simp: Suc_diff_Suc)
    moreover have "wp_next (wp_pool (init_wp_pool b) (NR_WP - Suc k)) =
        (if k = 0 then None else Some (NR_WP - k))"
      using Suc.prems by (auto simp: init_wp_pool_def)
    ultimately show ?case using Suc by simp
  qed simp
  from this [of NR_WP] show ?thesis
    by (simp add: pool_repr_def init_wp_pool_def NR_WP_def)
qed

lemma new_wp_repr:
  "pool_repr b a (x # f) \<Longrightarrow> \<exists>b'. new_wp b = Inr (x, b') \<and> pool_repr b' (x # a) f \<and>
     tokens b' = tokens b \<and> (\<forall>i. wp_value (wp_pool b' i) = wp_value (wp_pool b i) \<and>
       wp_expression (wp_pool b' i) = wp_expression (wp_pool b i))"
  by (auto simp: pool_repr_def new_wp_def set_next_def Let_def)

lemma new_wp_full: "pool_repr b a [] \<Longrightarrow> new_wp b = Inl (Assert_failed ''new_wp'')"
  by (simp add: pool_repr_def new_wp_def)

lemma free_wp_repr:
  assumes "pool_repr b a f" and "x \<in> set a"
  shows "\<exists>b'. free_wp x b = Some (Inr b') \<and> pool_repr b' (remove1 x a) (x # f) \<and> tokens b' = tokens b"
proof -
  from assms(2) obtain ps js where a: "a = ps @ x # js" "x \<notin> set ps"
    by (meson split_list_first)
  show ?thesis
  proof (cases "ps = []")
    case True
    with a assms show ?thesis
      by (auto simp: pool_repr_def free_wp_def set_next_def Let_def)
  next
    case False
    then obtain "is" i where ps: "ps = is @ [i]" by (metis append_butlast_last_id)
    have l: "linked (wp_pool b) (wp_head b) (is @ i # x # js)" and d: "distinct (is @ i # x # js)"
      using assms(1) a ps by (auto simp: pool_repr_def)
    have h: "wp_head b \<noteq> Some x" using l d by (cases "is") auto
    have "free_wp x b = Some (Inr ((set_next x (wp_free b) (set_next i (wp_next (wp_pool b x)) b))\<lparr>wp_free := Some x\<rparr>))"
      using find_prev_found [OF l d] h by (auto simp: free_wp_def Let_def set_next_def)
    moreover have "pool_repr ((set_next x (wp_free b) (set_next i (wp_next (wp_pool b x)) b))\<lparr>wp_free := Some x\<rparr>)
        (remove1 x a) (x # f)"
      using assms(1) a ps linked_splice [OF l d]
      by (auto simp: pool_repr_def set_next_def remove1_append)
    ultimately show ?thesis by (auto simp: set_next_def)
  qed
qed

lemma free_wp_unused:
  assumes "pool_repr b a f" and "x \<notin> set a"
  shows "free_wp x b = Some (Inl (Assert_failed ''free_wp''))"
proof -
  have l: "linked (wp_pool b) (wp_head b) a" using assms(1) by (simp add: pool_repr_def)
  have "wp_head b \<noteq> Some x" using l assms(2) by (cases a) auto
  with find_prev_missing [OF l assms(2)] show ?thesis by (simp add: free_wp_def Let_def)
qed

section \<open>Slot pools\<close>

text \<open>
  The contract of a pool of slots with an active list and a free list: allocating takes the
  first free slot and puts it at the front of the active ones, releasing an active slot
  makes it the first free one, allocating from an exhausted pool and releasing a slot not in
  use fail. A release returns an option because it searches a linked list.
\<close>

datatype 'p pool_op = Alloc 'p | Release nat

fun pool_spec :: "'p pool_op \<Rightarrow> nat list \<times> nat list \<Rightarrow> (nat list \<times> nat list) option" where
  "pool_spec (Alloc p) (a, []) = None"
| "pool_spec (Alloc p) (a, x # f) = Some (x # a, f)"
| "pool_spec (Release x) (a, f) = (if x \<in> set a then Some (remove1 x a, x # f) else None)"

fun pool_spec_run :: "'p pool_op list \<Rightarrow> nat list \<times> nat list \<Rightarrow> (nat list \<times> nat list) option" where
  "pool_spec_run [] l = Some l"
| "pool_spec_run (c # cs) l = Option.bind (pool_spec c l) (pool_spec_run cs)"

fun pool_step ::
    "('p \<Rightarrow> 's \<Rightarrow> 's result) \<Rightarrow> (nat \<Rightarrow> 's \<Rightarrow> 's result option) \<Rightarrow> 'p pool_op \<Rightarrow> 's \<Rightarrow> 's result option" where
  "pool_step alloc release (Alloc p) b = Some (alloc p b)"
| "pool_step alloc release (Release x) b = release x b"

fun pool_run ::
    "('p \<Rightarrow> 's \<Rightarrow> 's result) \<Rightarrow> (nat \<Rightarrow> 's \<Rightarrow> 's result option) \<Rightarrow> 'p pool_op list \<Rightarrow> 's \<Rightarrow> 's result option" where
  "pool_run alloc release [] b = Some (Inr b)"
| "pool_run alloc release (c # cs) b =
     (case pool_step alloc release c b of
        None \<Rightarrow> None
      | Some (Inl e) \<Rightarrow> Some (Inl e)
      | Some (Inr b) \<Rightarrow> pool_run alloc release cs b)"

locale slot_pool =
  fixes alloc :: "'p \<Rightarrow> 's \<Rightarrow> 's result"
    and release :: "nat \<Rightarrow> 's \<Rightarrow> 's result option"
    and fits :: "'p \<Rightarrow> bool"
    and repr :: "'s \<Rightarrow> nat list \<Rightarrow> nat list \<Rightarrow> bool"
  assumes alloc_ok: "repr b a (x # f) \<Longrightarrow> fits p \<Longrightarrow> \<exists>b'. alloc p b = Inr b' \<and> repr b' (x # a) f"
    and alloc_full: "repr b a [] \<Longrightarrow> \<exists>e. alloc p b = Inl e"
    and release_ok: "repr b a f \<Longrightarrow> x \<in> set a \<Longrightarrow>
      \<exists>b'. release x b = Some (Inr b') \<and> repr b' (remove1 x a) (x # f)"
    and release_unused: "repr b a f \<Longrightarrow> x \<notin> set a \<Longrightarrow> \<exists>e. release x b = Some (Inl e)"
begin

definition op_fits :: "'p pool_op \<Rightarrow> bool" where
  "op_fits c \<longleftrightarrow> (case c of Alloc p \<Rightarrow> fits p | Release x \<Rightarrow> True)"

lemma step_refines:
  assumes "repr b a f" and "op_fits c"
  shows "case pool_spec c (a, f) of
      None \<Rightarrow> \<exists>e. pool_step alloc release c b = Some (Inl e)
    | Some (a', f') \<Rightarrow> \<exists>b'. pool_step alloc release c b = Some (Inr b') \<and> repr b' a' f'"
proof (cases c)
  case (Alloc p)
  then show ?thesis
    using assms alloc_ok [of b a _ _ p] alloc_full [of b a p] by (cases f) (auto simp: op_fits_def)
next
  case (Release x)
  then show ?thesis
    using assms release_ok [of b a f x] release_unused [of b a f x] by auto
qed

lemma run_refines:
  "repr b a f \<Longrightarrow> \<forall>c \<in> set cs. op_fits c \<Longrightarrow>
   (case pool_spec_run cs (a, f) of
      None \<Rightarrow> \<exists>e. pool_run alloc release cs b = Some (Inl e)
    | Some (a', f') \<Rightarrow> \<exists>b'. pool_run alloc release cs b = Some (Inr b') \<and> repr b' a' f')"
proof (induction cs arbitrary: b a f)
  case (Cons c cs)
  have c: "op_fits c" "\<forall>c \<in> set cs. op_fits c" using Cons.prems(2) by auto
  show ?case
  proof (cases "pool_spec c (a, f)")
    case None
    then show ?thesis using step_refines [OF Cons.prems(1) c(1)] by auto
  next
    case (Some l)
    then obtain a1 f1 where l: "pool_spec c (a, f) = Some (a1, f1)" by (cases l) auto
    with step_refines [OF Cons.prems(1) c(1)] obtain b1
      where b1: "pool_step alloc release c b = Some (Inr b1)" "repr b1 a1 f1" by auto
    show ?thesis using Cons.IH [OF b1(2) c(2)] l b1(1) by (auto split: option.splits)
  qed
qed simp

end

lemma wp_set_repr:
  "pool_repr b a (x # f) \<Longrightarrow> length w < 256 \<Longrightarrow> \<exists>b'. wp_set w v b = Inr b' \<and> pool_repr b' (x # a) f"
  using new_wp_repr [of b a x f]
  by (auto simp: wp_set_def pool_repr_def)

interpretation watchpoints: slot_pool "\<lambda>(w, v). wp_set w v" free_wp "\<lambda>(w, v). length w < 256" pool_repr
proof
  fix b a x f and p :: "string \<times> u32"
  show "pool_repr b a (x # f) \<Longrightarrow> (case p of (w, v) \<Rightarrow> length w < 256) \<Longrightarrow>
      \<exists>b'. (case p of (w, v) \<Rightarrow> wp_set w v) b = Inr b' \<and> pool_repr b' (x # a) f"
    by (cases p) (simp add: wp_set_repr)
  show "pool_repr b a [] \<Longrightarrow> \<exists>e. (case p of (w, v) \<Rightarrow> wp_set w v) b = Inl e"
    by (cases p) (simp add: wp_set_def new_wp_full)
  show "pool_repr b a f \<Longrightarrow> x \<in> set a \<Longrightarrow>
      \<exists>b'. free_wp x b = Some (Inr b') \<and> pool_repr b' (remove1 x a) (x # f)"
    using free_wp_repr by blast
  show "pool_repr b a f \<Longrightarrow> x \<notin> set a \<Longrightarrow> \<exists>e. free_wp x b = Some (Inl e)"
    using free_wp_unused by blast
qed


definition sdb0 :: sdb_state where
  "sdb0 = \<lparr>wp_pool = (\<lambda>_. \<lparr>wp_NO = 0, wp_next = None, wp_expression = [], wp_value = 0\<rparr>),
     wp_head = None, wp_free = None, tokens = tokens0\<rparr>"


lemma linked_value:
  "linked (pool(i := (pool i)\<lparr>wp_value := v\<rparr>)) p is = linked pool p is"
proof (induction "is" arbitrary: p)
  case (Cons k "is")
  have "wp_next ((pool(i := (pool i)\<lparr>wp_value := v\<rparr>)) k) = wp_next (pool k)" by simp
  with Cons.IH show ?case by (simp only: linked.simps)
qed simp

text \<open>
  Re-evaluating the watchpoints goes once through the active list, whatever the expressions
  do; it changes only recorded values.
\<close>

lemma pool_repr_value [simp]:
  "pool_repr (b\<lparr>wp_pool := (wp_pool b)(i := (wp_pool b i)\<lparr>wp_value := v\<rparr>)\<rparr>) a f = pool_repr b a f"
  by (simp add: pool_repr_def linked_value)

lemma eval_frame: "eval cfg ts p q s = Inr (v, t) \<Longrightarrow> mem_frame s t"
proof (induction cfg ts p q s arbitrary: v t rule: eval.induct)
  case (1 cfg ts p q s)
  show ?case
  proof (cases "p < q \<and> 0 \<le> p")
    case False
    with "1.prems" show ?thesis
      by (subst (asm) eval.simps) (auto simp: result_simps split: if_splits)
  next
    case True
    then have c: "\<not> q < p" "\<not> p < 0" "p \<noteq> q" by auto
    from "1.prems" c obtain par where par: "check_parantheses ts p q = Inr par"
      by (subst (asm) eval.simps) (auto simp: result_simps)
    show ?thesis
    proof (cases "par = 1")
      case True
      with "1.prems" c par have "eval cfg ts (p + 1) (q - 1) s = Inr (v, t)"
        by (subst (asm) eval.simps) simp
      then show ?thesis using "1.IH"(1) [OF c par True] by blast
    next
      case False
      from "1.prems" c par False obtain op v2 u where op: "find_main_op_pos ts p q = Inr op" "op \<noteq> - 1"
        and v2: "eval cfg ts (op + 1) q s = Inr (v2, u)"
        by (subst (asm) eval.simps) (auto simp: result_simps split: if_splits)
      have u: "mem_frame s u" using "1.IH"(2) [OF c par False op(1,2) v2] .
      have "mem_frame u t"
        using "1.prems" c par False op v2 "1.IH"(3) [OF c par False op(1,2) v2 refl]
        by (subst (asm) eval.simps)
          (auto simp: result_simps dest: paddr_read_frame split: if_splits)
      with u show ?thesis by (rule mem_frame_trans)
    qed
  qed
qed

lemma expr_frame: "expr cfg e ts s = Inr (w, ok, ts', t) \<Longrightarrow> mem_frame s t"
  by (auto simp: expr_def result_simps Let_def dest: eval_frame split: if_splits)

lemma wp_difftest_from_total:
  "linked (wp_pool b) pos is \<Longrightarrow> pool_repr b a f \<Longrightarrow>
   \<exists>r. wp_difftest_from cfg pos k b s = Some r \<and>
     (\<forall>n b' s'. r = Inr (n, b', s') \<longrightarrow> pool_repr b' a f \<and> k \<le> n \<and> n \<le> k + length is \<and>
       (n = k \<longrightarrow> wp_pool b' = wp_pool b) \<and> mem_frame s s')"
proof (induction "is" arbitrary: pos k b s)
  case Nil
  then show ?case by (subst wp_difftest_from.simps) simp
next
  case (Cons i "is")
  then have pos: "pos = Some i" and l: "linked (wp_pool b) (wp_next (wp_pool b i)) is" by auto
  show ?case
  proof (cases "expr cfg (wp_expression (wp_pool b i)) (tokens b) s")
    case (Inl e)
    then show ?thesis using pos by (subst wp_difftest_from.simps) simp
  next
    case (Inr y)
    then obtain v ok ts t where e: "expr cfg (wp_expression (wp_pool b i)) (tokens b) s = Inr (v, ok, ts, t)"
      by (cases y) auto
    note fr = expr_frame [OF e]
    let ?b = "b\<lparr>tokens := ts\<rparr>"
    let ?b' = "?b\<lparr>wp_pool := (wp_pool ?b)(i := (wp_pool ?b i)\<lparr>wp_value := v\<rparr>)\<rparr>"
    show ?thesis
    proof (cases "wp_value (wp_pool b i) \<noteq> v")
      case True
      have "linked (wp_pool ?b') (wp_next (wp_pool b i)) is"
        using l linked_value [of "wp_pool b" i v] by simp
      moreover have "pool_repr ?b' a f" using Cons.prems(2) pool_repr_value [of ?b] by simp
      ultimately obtain r where 1: "wp_difftest_from cfg (wp_next (wp_pool b i)) (Suc k) ?b' t = Some r"
        and 2: "\<forall>n b' s'. r = Inr (n, b', s') \<longrightarrow> pool_repr b' a f \<and> Suc k \<le> n \<and> n \<le> Suc k + length is \<and> mem_frame t s'"
        using Cons.IH [of ?b' "wp_next (wp_pool b i)" "Suc k" t] by blast
      have "wp_difftest_from cfg pos k b s = Some r"
        using True e pos 1 by (subst wp_difftest_from.simps) (simp add: Let_def)
      then show ?thesis using 2 mem_frame_trans [OF fr] by (intro exI [of _ r]) force
    next
      case False
      obtain r where 1: "wp_difftest_from cfg (wp_next (wp_pool b i)) k ?b t = Some r"
        and 2: "\<forall>n b' s'. r = Inr (n, b', s') \<longrightarrow> pool_repr b' a f \<and> k \<le> n \<and> n \<le> k + length is \<and>
          (n = k \<longrightarrow> wp_pool b' = wp_pool b) \<and> mem_frame t s'"
        using Cons.IH [of ?b "wp_next (wp_pool b i)" k t] l Cons.prems(2) by auto
      have "wp_difftest_from cfg pos k b s = Some r"
        using False e pos 1 by (subst wp_difftest_from.simps) (simp add: Let_def)
      then show ?thesis using 2 mem_frame_trans [OF fr] by (intro exI [of _ r]) force
    qed
  qed
qed

lemma wp_difftest_total:
  "pool_repr b a f \<Longrightarrow> \<exists>r. wp_difftest cfg b s = Some r \<and>
     (\<forall>n b' s'. r = Inr (n, b', s') \<longrightarrow> pool_repr b' a f \<and> n \<le> length a \<and> (n = 0 \<longrightarrow> wp_pool b' = wp_pool b) \<and>
       mem_frame s s' \<and> (n = 0 \<or> CONFIG_WATCHPOINT cfg))"
  using wp_difftest_from_total [of b "wp_head b" a a f cfg 0 s]
  by (auto simp: wp_difftest_def pool_repr_def)

end
