(* ===== verification/Npc_Sim.thy ===== *)
theory Npc_Sim
  imports Sdb_Watchpoint
begin

text \<open>
  The whole emulator's state, the external parts it is linked with, and the simulation of
  the Verilog processor: \<open>nemu/src/npc/npc.c\<close>. The Verilated model, the reference of
  differential testing and the disassembler are not part of the sources; they are the
  fields of \<open>externals\<close>.
\<close>

section \<open>State\<close>

text \<open>
  The signals of the Verilog model that \<open>verilog_connect\<close> makes \<open>NPCState\<close> point to, and
  the counters of \<open>PerfMetrics\<close>; \<open>miss_cycle\<close> is the static variable of \<open>npc_icache_miss\<close>.
\<close>

record npc_signals =
  n_gpr :: "nat \<Rightarrow> u32"
  n_pc :: u32
  n_difftest_signal :: u8
  n_inst :: u32
  n_cpc :: u32
  n_mtvec :: u32
  n_mstatus :: u32
  n_mepc :: u32
  n_mcause :: u32
  n_mtval :: u32
  n_mvendorid :: u32
  n_marchid :: u32

record PerfMetrics =
  prev_cycle :: u64
  total_cycle :: u64
  total_inst :: u64
  ifu_fetch_count :: u64
  lsu_read_count :: u64
  lsu_write_count :: u64
  inst_count :: "nat \<Rightarrow> u64"
  inst_cycle :: "nat \<Rightarrow> u64"
  icache_hit_count :: u64
  icache_miss_count :: u64
  icache_miss_cycle :: u64
  btb_predict_count :: u64
  btb_mispredict_count :: u64
  cur_inst_type :: nat
  miss_cycle :: u64

text \<open>
  \<open>top\<close> is the Verilated model, \<open>ref_state\<close> the reference; \<open>stuck_\<close> fields are the static
  variables of \<open>execute\<close>.
\<close>

record ('v, 'r) emu =
  sys :: system
  sdb :: sdb_state
  perf :: PerfMetrics
  g_wb_cpc :: u32
  g_wb_npc :: u32
  g_wb_valid :: bool
  g_st_waddr :: u32
  g_st_wdata :: u32
  g_st_wstrb :: u32
  g_st_valid :: bool
  top :: 'v
  ref_state :: 'r
  g_timer :: u64
  g_print_step :: bool
  stuck_pc :: u32
  stuck_time :: u64
  stuck_count :: u64

datatype direction = DIFFTEST_TO_DUT | DIFFTEST_TO_REF | DIFFTEST_TO_REF_SKIP_REF

text \<open>
  What the emulator is linked with. \<open>top_eval\<close> evaluates the Verilog model, which may call
  the DPI-C functions below and so change the whole state; \<open>cs_disasm\<close> is the
  disassembler's list of mnemonics and operands for some bytes; the \<open>ref_\<close> fields are the
  functions \<open>init_difftest\<close> finds in the shared library of the reference.
\<close>

record ('v, 'r) externals =
  top_eval :: "('v, 'r) emu \<Rightarrow> ('v, 'r) emu result"
  top_clock :: "'v \<Rightarrow> bool"
  set_clock :: "bool \<Rightarrow> 'v \<Rightarrow> 'v"
  set_reset :: "bool \<Rightarrow> 'v \<Rightarrow> 'v"
  new_top :: 'v
  signals :: "'v \<Rightarrow> npc_signals"
  cs_disasm :: "u64 \<Rightarrow> u8 list \<Rightarrow> (u8 list \<times> u8 list) list"
  ref_init :: "int \<Rightarrow> 'r \<Rightarrow> 'r result"
  ref_memcpy :: "paddr_t \<Rightarrow> u8 list \<Rightarrow> 'r \<Rightarrow> 'r result"
  ref_regcpy :: "direction \<Rightarrow> CPU_state \<Rightarrow> 'r \<Rightarrow> CPU_state \<times> 'r"
  ref_exec :: "u64 \<Rightarrow> 'r \<Rightarrow> 'r result"
  ref_paddr_read :: "paddr_t \<Rightarrow> int \<Rightarrow> 'r \<Rightarrow> (u32 \<times> 'r) result"
  ref_mem_display :: "int \<Rightarrow> u32 \<Rightarrow> 'r \<Rightarrow> ((u32 \<times> u32) list \<times> 'r) result"

abbreviation npc_sig :: "('v, 'r) externals \<Rightarrow> ('v, 'r) emu \<Rightarrow> npc_signals" where
  "npc_sig ex e \<equiv> signals ex (top e)"

abbreviation upd_sys :: "(system \<Rightarrow> system) \<Rightarrow> ('v, 'r) emu \<Rightarrow> ('v, 'r) emu" where
  "upd_sys f e \<equiv> e\<lparr>sys := f (sys e)\<rparr>"

abbreviation upd_perf :: "(PerfMetrics \<Rightarrow> PerfMetrics) \<Rightarrow> ('v, 'r) emu \<Rightarrow> ('v, 'r) emu" where
  "upd_perf f e \<equiv> e\<lparr>perf := f (perf e)\<rparr>"

definition set_state :: "run_state \<Rightarrow> system \<Rightarrow> system" where
  "set_state st s = s\<lparr>nemu_state := (nemu_state s)\<lparr>state := st\<rparr>\<rparr>"

section \<open>Clocking\<close>

text \<open>Waveform dumping and the simulation time of the context are not recorded.\<close>

definition half_cycle :: "('v, 'r) externals \<Rightarrow> ('v, 'r) emu \<Rightarrow> ('v, 'r) emu result" where
  "half_cycle ex e = top_eval ex (e\<lparr>top := set_clock ex (\<not> top_clock ex (top e)) (top e)\<rparr>)"

definition cpu_exec_once :: "('v, 'r) externals \<Rightarrow> ('v, 'r) emu \<Rightarrow> ('v, 'r) emu result" where
  "cpu_exec_once ex e = bindR (half_cycle ex e) (half_cycle ex)"

definition reset :: "('v, 'r) externals \<Rightarrow> nat \<Rightarrow> ('v, 'r) emu \<Rightarrow> ('v, 'r) emu result" where
  "reset ex n e =
     bindR (foldR (\<lambda>_. cpu_exec_once ex) [0..<n] (e\<lparr>top := set_reset ex True (top e)\<rparr>)) (\<lambda>e.
     Inr (e\<lparr>top := set_reset ex False (top e)\<rparr>))"

definition update_cpu_state :: "('v, 'r) externals \<Rightarrow> ('v, 'r) emu \<Rightarrow> ('v, 'r) emu" where
  "update_cpu_state ex e =
     (let n = npc_sig ex e; c = cpu (sys e)
      in upd_sys (\<lambda>s. s\<lparr>cpu := c\<lparr>
           cpc := n_cpc n, pc := n_pc n,
           gpr := (\<lambda>i. if i < 32 then n_gpr n i else gpr c i),
           sr := (sr c)(CSR_MTVEC := n_mtvec n, CSR_MSTATUS := n_mstatus n, CSR_MEPC := n_mepc n,
                        CSR_MCAUSE := n_mcause n, CSR_MTVAL := n_mtval n,
                        CSR_MVENDORID := n_mvendorid n, CSR_MARCHID := n_marchid n),
           cpc_for_pipeline := g_wb_cpc e, npc_for_pipeline := g_wb_npc e\<rparr>\<rparr>) e)"

definition verilog_connect :: "('v, 'r) emu \<Rightarrow> ('v, 'r) emu" where
  "verilog_connect e = upd_sys (set_state NEMU_RUNNING) e"

definition init_verilog :: "('v, 'r) externals \<Rightarrow> ('v, 'r) emu \<Rightarrow> ('v, 'r) emu result" where
  "init_verilog ex e =
     bindR (reset ex 32 (verilog_connect (e\<lparr>top := new_top ex\<rparr>))) (\<lambda>e.
     Inr (update_cpu_state ex e))"

section \<open>DPI-C functions\<close>

definition npc_exu_ebreak :: "('v, 'r) externals \<Rightarrow> ('v, 'r) emu \<Rightarrow> ('v, 'r) emu" where
  "npc_exu_ebreak ex e =
     upd_sys (\<lambda>s. s\<lparr>nemu_state := \<lparr>state = NEMU_END, halt_pc = n_pc (npc_sig ex e) - 4,
        halt_ret = n_gpr (npc_sig ex e) 10\<rparr>\<rparr>) e"

definition npc_abort :: "('v, 'r) emu \<Rightarrow> ('v, 'r) emu" where
  "npc_abort e = upd_sys (set_state NEMU_ABORT) e"

definition npc_illegal_inst :: "('v, 'r) emu \<Rightarrow> ('v, 'r) emu" where
  "npc_illegal_inst e = npc_abort e"

definition npc_difftest_skip_ref :: "config \<Rightarrow> ('v, 'r) emu \<Rightarrow> ('v, 'r) emu" where
  "npc_difftest_skip_ref cfg e = upd_sys (difftest_skip_ref cfg) e"

definition npc_difftest_commit_inst :: "u32 \<Rightarrow> u32 \<Rightarrow> u32 \<Rightarrow> ('v, 'r) emu \<Rightarrow> ('v, 'r) emu" where
  "npc_difftest_commit_inst c n valid e = e\<lparr>g_wb_cpc := c, g_wb_npc := n, g_wb_valid := (valid \<noteq> 0)\<rparr>"

definition npc_difftest_commit_store ::
    "u32 \<Rightarrow> u32 \<Rightarrow> u32 \<Rightarrow> u32 \<Rightarrow> ('v, 'r) emu \<Rightarrow> ('v, 'r) emu" where
  "npc_difftest_commit_store addr wdata wstrb valid e =
     e\<lparr>g_st_waddr := addr, g_st_wdata := wdata, g_st_wstrb := wstrb, g_st_valid := (valid \<noteq> 0)\<rparr>"

definition npc_read :: "config \<Rightarrow> u32 \<Rightarrow> u32 \<Rightarrow> system \<Rightarrow> (u32 \<times> system) result" where
  "npc_read cfg raddr wmask s = paddr_read cfg (raddr AND NOT 0x3) 4 s"

definition strobe_len :: "u32 \<Rightarrow> int" where
  "strobe_len wmask =
     (if wmask \<in> {0b0001, 0b0010, 0b0100, 0b1000} then 1
      else if wmask \<in> {0b0011, 0b1100} then 2
      else if wmask = 0b1111 then 4
      else int (length (filter (\<lambda>i. bit wmask i) [0..<4])))"

definition npc_write :: "config \<Rightarrow> u32 \<Rightarrow> u32 \<Rightarrow> u32 \<Rightarrow> system \<Rightarrow> system result" where
  "npc_write cfg waddr wdata wmask s =
     (if wmask = 0 then Inr s
      else
        let offset = unat (waddr AND 0x3); actual_data = drop_bit (offset * 8) wdata
        in paddr_write cfg waddr (strobe_len wmask) actual_data s)"

section \<open>Performance counters\<close>

definition CAL_INST :: nat where "CAL_INST = 0"
definition MEM_INST :: nat where "MEM_INST = 1"
definition CTRL_INST :: nat where "CTRL_INST = 2"
definition SYS_INST :: nat where "SYS_INST = 3"
definition OTHER_INST :: nat where "OTHER_INST = 4"

definition npc_ifu_fetch_count :: "PerfMetrics \<Rightarrow> PerfMetrics" where
  "npc_ifu_fetch_count p = p\<lparr>ifu_fetch_count := ifu_fetch_count p + 1\<rparr>"

definition npc_lsu_read_count :: "PerfMetrics \<Rightarrow> PerfMetrics" where
  "npc_lsu_read_count p = p\<lparr>lsu_read_count := lsu_read_count p + 1\<rparr>"

definition npc_lsu_write_count :: "PerfMetrics \<Rightarrow> PerfMetrics" where
  "npc_lsu_write_count p = p\<lparr>lsu_write_count := lsu_write_count p + 1\<rparr>"

definition inst_class :: "u32 \<Rightarrow> nat" where
  "inst_class inst =
     (let opcode = inst AND 0x7F
      in if opcode \<in> {0x03, 0x23} then MEM_INST
         else if opcode \<in> {0x33, 0x13, 0x37, 0x17} then CAL_INST
         else if opcode \<in> {0x63, 0x6F, 0x67} then CTRL_INST
         else if opcode = 0x73 then SYS_INST
         else OTHER_INST)"

definition npc_ifu_inst :: "u32 \<Rightarrow> PerfMetrics \<Rightarrow> PerfMetrics" where
  "npc_ifu_inst inst p =
     (let t = inst_class inst
      in p\<lparr>cur_inst_type := t, inst_count := (inst_count p)(t := inst_count p t + 1)\<rparr>)"

definition npc_cycle_record :: "PerfMetrics \<Rightarrow> PerfMetrics" where
  "npc_cycle_record p =
     (let t = cur_inst_type p;
          p = (if prev_cycle p \<noteq> 0
               then p\<lparr>inst_cycle := (inst_cycle p)(t := inst_cycle p t + (total_cycle p - prev_cycle p))\<rparr>
               else p)
      in p\<lparr>prev_cycle := total_cycle p\<rparr>)"

definition npc_icache_hit :: "PerfMetrics \<Rightarrow> PerfMetrics" where
  "npc_icache_hit p = p\<lparr>icache_hit_count := icache_hit_count p + 1\<rparr>"

definition npc_icache_miss :: "int \<Rightarrow> PerfMetrics \<Rightarrow> PerfMetrics" where
  "npc_icache_miss fl p =
     (if fl = 0 then p\<lparr>icache_miss_count := icache_miss_count p + 1, miss_cycle := total_cycle p\<rparr>
      else if fl = 1 then p\<lparr>icache_miss_cycle := icache_miss_cycle p + (total_cycle p - miss_cycle p)\<rparr>
      else p)"

definition npc_btb_predict :: "PerfMetrics \<Rightarrow> PerfMetrics" where
  "npc_btb_predict p = p\<lparr>btb_predict_count := btb_predict_count p + 1\<rparr>"

definition npc_btb_mispredict :: "PerfMetrics \<Rightarrow> PerfMetrics" where
  "npc_btb_mispredict p = p\<lparr>btb_mispredict_count := btb_mispredict_count p + 1\<rparr>"

definition perf0 :: PerfMetrics where
  "perf0 = \<lparr>prev_cycle = 0, total_cycle = 0, total_inst = 0, ifu_fetch_count = 0, lsu_read_count = 0,
     lsu_write_count = 0, inst_count = (\<lambda>_. 0), inst_cycle = (\<lambda>_. 0), icache_hit_count = 0,
     icache_miss_count = 0, icache_miss_cycle = 0, btb_predict_count = 0, btb_mispredict_count = 0,
     cur_inst_type = 0, miss_cycle = 0\<rparr>"

text \<open>The emulator at program start.\<close>

definition emu0 :: "system \<Rightarrow> 'v \<Rightarrow> 'r \<Rightarrow> ('v, 'r) emu" where
  "emu0 s v r = \<lparr>sys = s, sdb = sdb0, perf = perf0, g_wb_cpc = 0, g_wb_npc = 0, g_wb_valid = False,
     g_st_waddr = 0, g_st_wdata = 0, g_st_wstrb = 0, g_st_valid = False, top = v, ref_state = r,
     g_timer = 0, g_print_step = False, stuck_pc = 0, stuck_time = 0, stuck_count = 0\<rparr>"

section \<open>Every cycle is charged to one class of instructions\<close>

text \<open>
  A retired instruction is reported by \<open>npc_ifu_inst\<close> when fetched and \<open>npc_cycle_record\<close>
  when it ends.
\<close>

datatype perf_event = Fetched u32 | Cycles nat | Recorded

fun perf_event_step :: "perf_event \<Rightarrow> PerfMetrics \<Rightarrow> PerfMetrics" where
  "perf_event_step (Fetched i) p = npc_ifu_inst i p"
| "perf_event_step (Cycles n) p = p\<lparr>total_cycle := total_cycle p + of_nat n\<rparr>"
| "perf_event_step Recorded p = npc_cycle_record p"

definition charged :: "PerfMetrics \<Rightarrow> u64" where
  "charged p = (\<Sum>t < 5. inst_cycle p t)"

lemma inst_class_bound: "inst_class i < 5"
  by (simp add: inst_class_def Let_def CAL_INST_def MEM_INST_def CTRL_INST_def SYS_INST_def OTHER_INST_def)

lemma sum_upd: "t < (n :: nat) \<Longrightarrow> (\<Sum>i < n. (f(t := f t + d)) i) = (\<Sum>i < n. f i) + (d :: u64)"
  by (induction n) (auto simp: less_Suc_eq algebra_simps intro!: sum.cong)

lemma perf_step:
  assumes "cur_inst_type p < 5"
  shows "cur_inst_type (perf_event_step ev p) < 5"
    and "(\<Sum>t < 5. inst_count (perf_event_step ev p) t) =
      (\<Sum>t < 5. inst_count p t) + (case ev of Fetched i \<Rightarrow> 1 | _ \<Rightarrow> 0)"
  using assms inst_class_bound
  by (cases ev; simp add: npc_ifu_inst_def npc_cycle_record_def Let_def sum_upd del: fun_upd_apply)+

lemma perf_charged:
  assumes "cur_inst_type p < 5" and "prev_cycle p \<noteq> 0"
  shows "charged (perf_event_step ev p) - charged p = prev_cycle (perf_event_step ev p) - prev_cycle p"
  using assms
  by (cases ev) (simp_all add: npc_ifu_inst_def npc_cycle_record_def Let_def charged_def sum_upd
      del: fun_upd_apply)

definition cycles_of :: "perf_event list \<Rightarrow> nat" where
  "cycles_of es = sum_list (map (\<lambda>ev. case ev of Cycles n \<Rightarrow> n | _ \<Rightarrow> 0) es)"

definition perf_ok :: "PerfMetrics \<Rightarrow> bool" where
  "perf_ok p \<longleftrightarrow> cur_inst_type p < 5 \<and> prev_cycle p \<noteq> 0 \<and> prev_cycle p \<le> total_cycle p"

lemma perf_ok_step:
  assumes "perf_ok p" and "unat (total_cycle p) + cycles_of [ev] < 2 ^ 64"
  shows "perf_ok (perf_event_step ev p)"
    and "unat (total_cycle (perf_event_step ev p)) = unat (total_cycle p) + cycles_of [ev]"
proof -
  show 2: "unat (total_cycle (perf_event_step ev p)) = unat (total_cycle p) + cycles_of [ev]"
    using assms(2)
    by (cases ev) (auto simp: cycles_of_def npc_ifu_inst_def npc_cycle_record_def Let_def
        unat_word_ariths unat_of_nat)
  then have "total_cycle p \<le> total_cycle (perf_event_step ev p)"
    by (simp add: word_le_nat_alt)
  then show "perf_ok (perf_event_step ev p)"
    using assms(1) perf_step(1) [of p ev]
    by (cases ev) (auto simp: perf_ok_def npc_ifu_inst_def npc_cycle_record_def Let_def
        word_le_nat_alt simp flip: unat_gt_0)
qed

text \<open>C31: From the first recorded cycle on, every clock cycle up to the last instruction
  recorded is charged to exactly one class of instructions, and every fetched instruction is
  counted in exactly one class, whatever the order of the events, as long as the 64-bit
  cycle counter does not wrap.\<close>

theorem perf_cycles_conserved:
  assumes "cur_inst_type p < 5" and "prev_cycle p \<noteq> 0" and "prev_cycle p \<le> total_cycle p"
    and "unat (total_cycle p) + cycles_of es < 2 ^ 64" and "q = fold perf_event_step es p"
  shows "charged q - charged p = prev_cycle q - prev_cycle p \<and>
    (\<Sum>t < 5. inst_count q t) - (\<Sum>t < 5. inst_count p t) =
      of_nat (length (filter (\<lambda>ev. case ev of Fetched i \<Rightarrow> True | _ \<Rightarrow> False) es))"
proof -
  have "perf_ok p" using assms(1-3) by (simp add: perf_ok_def)
  with assms(4,5) show ?thesis
  proof (induction es arbitrary: p)
    case (Cons ev es)
    let ?p = "perf_event_step ev p"
    have c: "cycles_of (ev # es) = cycles_of [ev] + cycles_of es" by (simp add: cycles_of_def)
    with Cons.prems(1) have b: "unat (total_cycle p) + cycles_of [ev] < 2 ^ 64" by simp
    have ok: "perf_ok ?p" and t: "unat (total_cycle ?p) = unat (total_cycle p) + cycles_of [ev]"
      using perf_ok_step [OF Cons.prems(3) b] by simp_all
    have "unat (total_cycle ?p) + cycles_of es < 2 ^ 64"
      using Cons.prems(1) c t by simp
    from Cons.IH [OF this _ ok] Cons.prems(2)
    have IH: "charged q - charged ?p = prev_cycle q - prev_cycle ?p"
      "(\<Sum>t < 5. inst_count q t) - (\<Sum>t < 5. inst_count ?p t) =
        of_nat (length (filter (\<lambda>ev. case ev of Fetched i \<Rightarrow> True | _ \<Rightarrow> False) es))" by simp_all
    have "cur_inst_type p < 5" "prev_cycle p \<noteq> 0" using Cons.prems(3) by (simp_all add: perf_ok_def)
    note s = perf_charged [OF this, of ev] perf_step(2) [OF this(1), of ev]
    have "charged q - charged p = (charged q - charged ?p) + (charged ?p - charged p)" by simp
    also have "\<dots> = prev_cycle q - prev_cycle p" by (simp only: IH(1) s(1)) simp
    finally show ?case using IH(2) s(2) by (auto simp: algebra_simps split: perf_event.splits)
  qed simp
qed

lemma perf_cycles_conserved_witness:
  "let p = perf0\<lparr>prev_cycle := 3, total_cycle := 5\<rparr>;
       q = fold perf_event_step [Fetched 0x00000013, Cycles 7, Recorded, Fetched 0x73, Cycles 2] p
   in charged q - charged p = 9 \<and> (\<Sum>t < 5. inst_count q t) - (\<Sum>t < 5. inst_count p t) = 2"
proof -
  let ?p = "perf0\<lparr>prev_cycle := 3, total_cycle := 5\<rparr>"
  let ?es = "[Fetched 0x00000013, Cycles 7, Recorded, Fetched 0x73, Cycles 2]"
  have "prev_cycle (fold perf_event_step ?es ?p) = 12"
    by (simp add: perf0_def npc_ifu_inst_def npc_cycle_record_def Let_def)
  then show ?thesis
    using perf_cycles_conserved [OF _ _ _ _ refl, of ?p ?es]
    by (simp add: perf0_def cycles_of_def Let_def word_le_nat_alt)
qed

end
