(* ===== verification/Difftest.thy ===== *)
theory Difftest
  imports Npc_Sim
begin

text \<open>
  Differential testing on the side of the device under test:
  \<open>nemu/src/cpu/difftest/dut.c\<close>, \<open>nemu/src/isa/riscv32/difftest/isa_dut.c\<close>. A locale
  states the contract of the reference's register interface.
\<close>

section \<open>isa\_dut.c\<close>

definition isa_difftest_checkregs ::
    "config \<Rightarrow> CPU_state \<Rightarrow> vaddr_t \<Rightarrow> CPU_state \<Rightarrow> bool" where
  "isa_difftest_checkregs cfg ref_r tpc c \<longleftrightarrow>
     list_all (\<lambda>i. gpr ref_r i = gpr c i) [0..<(if CONFIG_RVE cfg then 16 else 32)] \<and>
     pc ref_r = tpc \<and>
     (CONFIG_NPC cfg \<longrightarrow>
        list_all (\<lambda>i. sr c i = sr ref_r i) [CSR_MTVEC, CSR_MCAUSE, CSR_MEPC, CSR_MSTATUS, CSR_MTVAL])"

section \<open>dut.c\<close>

definition difftest_skip_dut ::
    "('v, 'r) externals \<Rightarrow> int \<Rightarrow> int \<Rightarrow> ('v, 'r) emu \<Rightarrow> ('v, 'r) emu result" where
  "difftest_skip_dut ex nr_ref nr_dut e =
     bindR (foldR (\<lambda>_. ref_exec ex 1) [0..<nat nr_ref] (ref_state e)) (\<lambda>r.
     Inr (e\<lparr>sys := (sys e)\<lparr>skip_dut_nr_inst := skip_dut_nr_inst (sys e) + nr_dut\<rparr>, ref_state := r\<rparr>))"

definition guest_bytes :: "config \<Rightarrow> paddr_t \<Rightarrow> nat \<Rightarrow> system \<Rightarrow> u8 list result" where
  "guest_bytes cfg addr n s =
     bindR (guest_to_host cfg addr) (\<lambda>p.
     if hin_bounds cfg p n then Inr (map (hget (harr s)) (hrange p n))
     else Inl (Undefined ''host read outside the array''))"

definition copy_to_ref ::
    "config \<Rightarrow> ('v, 'r) externals \<Rightarrow> paddr_t \<Rightarrow> nat \<Rightarrow> ('v, 'r) emu \<Rightarrow> ('v, 'r) emu result" where
  "copy_to_ref cfg ex addr n e =
     bindR (guest_bytes cfg addr n (sys e)) (\<lambda>bs.
     bindR (ref_memcpy ex addr bs (ref_state e)) (\<lambda>r. Inr (e\<lparr>ref_state := r\<rparr>)))"

text \<open>The symbols of the reference's library are taken to be found once it can be opened.\<close>

definition init_difftest ::
    "config \<Rightarrow> ('v, 'r) externals \<Rightarrow> string option \<Rightarrow> nat \<Rightarrow> int \<Rightarrow> ('v, 'r) emu \<Rightarrow> ('v, 'r) emu result" where
  "init_difftest cfg ex ref_so_file img_size port e =
     (if \<not> CONFIG_DIFFTEST cfg then Inr e
      else
        bindR (assertR (ref_so_file \<noteq> None) ''init_difftest'') (\<lambda>_.
        bindR (ref_init ex port (ref_state e)) (\<lambda>r.
        bindR (copy_to_ref cfg ex (CONFIG_MBASE cfg) img_size (e\<lparr>ref_state := r\<rparr>)) (\<lambda>e.
        bindR (if CONFIG_NPC cfg \<and> CONFIG_SYS_SOC cfg then
                 bindR (copy_to_ref cfg ex (CONFIG_MROM_BASE cfg) (unat (CONFIG_MROM_SIZE cfg)) e) (\<lambda>e.
                 bindR (copy_to_ref cfg ex (CONFIG_FLASH_BASE cfg) (unat (CONFIG_FLASH_SIZE cfg)) e) (\<lambda>e.
                 copy_to_ref cfg ex (CONFIG_SRAM_BASE cfg) (unat (CONFIG_SRAM_SIZE cfg)) e))
               else Inr e) (\<lambda>e.
        Inr (e\<lparr>ref_state := snd (ref_regcpy ex DIFFTEST_TO_REF (cpu (sys e)) (ref_state e))\<rparr>))))))"

definition abort_at :: "vaddr_t \<Rightarrow> system \<Rightarrow> system" where
  "abort_at tpc s = s\<lparr>nemu_state := (nemu_state s)\<lparr>state := NEMU_ABORT, halt_pc := tpc\<rparr>\<rparr>"

definition checkregs :: "config \<Rightarrow> CPU_state \<Rightarrow> vaddr_t \<Rightarrow> ('v, 'r) emu \<Rightarrow> ('v, 'r) emu" where
  "checkregs cfg ref_r tpc e =
     (if isa_difftest_checkregs cfg ref_r tpc (cpu (sys e)) then e else upd_sys (abort_at tpc) e)"

definition compare_mask :: "u32 \<Rightarrow> u32" where
  "compare_mask wstrb =
     fold (\<lambda>i m. if bit wstrb i then m OR push_bit (i * 8) 0xFF else m) [0..<4] 0"

definition checkmems ::
    "('v, 'r) externals \<Rightarrow> u32 \<Rightarrow> u32 \<Rightarrow> u32 \<Rightarrow> vaddr_t \<Rightarrow> ('v, 'r) emu \<Rightarrow> ('v, 'r) emu result" where
  "checkmems ex addr wdata wstrb tpc e =
     bindR (ref_paddr_read ex (addr AND NOT 0x03) 4 (ref_state e)) (\<lambda>(ref_val, r).
     let m = compare_mask wstrb; e = e\<lparr>ref_state := r\<rparr>
     in Inr (if wdata AND m \<noteq> ref_val AND m then upd_sys (abort_at tpc) e else e))"

definition check_store :: "config \<Rightarrow> ('v, 'r) externals \<Rightarrow> ('v, 'r) emu \<Rightarrow> ('v, 'r) emu result" where
  "check_store cfg ex e =
     (if CONFIG_NPC cfg \<and> CONFIG_DIFFTEST_MEM cfg \<and> g_st_valid e
      then checkmems ex (g_st_waddr e) (g_st_wdata e) (g_st_wstrb e) (g_wb_cpc e) e
      else Inr e)"

text \<open>
  \<open>ref_r\<close> is a local variable: what the reference does not copy into it is indeterminate;
  the model gives it the registers of the device under test.
\<close>

definition ref_registers :: "('v, 'r) externals \<Rightarrow> ('v, 'r) emu \<Rightarrow> CPU_state \<times> ('v, 'r) emu" where
  "ref_registers ex e =
     (case ref_regcpy ex DIFFTEST_TO_DUT (cpu (sys e)) (ref_state e) of (c, r) \<Rightarrow> (c, e\<lparr>ref_state := r\<rparr>))"

text \<open>Outside NPC builds the direction is passed as a \<open>bool\<close>, which turns 2 into 1.\<close>

definition skip_direction :: "config \<Rightarrow> direction" where
  "skip_direction cfg = (if CONFIG_NPC cfg then DIFFTEST_TO_REF_SKIP_REF else DIFFTEST_TO_REF)"

definition difftest_step ::
    "config \<Rightarrow> ('v, 'r) externals \<Rightarrow> vaddr_t \<Rightarrow> vaddr_t \<Rightarrow> ('v, 'r) emu \<Rightarrow> ('v, 'r) emu result" where
  "difftest_step cfg ex tpc npc e =
     (if skip_dut_nr_inst (sys e) > 0 then
        (case ref_registers ex e of (ref_r, e) \<Rightarrow>
          if pc ref_r = npc then
            check_store cfg ex (checkregs cfg ref_r npc (upd_sys (\<lambda>s. s\<lparr>skip_dut_nr_inst := 0\<rparr>) e))
          else
            let k = skip_dut_nr_inst (sys e) - 1; e = upd_sys (\<lambda>s. s\<lparr>skip_dut_nr_inst := k\<rparr>) e
            in if k = 0 then Inl (Panicked ''can not catch up with ref'') else Inr e)
      else if is_skip_ref (sys e) then
        Inr (e\<lparr>ref_state := snd (ref_regcpy ex (skip_direction cfg) (cpu (sys e)) (ref_state e)),
               sys := (sys e)\<lparr>is_skip_ref := False\<rparr>\<rparr>)
      else
        bindR (ref_exec ex 1 (ref_state e)) (\<lambda>r.
        case ref_registers ex (e\<lparr>ref_state := r\<rparr>) of (ref_r, e) \<Rightarrow>
          check_store cfg ex (checkregs cfg ref_r tpc e)))"

section \<open>What a check compares\<close>

lemma compare_mask_bit:
  "bit (compare_mask w) n \<longleftrightarrow> n < 32 \<and> bit w (n div 8)"
proof -
  have ff: "(0xFF :: u32) = mask 8" by (simp add: mask_eq_exp_minus_1)
  have m: "compare_mask w = (if bit w 0 then mask 8 else 0) OR (if bit w 1 then push_bit 8 (mask 8) else 0) OR
      (if bit w 2 then push_bit 16 (mask 8) else 0) OR (if bit w 3 then push_bit 24 (mask 8) else 0)"
    unfolding compare_mask_def ff by (simp add: upt_rec or.assoc numeral_2_eq_2 numeral_3_eq_3)
  show ?thesis
  proof (cases "n < 32")
    case True
    then have "n div 8 = 0 \<and> n < 8 \<or> n div 8 = 1 \<and> 8 \<le> n \<and> n < 16 \<or>
        n div 8 = 2 \<and> 16 \<le> n \<and> n < 24 \<or> n div 8 = 3 \<and> 24 \<le> n \<and> n < 32" by auto
    then show ?thesis
      unfolding m by (auto simp: bit_or_iff bit_push_bit_iff bit_mask_iff)
  qed (auto dest: bit_imp_le_length)
qed

text \<open>The bytes a strobe selects are the same in two words exactly when the masked words agree.\<close>

definition byte_of :: "u32 \<Rightarrow> nat \<Rightarrow> u8" where
  "byte_of w i = ucast (drop_bit (8 * i) w)"

lemma masked_eq_bytes:
  "x AND compare_mask w = y AND compare_mask w \<longleftrightarrow> (\<forall>i < 4. bit w i \<longrightarrow> byte_of x i = byte_of y i)"
proof
  assume eq: "x AND compare_mask w = y AND compare_mask w"
  show "\<forall>i < 4. bit w i \<longrightarrow> byte_of x i = byte_of y i"
  proof (intro allI impI)
    fix i :: nat
    assume i: "i < 4" "bit w i"
    show "byte_of x i = byte_of y i"
    proof (rule bit_word_eqI)
      fix n
      assume n: "n < LENGTH(8)"
      then have "(8 * i + n) div 8 = i" "8 * i + n < 32" using i by auto
      then have "bit (x AND compare_mask w) (8 * i + n) = bit x (8 * i + n)"
        "bit (y AND compare_mask w) (8 * i + n) = bit y (8 * i + n)"
        using i by (simp_all add: bit_and_iff compare_mask_bit)
      with eq n show "bit (byte_of x i) n = bit (byte_of y i) n"
        by (simp add: byte_of_def bit_ucast_iff bit_drop_bit_eq)
    qed
  qed
next
  assume b: "\<forall>i < 4. bit w i \<longrightarrow> byte_of x i = byte_of y i"
  show "x AND compare_mask w = y AND compare_mask w"
  proof (rule bit_word_eqI)
    fix n
    assume n: "n < LENGTH(32)"
    have "bit x n = bit y n" if "bit w (n div 8)"
    proof -
      have "n div 8 < 4" using n by auto
      with b that have "byte_of x (n div 8) = byte_of y (n div 8)" by blast
      then have "bit (byte_of x (n div 8)) (n mod 8) = bit (byte_of y (n div 8)) (n mod 8)" by simp
      moreover have "8 * (n div 8) + n mod 8 = n" by simp
      ultimately show ?thesis by (simp add: byte_of_def bit_ucast_iff bit_drop_bit_eq)
    qed
    then show "bit (x AND compare_mask w) n = bit (y AND compare_mask w) n"
      using n by (auto simp: bit_and_iff compare_mask_bit)
  qed
qed

end
