(* ===== verification/Cpu_Exec.thy ===== *)
theory Cpu_Exec
  imports Difftest Devices_Init
begin

text \<open>
  The execution loop, \<open>nemu/src/cpu/cpu-exec.c\<close>, in both builds: the interpreter steps the
  CPU, or (\<open>CONFIG_NPC\<close>) the Verilog model is clocked. With \<open>nemu/src/utils/state.c\<close>, the NPC
  branch of \<open>isa_exec_once\<close> and the text of a log line.
\<close>

section \<open>The log line of an instruction\<close>

definition hex_char :: "u32 \<Rightarrow> u8" where
  "hex_char d = (if d < 10 then 48 + ucast d else 87 + ucast d)"

text \<open>\<open>%08x\<close> and \<open>%02x\<close>: the low \<open>n\<close> hexadecimal digits, the first one first.\<close>

definition hex_digits :: "nat \<Rightarrow> u32 \<Rightarrow> u8 list" where
  "hex_digits n w = map (\<lambda>i. hex_char (drop_bit (4 * (n - 1 - i)) w AND 0xF)) [0..<n]"

definition disassemble ::
    "('v, 'r) externals \<Rightarrow> nat \<Rightarrow> u64 \<Rightarrow> u8 list \<Rightarrow> u8 list result" where
  "disassemble ex sz tpc code =
     (case cs_disasm ex tpc code of
        [(mnemonic, op_str)] \<Rightarrow>
          Inr (take (sz - 1) (mnemonic @ (if op_str \<noteq> [] then 9 # op_str else [])))
      | _ \<Rightarrow> Inl (Assert_failed ''disassemble''))"

definition inst_bytes :: "u32 \<Rightarrow> int \<Rightarrow> u8 list" where
  "inst_bytes inst ilen = map (\<lambda>i. ucast (drop_bit (8 * i) inst)) [0..<nat ilen]"

text \<open>The address, the bytes in memory order reversed, padding, and the disassembly.\<close>

definition logbuf ::
    "('v, 'r) externals \<Rightarrow> u32 \<Rightarrow> Decode \<Rightarrow> u8 list result" where
  "logbuf ex shown d =
     (let ilen = sint (d_snpc d - d_pc d);
          code = inst_bytes (d_inst d) ilen;
          space_len = (if 4 - ilen < 0 then 0 else 4 - ilen) * 3 + 1;
          p = [48, 120] @ hex_digits 8 shown @ [58] @
              concat (map (\<lambda>b. 32 # hex_digits 2 (ucast b)) (rev code)) @ replicate (nat space_len) 32
      in bindR (disassemble ex (128 - length p) (ucast (d_pc d)) code) (\<lambda>t. Inr (p @ t)))"

section \<open>The NPC branch of isa\_exec\_once\<close>

text \<open>
  The immediates the call trace of the NPC build computes by itself: the sign of a jump fills
  bits 12 to 31, and the offset of an indirect jump is not sign-extended.
\<close>

definition npc_jal_imm :: "u32 \<Rightarrow> u32" where
  "npc_jal_imm inst =
     (if drop_bit 31 inst AND 1 \<noteq> 0 then 0xfffff000 else 0) OR
     push_bit 1 (drop_bit 21 inst AND 0x3ff) OR
     push_bit 11 (drop_bit 20 inst AND 1) OR
     push_bit 12 (drop_bit 12 inst AND 0xff)"

definition npc_trace_inst ::
    "config \<Rightarrow> (nat \<Rightarrow> u32) \<Rightarrow> u32 \<Rightarrow> vaddr_t \<Rightarrow> system \<Rightarrow> system result" where
  "npc_trace_inst cfg greg inst tpc s =
     (if inst AND 0x7f = 0x6f then
        (if drop_bit 7 inst AND 0x1f = 1 then trace_call cfg tpc (tpc + npc_jal_imm inst) False s
         else Inr s)
      else if inst AND 0x707f = 0x67 then
        (let rd = drop_bit 7 inst AND 0x1f; rs1 = unat (drop_bit 15 inst AND 0x1f);
             imm = drop_bit 20 inst; target = (greg rs1 + imm) AND NOT 1
         in if inst = 0x00008067 then Inr (trace_ret tpc s)
            else if rd = 1 then trace_call cfg tpc target False s
            else if rd = 0 \<and> imm = 0 then trace_call cfg tpc target True s
            else Inr s)
      else Inr s)"

definition npc_exec ::
    "('v, 'r) externals \<Rightarrow> Decode \<Rightarrow> ('v, 'r) emu \<Rightarrow> (Decode \<times> ('v, 'r) emu) result" where
  "npc_exec ex d e =
     bindR (cpu_exec_once ex e) (\<lambda>e.
     let e = update_cpu_state ex e
     in Inr (d\<lparr>d_inst := n_inst (npc_sig ex e), d_snpc := d_pc d + 4\<rparr>, e))"

definition isa_exec_once_npc ::
    "config \<Rightarrow> ('v, 'r) externals \<Rightarrow> Decode \<Rightarrow> ('v, 'r) emu \<Rightarrow> (Decode \<times> ('v, 'r) emu) result" where
  "isa_exec_once_npc cfg ex d e =
     bindR (if n_difftest_signal (npc_sig ex e) = 1 \<and> CONFIG_ITRACE cfg
            then npc_trace_inst cfg (n_gpr (npc_sig ex e)) (n_inst (npc_sig ex e)) (d_pc d) (sys e)
            else Inr (sys e)) (\<lambda>s.
     npc_exec ex d (e\<lparr>sys := s\<rparr>))"

section \<open>exec\_once\<close>

definition pc_in_bound :: "config \<Rightarrow> vaddr_t \<Rightarrow> bool" where
  "pc_in_bound cfg a \<longleftrightarrow>
     (CONFIG_SRAM_BASE cfg \<le> a \<and> a < CONFIG_SRAM_BASE cfg + CONFIG_SRAM_SIZE cfg) \<or>
     (CONFIG_PSRAM_BASE cfg \<le> a \<and> a < CONFIG_PSRAM_BASE cfg + CONFIG_PSRAM_SIZE cfg) \<or>
     (CONFIG_FLASH_BASE cfg \<le> a \<and> a < CONFIG_FLASH_BASE cfg + CONFIG_FLASH_SIZE cfg) \<or>
     (CONFIG_SDRAM_BASE cfg \<le> a \<and> a < CONFIG_SDRAM_BASE cfg + CONFIG_SDRAM_SIZE cfg)"

definition check_pc_bound :: "config \<Rightarrow> system \<Rightarrow> system" where
  "check_pc_bound cfg s = (if pc_in_bound cfg (cpc (cpu s)) then s else set_state NEMU_ABORT s)"

definition record_inst ::
    "('v, 'r) externals \<Rightarrow> u32 \<Rightarrow> Decode \<Rightarrow> ('v, 'r) emu \<Rightarrow> ('v, 'r) emu result" where
  "record_inst ex shown d e =
     bindR (logbuf ex shown d) (\<lambda>l. Inr (upd_sys (\<lambda>s. s\<lparr>itrace := itrace_record l (d_pc d) (itrace s)\<rparr>) e))"

definition exec_once ::
    "config \<Rightarrow> ('v, 'r) externals \<Rightarrow> Decode \<Rightarrow> vaddr_t \<Rightarrow> ('v, 'r) emu \<Rightarrow> (Decode \<times> ('v, 'r) emu) result" where
  "exec_once cfg ex d tpc e =
     (if CONFIG_NPC cfg then
        let e = (if n_difftest_signal (npc_sig ex e) = 1
                 then upd_perf (\<lambda>p. p\<lparr>total_inst := total_inst p + 1\<rparr>) e else e);
            e = upd_perf (\<lambda>p. p\<lparr>total_cycle := total_cycle p + 1\<rparr>) e;
            e = upd_sys (\<lambda>s. s\<lparr>itbin := itrace_bin_record (pc (cpu s)) (itbin s)\<rparr>) e
        in bindR (isa_exec_once_npc cfg ex d e) (\<lambda>(d, e).
           let d = d\<lparr>d_pc := g_wb_npc e, d_snpc := g_wb_npc e\<rparr>;
               e = upd_sys (check_pc_bound cfg) e
           in bindR (if CONFIG_ITRACE cfg \<and> n_difftest_signal (npc_sig ex e) = 1
                     then record_inst ex (n_cpc (npc_sig ex e)) d e else Inr e) (\<lambda>e. Inr (d, e)))
      else
        let d = d\<lparr>d_pc := tpc, d_snpc := tpc\<rparr>;
            s = (sys e)\<lparr>itbin := itrace_bin_record (pc (cpu (sys e))) (itbin (sys e))\<rparr>
        in bindR (isa_exec_once cfg (d, s)) (\<lambda>(d, s).
           let e = e\<lparr>sys := s\<lparr>cpu := (cpu s)\<lparr>pc := d_dnpc d\<rparr>\<rparr>\<rparr>
           in bindR (if CONFIG_ITRACE cfg then record_inst ex (d_pc d) d e else Inr e) (\<lambda>e. Inr (d, e))))"

section \<open>execute and cpu\_exec\<close>

text \<open>
  A step that may also not return, because the watchpoints are a linked list: \<open>None\<close> is an
  endless walk, excluded below for pools that represent two lists.
\<close>

type_synonym 'a run = "'a result option"

fun bindN :: "'a run \<Rightarrow> ('a \<Rightarrow> 'b run) \<Rightarrow> 'b run" where
  "bindN None f = None"
| "bindN (Some (Inl e)) f = Some (Inl e)"
| "bindN (Some (Inr x)) f = f x"

text \<open>
  In an NPC build with \<open>CONFIG_DIFFTEST\<close> every instruction is compared with the reference; in
  the other builds the call is compiled out. A watchpoint that changed stops the run.
\<close>

definition trace_and_difftest ::
    "config \<Rightarrow> ('v, 'r) externals \<Rightarrow> vaddr_t \<Rightarrow> vaddr_t \<Rightarrow> ('v, 'r) emu \<Rightarrow> ('v, 'r) emu run" where
  "trace_and_difftest cfg ex tpc dnpc e =
     bindN (Some (if CONFIG_DIFFTEST cfg \<and> CONFIG_NPC cfg \<and> n_difftest_signal (npc_sig ex e) = 1
                  then difftest_step cfg ex tpc dnpc e else Inr e)) (\<lambda>e.
     bindN (wp_difftest cfg (sdb e) (sys e)) (\<lambda>(n, b, s).
     Some (Inr (e\<lparr>sdb := b, sys := (if n > 0 then set_state NEMU_STOP s else s)\<rparr>))))"

definition PC_STUCK_THRESHOLD :: u64 where
  "PC_STUCK_THRESHOLD = 1000000"

definition read_time :: "('v, 'r) emu \<Rightarrow> u64 \<times> ('v, 'r) emu" where
  "read_time e = (case get_time (dev (sys e)) of (t, d) \<Rightarrow> (t, upd_sys (\<lambda>s. s\<lparr>dev := d\<rparr>) e))"

definition check_stuck :: "u32 \<Rightarrow> ('v, 'r) emu \<Rightarrow> ('v, 'r) emu result" where
  "check_stuck current_pc e =
     (if current_pc = stuck_pc e then
        let e = e\<lparr>stuck_count := stuck_count e + 1\<rparr> in
        if stuck_count e mod 100000 = 0 then
          (case read_time e of (t, e) \<Rightarrow>
             if t - stuck_time e > PC_STUCK_THRESHOLD then Inl (Assert_failed ''PC stuck'') else Inr e)
        else Inr e
      else
        (case read_time (e\<lparr>stuck_pc := current_pc\<rparr>) of (t, e) \<Rightarrow>
           Inr (e\<lparr>stuck_time := t, stuck_count := 0\<rparr>)))"

definition run_inst ::
    "config \<Rightarrow> ('v, 'r) externals \<Rightarrow> Decode \<Rightarrow> ('v, 'r) emu \<Rightarrow> (Decode \<times> ('v, 'r) emu) run" where
  "run_inst cfg ex d e =
     bindN (Some (if CONFIG_NPC cfg
                  then bindR (check_stuck (n_pc (npc_sig ex e)) e) (exec_once cfg ex d (n_pc (npc_sig ex e)))
                  else exec_once cfg ex d (pc (cpu (sys e))) e)) (\<lambda>(d, e).
     let e = upd_sys (\<lambda>s. s\<lparr>g_nr_guest_inst := g_nr_guest_inst s + 1\<rparr>) e
     in bindN (trace_and_difftest cfg ex (d_pc d)
                 (if CONFIG_NPC cfg then cpc (cpu (sys e)) else pc (cpu (sys e))) e) (\<lambda>e.
        Some (Inr (d, e))))"

fun execute ::
    "config \<Rightarrow> dev_config \<Rightarrow> ('v, 'r) externals \<Rightarrow> nat \<Rightarrow> Decode \<Rightarrow> ('v, 'r) emu \<Rightarrow> ('v, 'r) emu run" where
  "execute cfg dc ex 0 d e = Some (Inr e)"
| "execute cfg dc ex (Suc n) d e =
     bindN (run_inst cfg ex d e) (\<lambda>(d, e).
     if state (nemu_state (sys e)) \<noteq> NEMU_RUNNING then Some (Inr e)
     else
       bindN (Some (if CONFIG_DEVICE cfg then device_update cfg dc (sys e) else Inr (sys e))) (\<lambda>s.
       execute cfg dc ex n d (e\<lparr>sys := s\<rparr>)))"

definition MAX_INST_TO_PRINT :: u64 where
  "MAX_INST_TO_PRINT = 15"

text \<open>
  The local \<open>Decode s\<close> is uninitialised. The interpreter sets every field before reading it;
  in the NPC build the call trace of the first instruction reads its \<open>pc\<close>, here 0.
\<close>

definition decode0 :: Decode where
  "decode0 = \<lparr>d_pc = 0, d_snpc = 0, d_dnpc = 0, d_inst = 0\<rparr>"

definition cpu_exec ::
    "config \<Rightarrow> dev_config \<Rightarrow> ('v, 'r) externals \<Rightarrow> u64 \<Rightarrow> ('v, 'r) emu \<Rightarrow> ('v, 'r) emu run" where
  "cpu_exec cfg dc ex n e =
     (let e = e\<lparr>g_print_step := (n < MAX_INST_TO_PRINT)\<rparr> in
      if state (nemu_state (sys e)) \<in> {NEMU_END, NEMU_ABORT, NEMU_QUIT} then Some (Inr e)
      else
        (case read_time (upd_sys (set_state NEMU_RUNNING) e) of (timer_start, e) \<Rightarrow>
          bindN (execute cfg dc ex (unat n) decode0 e) (\<lambda>e.
          (case read_time e of (timer_end, e) \<Rightarrow>
            let e = e\<lparr>g_timer := g_timer e + (timer_end - timer_start)\<rparr>
            in Some (Inr (if state (nemu_state (sys e)) = NEMU_RUNNING
                          then upd_sys (set_state NEMU_STOP) e else e))))))"

section \<open>state.c\<close>

definition is_exit_status_bad :: "system \<Rightarrow> bool \<times> (vaddr_t \<times> u32) list option \<times> system" where
  "is_exit_status_bad s =
     (case finalize_itrace_bin (itbin s) of (out, b) \<Rightarrow>
       let good = (state (nemu_state s) = NEMU_END \<and> halt_ret (nemu_state s) = 0) \<or>
                  state (nemu_state s) = NEMU_QUIT
       in (\<not> good, out, s\<lparr>itbin := b\<rparr>))"

end
