(* ===== verification/Cpu_Properties.thy ===== *)
theory Cpu_Properties
  imports Cpu_Exec Riscv_Properties
begin

text \<open>
  What the execution loop does: frames of a step, how many instructions a run executes, how
  runs compose, what stops them, and the run of the built-in image.
\<close>

section \<open>Frames of a step\<close>

lemma bindN_eq_Inr [result_simps]: "bindN m f = Some (Inr y) \<longleftrightarrow> (\<exists>x. m = Some (Inr x) \<and> f x = Some (Inr y))"
  by (cases "(m, f)" rule: bindN.cases) auto

definition halts :: "run_state \<Rightarrow> bool" where
  "halts st \<longleftrightarrow> st \<in> {NEMU_END, NEMU_ABORT, NEMU_QUIT}"

lemma isa_exec_once_frame:
  assumes "isa_exec_once cfg (d, s) = Inr (d1, t)"
  shows "g_nr_guest_inst t = g_nr_guest_inst s \<and>
    (nemu_state t = nemu_state s \<or> halts (state (nemu_state t)))"
proof -
  from assms obtain inst snpc u where f: "inst_fetch cfg (d_snpc d) 4 s = Inr (inst, snpc, u)"
    and x: "decode_exec cfg (d\<lparr>d_inst := inst, d_snpc := snpc\<rparr>, u) = Inr (d1, t)"
    by (auto simp: isa_exec_once_def result_simps)
  have u: "mem_frame s u"
    using f by (auto simp: inst_fetch_def vaddr_ifetch_def result_simps dest: paddr_read_frame)
  from x obtain ops n d0 w where "exec_inst cfg n ops (d0, u) = Inr (d1, w)" and "t = zero_x0 w"
    by (auto simp: decode_exec_eq result_simps)
  with exec_inst_frame u show ?thesis
    by (fastforce simp: inst_frame_def mem_frame_def zero_x0_def halts_def)
qed

lemma handle_events_frame:
  "handle_events dc es s = Inr t \<Longrightarrow> g_nr_guest_inst t = g_nr_guest_inst s \<and>
    (nemu_state t = nemu_state s \<or> halts (state (nemu_state t)))"
proof (induction dc es s rule: handle_events.induct)
  case (2 dc es s)
  then show ?case by (fastforce simp: halts_def)
next
  case (3 dc k down es s)
  show ?case
  proof (cases "HAS_KEYBOARD dc")
    case True
    with "3.prems" obtain u where u: "send_key k down s = Inr u" "handle_events dc es u = Inr t"
      by (auto simp: result_simps)
    moreover have "g_nr_guest_inst u = g_nr_guest_inst s" "nemu_state u = nemu_state s"
      using u(1) by (auto simp: send_key_def result_simps split: if_splits)
    ultimately show ?thesis using "3.IH"(1) True by metis
  qed (use 3 in simp)
qed auto

lemma device_update_frame:
  assumes "device_update cfg dc s = Inr t"
  shows "g_nr_guest_inst t = g_nr_guest_inst s \<and>
    (nemu_state t = nemu_state s \<or> halts (state (nemu_state t)))"
proof -
  obtain now d where g: "get_time (dev s) = (now, d)" by fastforce
  show ?thesis
  proof (cases "now - last_update d < 1000000 div TIMER_HZ")
    case True
    with assms g show ?thesis by (auto simp: device_update_def)
  next
    case False
    with assms g obtain u where
      u: "if_config (HAS_VGA dc) (vga_update_screen cfg) (s\<lparr>dev := d\<lparr>last_update := now\<rparr>\<rparr>) = Inr u"
      and h: "handle_events dc (sdl_queue (dev u)) (u\<lparr>dev := (dev u)\<lparr>sdl_queue := []\<rparr>\<rparr>) = Inr t"
      by (auto simp: device_update_def result_simps)
    have "bus_frame (s\<lparr>dev := d\<lparr>last_update := now\<rparr>\<rparr>) u"
      using u by (auto simp: if_config_def vga_update_screen_def update_screen_def result_simps
          split: if_splits intro: bus_frame_trans dest!: reg_store_frame)
    then show ?thesis using handle_events_frame [OF h] by (auto simp: bus_frame_def)
  qed
qed

lemma exec_once_native:
  assumes "\<not> CONFIG_NPC cfg" and "exec_once cfg ex d p e = Inr (d1, e1)"
  shows "g_nr_guest_inst (sys e1) = g_nr_guest_inst (sys e) \<and> sdb e1 = sdb e \<and>
    (nemu_state (sys e1) = nemu_state (sys e) \<or> halts (state (nemu_state (sys e1))))"
proof -
  let ?s = "(sys e)\<lparr>itbin := itrace_bin_record (pc (cpu (sys e))) (itbin (sys e))\<rparr>"
  let ?d = "d\<lparr>d_pc := p, d_snpc := p\<rparr>"
  show ?thesis
  proof (cases "isa_exec_once cfg (?d, ?s)")
    case (Inl x)
    with assms show ?thesis by (simp add: exec_once_def Let_def)
  next
    case (Inr y)
    then obtain d2 t where i: "isa_exec_once cfg (?d, ?s) = Inr (d2, t)" by (cases y) auto
    let ?e = "e\<lparr>sys := t\<lparr>cpu := (cpu t)\<lparr>pc := d_dnpc d2\<rparr>\<rparr>\<rparr>"
    have "(if CONFIG_ITRACE cfg then record_inst ex (d_pc d2) d2 ?e else Inr ?e) = Inr e1"
      using assms i by (simp add: exec_once_def Let_def bindR_eq_Inr split: if_splits)
    then obtain tr where "e1 = ?e\<lparr>sys := (sys ?e)\<lparr>itrace := tr\<rparr>\<rparr>"
      using that [of "itrace t"] by (cases "CONFIG_ITRACE cfg") (auto simp: record_inst_def bindR_eq_Inr)
    then show ?thesis using isa_exec_once_frame [OF i] by simp
  qed
qed

lemma run_inst_native:
  assumes "\<not> CONFIG_NPC cfg" and "pool_repr (sdb e) a f"
  shows "\<exists>r. run_inst cfg ex d e = Some r \<and> (\<forall>d1 e1. r = Inr (d1, e1) \<longrightarrow>
    g_nr_guest_inst (sys e1) = g_nr_guest_inst (sys e) + 1 \<and> pool_repr (sdb e1) a f \<and>
    (state (nemu_state (sys e1)) = state (nemu_state (sys e)) \<or> halts (state (nemu_state (sys e1))) \<or>
     CONFIG_WATCHPOINT cfg))"
proof (cases "exec_once cfg ex d (pc (cpu (sys e))) e")
  case (Inl x)
  then show ?thesis using assms(1) by (simp add: run_inst_def)
next
  case (Inr y)
  then obtain d1 e1 where x: "exec_once cfg ex d (pc (cpu (sys e))) e = Inr (d1, e1)" by (cases y) auto
  note fr = exec_once_native [OF assms(1) x]
  let ?e = "upd_sys (\<lambda>s. s\<lparr>g_nr_guest_inst := g_nr_guest_inst s + 1\<rparr>) e1"
  have "pool_repr (sdb ?e) a f" using fr assms(2) by simp
  from wp_difftest_total [OF this, of cfg "sys ?e"] obtain r where
    r: "wp_difftest cfg (sdb e1) (sys ?e) = Some r"
    "\<And>n b t. r = Inr (n, b, t) \<Longrightarrow> pool_repr b a f \<and> mem_frame (sys ?e) t \<and> (n = 0 \<or> CONFIG_WATCHPOINT cfg)"
    by auto
  show ?thesis
  proof (cases r)
    case (Inl z)
    then show ?thesis using x r(1) assms(1) by (simp add: run_inst_def trace_and_difftest_def Let_def)
  next
    case (Inr z)
    then obtain n b t where z: "r = Inr (n, b, t)" by (cases z) auto
    with r(1) have w: "wp_difftest cfg (sdb e1) (sys ?e) = Some (Inr (n, b, t))" by simp
    have "run_inst cfg ex d e = Some (Inr (d1, ?e\<lparr>sdb := b, sys := (if n > 0 then set_state NEMU_STOP t else t)\<rparr>))"
      using x w assms(1) by (simp add: run_inst_def trace_and_difftest_def Let_def)
    then show ?thesis
      using r(2) [OF z] fr by (auto simp: mem_frame_def set_state_def)
  qed
qed

text \<open>At most \<open>n\<close> instructions are executed, fewer only when the emulator halts or stops.\<close>

lemma execute_native:
  assumes "\<not> CONFIG_NPC cfg"
  shows "pool_repr (sdb e) a f \<Longrightarrow>
    state (nemu_state (sys e)) = NEMU_RUNNING \<or> halts (state (nemu_state (sys e))) \<Longrightarrow>
    \<exists>r. execute cfg dc ex n d e = Some r \<and> (\<forall>e1. r = Inr e1 \<longrightarrow>
      (\<exists>k \<le> n. g_nr_guest_inst (sys e1) = g_nr_guest_inst (sys e) + of_nat k \<and>
        (k = n \<or> halts (state (nemu_state (sys e1))) \<or> CONFIG_WATCHPOINT cfg)) \<and> pool_repr (sdb e1) a f)"
proof (induction n arbitrary: d e)
  case (Suc n)
  obtain r where r: "run_inst cfg ex d e = Some r"
    and fr: "\<And>d1 e1. r = Inr (d1, e1) \<Longrightarrow> g_nr_guest_inst (sys e1) = g_nr_guest_inst (sys e) + 1 \<and>
      pool_repr (sdb e1) a f \<and> (state (nemu_state (sys e1)) = state (nemu_state (sys e)) \<or>
      halts (state (nemu_state (sys e1))) \<or> CONFIG_WATCHPOINT cfg)"
    using run_inst_native [OF assms Suc.prems(1), of ex d] by auto
  show ?case
  proof (cases r)
    case (Inl x)
    with r show ?thesis by simp
  next
    case (Inr y)
    then obtain d1 e1 where y: "r = Inr (d1, e1)" by (cases y) auto
    note fr = fr [OF y]
    show ?thesis
    proof (cases "state (nemu_state (sys e1)) = NEMU_RUNNING")
      case False
      then show ?thesis
        using r y fr Suc.prems(2) by (auto intro!: exI [of _ 1])
    next
      case True
      show ?thesis
      proof (cases "if CONFIG_DEVICE cfg then device_update cfg dc (sys e1) else Inr (sys e1)")
        case (Inl x)
        with r y True show ?thesis by (auto split: if_splits)
      next
        case (Inr t)
        let ?e = "e1\<lparr>sys := t\<rparr>"
        have t: "g_nr_guest_inst t = g_nr_guest_inst (sys e1)"
          "nemu_state t = nemu_state (sys e1) \<or> halts (state (nemu_state t))"
          using Inr device_update_frame [of cfg dc "sys e1" t] by (auto split: if_splits)
        from True t(2) have "state (nemu_state (sys ?e)) = NEMU_RUNNING \<or> halts (state (nemu_state (sys ?e)))"
          by auto
        from Suc.IH [of ?e, OF _ this, of d1] fr obtain r2 where
          r2: "execute cfg dc ex n d1 ?e = Some r2"
          "\<And>e1. r2 = Inr e1 \<Longrightarrow> (\<exists>k \<le> n. g_nr_guest_inst (sys e1) = g_nr_guest_inst (sys ?e) + of_nat k \<and>
             (k = n \<or> halts (state (nemu_state (sys e1))) \<or> CONFIG_WATCHPOINT cfg)) \<and> pool_repr (sdb e1) a f"
          by auto
        have "execute cfg dc ex (Suc n) d e = Some r2"
          using r y True Inr r2(1) by (auto split: if_splits)
        moreover have "\<exists>k \<le> Suc n. g_nr_guest_inst (sys e1') = g_nr_guest_inst (sys e) + of_nat k \<and>
             (k = Suc n \<or> halts (state (nemu_state (sys e1'))) \<or> CONFIG_WATCHPOINT cfg)"
          if "r2 = Inr e1'" for e1'
        proof -
          from r2(2) [OF that] obtain k where k: "k \<le> n"
            "g_nr_guest_inst (sys e1') = g_nr_guest_inst (sys ?e) + of_nat k"
            "k = n \<or> halts (state (nemu_state (sys e1'))) \<or> CONFIG_WATCHPOINT cfg" by blast
          then show ?thesis using fr t(1) by (intro exI [of _ "Suc k"]) auto
        qed
        ultimately show ?thesis using r2(2) by blast
      qed
    qed
  qed
qed simp

section \<open>Runs\<close>

lemma halts_simps [simp]:
  "\<not> halts NEMU_RUNNING" "\<not> halts NEMU_STOP" "halts NEMU_END" "halts NEMU_ABORT" "halts NEMU_QUIT"
  by (simp_all add: halts_def)

lemma cpu_exec_native:
  assumes "\<not> CONFIG_NPC cfg" and "pool_repr (sdb e) a f"
  shows "\<exists>r. cpu_exec cfg dc ex n e = Some r \<and> (\<forall>e1. r = Inr e1 \<longrightarrow>
    state (nemu_state (sys e1)) \<noteq> NEMU_RUNNING \<and> pool_repr (sdb e1) a f \<and>
    (\<exists>k \<le> unat n. g_nr_guest_inst (sys e1) = g_nr_guest_inst (sys e) + of_nat k \<and>
      (k = unat n \<or> halts (state (nemu_state (sys e1))) \<or> CONFIG_WATCHPOINT cfg)))"
proof (cases "halts (state (nemu_state (sys e)))")
  case True
  then show ?thesis
    using assms(2) by (auto simp: cpu_exec_def halts_def intro!: exI [of _ 0])
next
  case False
  obtain t d where t: "get_time (dev (sys e)) = (t, d)" by fastforce
  let ?e = "e\<lparr>g_print_step := n < MAX_INST_TO_PRINT,
     sys := (set_state NEMU_RUNNING (sys e))\<lparr>dev := d\<rparr>\<rparr>"
  have "pool_repr (sdb ?e) a f" "state (nemu_state (sys ?e)) = NEMU_RUNNING \<or> halts (state (nemu_state (sys ?e)))"
    "g_nr_guest_inst (sys ?e) = g_nr_guest_inst (sys e)"
    using assms(2) by (simp_all add: set_state_def)
  from execute_native [OF assms(1) this(1,2), of dc ex "unat n" decode0] this(3) obtain r where
    r: "execute cfg dc ex (unat n) decode0 ?e = Some r"
    "\<And>e1. r = Inr e1 \<Longrightarrow> pool_repr (sdb e1) a f \<and> (\<exists>k \<le> unat n.
      g_nr_guest_inst (sys e1) = g_nr_guest_inst (sys e) + of_nat k \<and>
      (k = unat n \<or> halts (state (nemu_state (sys e1))) \<or> CONFIG_WATCHPOINT cfg))" by auto
  show ?thesis
  proof (cases r)
    case (Inl x)
    then show ?thesis
      using False r(1) t by (simp add: cpu_exec_def Let_def halts_def read_time_def set_state_def)
  next
    case (Inr e1)
    obtain t1 d1 where t1: "get_time (dev (sys e1)) = (t1, d1)" by fastforce
    let ?e1 = "e1\<lparr>sys := (sys e1)\<lparr>dev := d1\<rparr>, g_timer := g_timer e1 + (t1 - t)\<rparr>"
    have "cpu_exec cfg dc ex n e = Some (Inr (if state (nemu_state (sys e1)) = NEMU_RUNNING
        then upd_sys (set_state NEMU_STOP) ?e1 else ?e1))"
      using False r(1) t t1 Inr by (simp add: cpu_exec_def Let_def halts_def read_time_def set_state_def)
    then show ?thesis using r(2) [OF Inr] by (auto simp: set_state_def)
  qed
qed

text \<open>C14: The emulator's run command always returns: \<open>cpu_exec (n)\<close> of the interpreter ends
  with an error or in a state that is not \<open>NEMU_RUNNING\<close>, after at most \<open>n\<close> instructions, and
  fewer only when the program ended, aborted or quit, or watchpoints are compiled in. After
  the end of the program it does nothing.\<close>

theorem cpu_exec_contract:
  assumes "\<not> CONFIG_NPC cfg" and "pool_repr (sdb e) a f"
  shows "(\<exists>r. cpu_exec cfg dc ex n e = Some r \<and> (\<forall>e1. r = Inr e1 \<longrightarrow>
      state (nemu_state (sys e1)) \<noteq> NEMU_RUNNING \<and>
      (\<exists>k \<le> unat n. g_nr_guest_inst (sys e1) = g_nr_guest_inst (sys e) + of_nat k \<and>
        (k = unat n \<or> halts (state (nemu_state (sys e1))) \<or> CONFIG_WATCHPOINT cfg)))) \<and>
    (halts (state (nemu_state (sys e))) \<longrightarrow>
      cpu_exec cfg dc ex n e = Some (Inr (e\<lparr>g_print_step := n < MAX_INST_TO_PRINT\<rparr>)))"
  using cpu_exec_native [OF assms, of dc ex n] by (auto simp: cpu_exec_def halts_def)

text \<open>An environment for the examples: no Verilog model, no reference.\<close>

definition ext0 :: "(unit, unit) externals" where
  "ext0 = \<lparr>top_eval = Inr, top_clock = (\<lambda>_. False), set_clock = (\<lambda>_ v. v), set_reset = (\<lambda>_ v. v),
     new_top = (), signals = (\<lambda>_. \<lparr>n_gpr = (\<lambda>_. 0), n_pc = 0, n_difftest_signal = 0, n_inst = 0, n_cpc = 0,
       n_mtvec = 0, n_mstatus = 0, n_mepc = 0, n_mcause = 0, n_mtval = 0, n_mvendorid = 0, n_marchid = 0\<rparr>),
     cs_disasm = (\<lambda>_ _. [([110, 111, 112], [])]), ref_init = (\<lambda>_. Inr), ref_memcpy = (\<lambda>_ _. Inr),
     ref_regcpy = (\<lambda>_ c r. (c, r)), ref_exec = (\<lambda>_. Inr), ref_paddr_read = (\<lambda>_ _ r. Inr (0, r)),
     ref_mem_display = (\<lambda>_ _ r. Inr ([], r))\<rparr>"

definition emu_example :: "(unit, unit) emu" where
  "emu_example = (emu0 system_zero () ())\<lparr>sdb := init_wp_pool sdb0\<rparr>"

lemma cpu_exec_contract_witness:
  "\<exists>r. cpu_exec native_config (native_dev_config (\<lambda>_. 0)) ext0 1000 emu_example = Some r \<and> (\<forall>e1. r = Inr e1 \<longrightarrow>
      state (nemu_state (sys e1)) \<noteq> NEMU_RUNNING)"
proof -
  have "\<not> CONFIG_NPC native_config" by (simp add: native_config_def)
  moreover have "pool_repr (sdb emu_example) [] [0..<NR_WP]"
    by (simp add: emu_example_def init_pool_repr)
  ultimately show ?thesis
    using cpu_exec_contract [of native_config emu_example "[]" "[0..<NR_WP]" "native_dev_config (\<lambda>_. 0)" ext0 1000]
    by blast
qed

text \<open>
  The interpreter sets every field of the local \<open>Decode\<close> before it reads it, so that the
  value left by the previous instruction does not matter.
\<close>

lemma run_inst_decode:
  assumes "\<not> CONFIG_NPC cfg" shows "run_inst cfg ex d e = run_inst cfg ex d2 e"
proof -
  have "isa_exec_once cfg (d\<lparr>d_pc := p, d_snpc := p\<rparr>, s) = isa_exec_once cfg (d2\<lparr>d_pc := p, d_snpc := p\<rparr>, s)" for p s
    by (cases d; cases d2) (simp add: isa_exec_once_def decode_exec_eq)
  then show ?thesis using assms by (simp add: run_inst_def exec_once_def Let_def)
qed

lemma execute_decode:
  "\<not> CONFIG_NPC cfg \<Longrightarrow> execute cfg dc ex n d e = execute cfg dc ex n d2 e"
  using run_inst_decode [of cfg ex d e d2] by (cases n) simp_all

lemma execute_add:
  assumes "\<not> CONFIG_NPC cfg"
  shows "state (nemu_state (sys e)) = NEMU_RUNNING \<Longrightarrow> \<not> CONFIG_DEVICE cfg \<Longrightarrow>
    execute cfg dc ex (m + n) d e =
     bindN (execute cfg dc ex m d e) (\<lambda>e1.
     if state (nemu_state (sys e1)) = NEMU_RUNNING then execute cfg dc ex n decode0 e1 else Some (Inr e1))"
proof (induction m arbitrary: d e)
  case 0
  then show ?case using execute_decode [OF assms, of dc ex n d e decode0] by simp
next
  case (Suc m)
  show ?case
  proof (cases "run_inst cfg ex d e")
    case (Some r)
    then show ?thesis using Suc by (cases r) (auto split: prod.splits)
  qed simp
qed

text \<open>Stepping is compositional: in a build without devices, executing \<open>m + n\<close>
  instructions is executing \<open>m\<close> and, if the program is still running, \<open>n\<close> more; so that
  single-stepping a program with \<open>si\<close> leads to the same state as running it at once.\<close>

lemma execute_composes:
  assumes "\<not> CONFIG_NPC cfg" and "\<not> CONFIG_DEVICE cfg" and "state (nemu_state (sys e)) = NEMU_RUNNING"
  shows "execute cfg dc ex (m + n) d e =
     bindN (execute cfg dc ex m d e) (\<lambda>e1.
     if state (nemu_state (sys e1)) = NEMU_RUNNING then execute cfg dc ex n decode0 e1 else Some (Inr e1))"
  using assms by (simp add: execute_add)

text \<open>The run of the built-in image on a machine without devices.\<close>

definition bare_config :: config where
  "bare_config = native_config\<lparr>CONFIG_DEVICE := False, CONFIG_WATCHPOINT := True\<rparr>"

lemma bare_config_simps [simp]:
  "CONFIG_NPC bare_config = False" "CONFIG_DEVICE bare_config = False" "CONFIG_WATCHPOINT bare_config"
  "CONFIG_DIFFTEST bare_config = False" "CONFIG_ITRACE bare_config = True" "CONFIG_MBASE bare_config = 0x80000000"
  "CONFIG_MSIZE bare_config = 0x8000000" "CONFIG_RVE bare_config = False" "CONFIG_TARGET_SHARE bare_config = False"
  "YSYXSOC_ON_NEMU bare_config = False" "CONFIG_RT_CHECK bare_config = True" "CONFIG_PC_RESET_OFFSET bare_config = 0"
  by (simp_all add: bare_config_def native_config_def)

lemma bare_pmem:
  "k < 0x8000000 \<Longrightarrow> in_pmem bare_config (0x80000000 + of_nat k)"
  "unat ((0x80000000 + of_nat k) - CONFIG_MBASE bare_config) = k mod 2 ^ 32"
  by (simp_all add: in_pmem_def word_less_nat_alt unat_of_nat)

lemma bare_read:
  assumes "k < 0x8000000" and "host_load bare_config (harr s) (A_pmem, k) (nat n) = Inr w" and "n \<in> {1, 2, 4}"
  shows "paddr_read bare_config (0x80000000 + of_nat k) n s = Inr (w, s)"
proof -
  have "in_pmem bare_config (0x80000000 + of_nat k)" using bare_pmem(1) [OF assms(1)] .
  moreover have "k mod 2 ^ 32 = k" using assms(1) by simp
  ultimately show ?thesis
    using assms(2,3) bare_pmem(2) [of k]
    by (auto simp: paddr_read_def pmem_read_def readable_memory_def guest_to_host_def note_access_def
        host_read_def Let_def)
qed

lemma copy_words_total:
  "k + 4 * length ws \<le> area_size cfg a \<Longrightarrow> \<exists>h. copy_words cfg (a, k) ws m = Inr h"
proof (induction ws arbitrary: k m)
  case (Cons w ws)
  then show ?case by (auto simp: host_store_def)
qed simp

lemma copy_words_other:
  "copy_words cfg (a, k) ws m = Inr h \<Longrightarrow> j + n \<le> k \<Longrightarrow> host_load cfg h (a, j) n = host_load cfg m (a, j) n"
proof (induction ws arbitrary: k m)
  case (Cons w ws)
  then obtain m1 where m1: "host_store cfg (a, k) 4 w m = Inr m1" "copy_words cfg (a, k + 4) ws m1 = Inr h"
    by (auto simp: result_simps)
  have "host_load cfg h (a, j) n = host_load cfg m1 (a, j) n"
    using Cons.IH [OF m1(2)] Cons.prems(2) by simp
  also have "\<dots> = host_load cfg m (a, j) n"
    using host_store_other_load [OF m1(1), of "(a, j)" n] hrange_disjoint [of j n k a 4] Cons.prems(2) by simp
  finally show ?case .
qed simp

lemma copy_words_load:
  "copy_words cfg (a, k) ws m = Inr h \<Longrightarrow> i < length ws \<Longrightarrow> host_load cfg h (a, k + 4 * i) 4 = Inr (ws ! i)"
proof (induction ws arbitrary: k m i)
  case (Cons w ws)
  then obtain m1 where m1: "host_store cfg (a, k) 4 w m = Inr m1" "copy_words cfg (a, k + 4) ws m1 = Inr h"
    by (auto simp: result_simps)
  show ?case
  proof (cases i)
    case 0
    have "host_load cfg h (a, k) 4 = host_load cfg m1 (a, k) 4"
      by (rule copy_words_other [OF m1(2)]) simp
    then show ?thesis using host_store_same_load [OF m1(1)] 0 by simp
  next
    case (Suc j)
    with Cons.prems(2) Cons.IH [OF m1(2), of j] show ?thesis by (simp add: algebra_simps)
  qed
qed simp

lemma bare_exec_once:
  assumes disasm: "\<And>a c. \<exists>x. cs_disasm ex a c = [x]"
    and "pc (cpu (sys e)) = 0x80000000 + of_nat k" and "k < 0x8000000"
    and w: "host_load bare_config (harr (sys e)) (A_pmem, k) 4 = Inr w"
    and x: "\<And>b. decode_exec bare_config (\<lparr>d_pc = 0x80000000 + of_nat k, d_snpc = 0x80000000 + of_nat k + 4,
        d_dnpc = 0, d_inst = w\<rparr>, (sys e)\<lparr>itbin := b\<rparr>) = Inr (d1, f b)"
  shows "\<exists>b tr. exec_once bare_config ex d (pc (cpu (sys e))) e =
    Inr (d1, e\<lparr>sys := (f b)\<lparr>cpu := (cpu (f b))\<lparr>pc := d_dnpc d1\<rparr>, itrace := tr\<rparr>\<rparr>)"
proof -
  let ?p = "0x80000000 + of_nat k :: u32"
  let ?b = "itrace_bin_record (pc (cpu (sys e))) (itbin (sys e))"
  let ?s = "(sys e)\<lparr>itbin := ?b\<rparr>"
  have "paddr_read bare_config ?p 4 ?s = Inr (w, ?s)"
    using bare_read [OF assms(3), of ?s 4 w] w by simp
  then have iso: "isa_exec_once bare_config (d\<lparr>d_pc := ?p, d_snpc := ?p\<rparr>, ?s) = Inr (d1, f ?b)"
    using x [of ?b] by (cases d) (simp add: isa_exec_once_def inst_fetch_def vaddr_ifetch_def decode_exec_eq)
  obtain l where "logbuf ex (d_pc d1) d1 = Inr l"
    using disasm [of "ucast (d_pc d1)" "inst_bytes (d_inst d1) (sint (d_snpc d1 - d_pc d1))"]
    by (auto simp: logbuf_def disassemble_def Let_def)
  then show ?thesis
    using iso assms(2)
    by (intro exI [of _ ?b] exI [of _ "itrace_record l (d_pc d1) (itrace (f ?b))"])
      (simp add: exec_once_def Let_def record_inst_def)
qed

lemma bare_step:
  assumes disasm: "\<And>a c. \<exists>x. cs_disasm ex a c = [x]"
    and "pc (cpu (sys e)) = 0x80000000 + of_nat k" and "k < 0x8000000" and "wp_head (sdb e) = None"
    and w: "host_load bare_config (harr (sys e)) (A_pmem, k) 4 = Inr w"
    and x: "\<And>b. decode_exec bare_config (\<lparr>d_pc = 0x80000000 + of_nat k, d_snpc = 0x80000000 + of_nat k + 4,
        d_dnpc = 0, d_inst = w\<rparr>, (sys e)\<lparr>itbin := b\<rparr>) = Inr (d1, f b)"
    and frame: "\<And>b. d_pc d1 = 0x80000000 + of_nat k \<and> d_snpc d1 = d_pc d1 + 4"
  shows "\<exists>e1 b. run_inst bare_config ex d e = Some (Inr (d1, e1)) \<and>
    cpu (sys e1) = (cpu (f b))\<lparr>pc := d_dnpc d1\<rparr> \<and> harr (sys e1) = harr (f b) \<and> sdb e1 = sdb e \<and>
    nemu_state (sys e1) = nemu_state (f b) \<and> g_nr_guest_inst (sys e1) = g_nr_guest_inst (f b) + 1"
proof -
  obtain b tr where x: "exec_once bare_config ex d (pc (cpu (sys e))) e =
      Inr (d1, e\<lparr>sys := (f b)\<lparr>cpu := (cpu (f b))\<lparr>pc := d_dnpc d1\<rparr>, itrace := tr\<rparr>\<rparr>)"
    using bare_exec_once [OF disasm assms(2,3) w x, of d] by blast
  let ?e = "e\<lparr>sys := (f b)\<lparr>cpu := (cpu (f b))\<lparr>pc := d_dnpc d1\<rparr>, itrace := tr,
      g_nr_guest_inst := g_nr_guest_inst (f b) + 1\<rparr>\<rparr>"
  have "wp_difftest bare_config (sdb e) (sys ?e) = Some (Inr (0, sdb e, sys ?e))"
    using assms(4) by (simp add: wp_difftest_def wp_difftest_from.simps)
  then have "run_inst bare_config ex d e = Some (Inr (d1, ?e))"
    using x by (simp add: run_inst_def trace_and_difftest_def Let_def)
  then show ?thesis by (intro exI [of _ ?e] exI [of _ b]) simp
qed

lemma img_decodes:
  "rv32_decode 0x00000297 = I_auipc" "rv32_decode 0x00028823 = I_sb"
  "rv32_decode 0x0102c503 = I_lbu" "rv32_decode 0x00100073 = I_ebreak"
  by (simp_all add: rv32_decode_def Let_def rv_op_def rv_f3_def rv_f7_def pick_Cons)

lemma img_operands:
  "decode_operand bare_config 0x00000297 TYPE_U c = Inr
     \<lparr>op_rd = 5, op_rs1 = 0, op_src1 = 0, op_src2 = 0, op_imm = 0\<rparr>"
  "decode_operand bare_config 0x00028823 TYPE_S c = Inr
     \<lparr>op_rd = 16, op_rs1 = 5, op_src1 = gpr c 5, op_src2 = gpr c 0, op_imm = 16\<rparr>"
  "decode_operand bare_config 0x0102c503 TYPE_I c = Inr
     \<lparr>op_rd = 10, op_rs1 = 5, op_src1 = gpr c 5, op_src2 = 0, op_imm = 16\<rparr>"
  "decode_operand bare_config 0x00100073 TYPE_N c = Inr
     \<lparr>op_rd = 0, op_rs1 = 0, op_src1 = 0, op_src2 = 0, op_imm = 0\<rparr>"
  by (simp_all add: decode_operand_def Let_def BITS_def BITMASK_def read_gpr_def check_reg_idx_def
     reg_num_def immU_def immS_def immI_def SEXT_def)
lemma bare_write:
  assumes "k < 0x8000000" and "host_store bare_config (A_pmem, k) (nat n) v (harr s) = Inr h" and "n \<in> {1, 2, 4}"
  shows "paddr_write bare_config (0x80000000 + of_nat k) n v s = Inr (s\<lparr>harr := h\<rparr>)"
proof -
  have "in_pmem bare_config (0x80000000 + of_nat k)" using bare_pmem(1) [OF assms(1)] .
  moreover have "k mod 2 ^ 32 = k" using assms(1) by simp
  ultimately show ?thesis
    using assms(2,3) bare_pmem(2) [of k]
    by (auto simp: paddr_write_def pmem_write_def writable_memory_def guest_to_host_def note_access_def
        host_write_def Let_def)
qed

lemma bare_regs [simp]: "reg_num bare_config = 32" "difftest_skip_ref bare_config s = s"
  by (simp_all add: reg_num_def difftest_skip_ref_def)

text \<open>The four instructions of the image that are executed.\<close>

lemma img_steps:
  "decode_exec bare_config (\<lparr>d_pc = p, d_snpc = p + 4, d_dnpc = 0, d_inst = 0x00000297\<rparr>, s) =
     Inr (\<lparr>d_pc = p, d_snpc = p + 4, d_dnpc = p + 4, d_inst = 0x00000297\<rparr>, set_reg 5 p s)"
  "gpr (cpu s) 5 = 0x80000000 \<Longrightarrow> gpr (cpu s) 0 = 0 \<Longrightarrow>
   host_store bare_config (A_pmem, 16) 1 0 (harr s) = Inr h \<Longrightarrow>
   decode_exec bare_config (\<lparr>d_pc = p, d_snpc = p + 4, d_dnpc = 0, d_inst = 0x00028823\<rparr>, s) =
     Inr (\<lparr>d_pc = p, d_snpc = p + 4, d_dnpc = p + 4, d_inst = 0x00028823\<rparr>, zero_x0 (s\<lparr>harr := h\<rparr>))"
  "gpr (cpu s) 5 = 0x80000000 \<Longrightarrow> host_load bare_config (harr s) (A_pmem, 16) 1 = Inr v \<Longrightarrow>
   decode_exec bare_config (\<lparr>d_pc = p, d_snpc = p + 4, d_dnpc = 0, d_inst = 0x0102c503\<rparr>, s) =
     Inr (\<lparr>d_pc = p, d_snpc = p + 4, d_dnpc = p + 4, d_inst = 0x0102c503\<rparr>, set_reg 10 v s)"
  "decode_exec bare_config (\<lparr>d_pc = p, d_snpc = p + 4, d_dnpc = 0, d_inst = 0x00100073\<rparr>, s) =
     Inr (\<lparr>d_pc = p, d_snpc = p + 4, d_dnpc = p + 4, d_inst = 0x00100073\<rparr>,
       zero_x0 (s\<lparr>nemu_state := \<lparr>state = NEMU_END, halt_pc = p, halt_ret = gpr (cpu s) 10\<rparr>\<rparr>))"
  using bare_write [of 16 1 0 s h] bare_read [of 16 s 1 v]
  by (simp_all add: decode_exec_eq img_decodes rv32_format_def img_operands exec_inst_def Let_def
      R_set_ok set_reg_def zero_x0_def store_src2_def vaddr_write_def load_ext_def vaddr_read_def
      read_gpr_ok set_nemu_state_def)

lemma init_isa_bare:
  "\<exists>h. init_isa bare_config s = Inr (restart bare_config (s\<lparr>harr := h\<rparr>)) \<and>
    (\<forall>i < 5. host_load bare_config h (A_pmem, 4 * i) 4 = Inr (img ! i))"
proof -
  have p: "guest_to_host bare_config (RESET_VECTOR bare_config) = Inr (A_pmem, 0)"
    by (simp add: RESET_VECTOR_def PMEM_LEFT_def guest_to_host_def in_pmem_def)
  obtain h where h: "copy_words bare_config (A_pmem, 0) img (harr s) = Inr h"
    using copy_words_total [of 0 img bare_config A_pmem "harr s"] by (auto simp: img_def)
  have "host_load bare_config h (A_pmem, 4 * i) 4 = Inr (img ! i)" if "i < 5" for i
    using copy_words_load [OF h, of i] that by (simp add: img_def)
  with p h show ?thesis by (intro exI [of _ h]) (simp add: init_isa_def)
qed

lemma img_words:
  assumes "\<forall>i < 5. host_load bare_config h (A_pmem, 4 * i) 4 = Inr (img ! i)"
  shows "host_load bare_config h (A_pmem, 0) 4 = Inr 0x00000297" "host_load bare_config h (A_pmem, 4) 4 = Inr 0x00028823"
    "host_load bare_config h (A_pmem, 8) 4 = Inr 0x0102c503" "host_load bare_config h (A_pmem, 12) 4 = Inr 0x00100073"
  using spec [OF assms, of 0] spec [OF assms, of 1] spec [OF assms, of 2] spec [OF assms, of 3]
  by (simp_all add: img_def)

definition image_at :: "nat \<Rightarrow> u32 \<Rightarrow> u32 \<Rightarrow> harrays \<Rightarrow> ('v, 'r) emu \<Rightarrow> bool" where
  "image_at k g5 g10 h e \<longleftrightarrow>
     pc (cpu (sys e)) = 0x80000000 + of_nat k \<and> gpr (cpu (sys e)) 0 = 0 \<and> gpr (cpu (sys e)) 5 = g5 \<and>
     gpr (cpu (sys e)) 10 = g10 \<and> harr (sys e) = h \<and> state (nemu_state (sys e)) = NEMU_RUNNING \<and> wp_head (sdb e) = None"

abbreviation (input) img_decode :: "nat \<Rightarrow> u32 \<Rightarrow> Decode" where
  "img_decode k w \<equiv> \<lparr>d_pc = 0x80000000 + of_nat k, d_snpc = 0x80000000 + of_nat k + 4,
     d_dnpc = 0x80000000 + of_nat k + 4, d_inst = w\<rparr>"

lemma image_step:
  assumes "\<And>a c. \<exists>x. cs_disasm ex a c = [x]" and "image_at k g5 g10 h e" and "k < 0x8000000"
    and "host_load bare_config h (A_pmem, k) 4 = Inr w"
    and "\<And>b. decode_exec bare_config (\<lparr>d_pc = 0x80000000 + of_nat k, d_snpc = 0x80000000 + of_nat k + 4,
        d_dnpc = 0, d_inst = w\<rparr>, (sys e)\<lparr>itbin := b\<rparr>) = Inr (img_decode k w, f b)"
  shows "\<exists>e1 b. run_inst bare_config ex d e = Some (Inr (img_decode k w, e1)) \<and>
    cpu (sys e1) = (cpu (f b))\<lparr>pc := 0x80000000 + of_nat (k + 4)\<rparr> \<and> harr (sys e1) = harr (f b) \<and> sdb e1 = sdb e \<and>
    nemu_state (sys e1) = nemu_state (f b) \<and> g_nr_guest_inst (sys e1) = g_nr_guest_inst (f b) + 1"
  using bare_step [of ex e k w "img_decode k w" f d] assms by (simp add: image_at_def add.commute add.left_commute)

lemma image_runs:
  fixes e :: "('v, 'r) emu"
  assumes disasm: "\<And>a c. \<exists>x. cs_disasm ex a c = [x]" and e: "image_at 0 g5 g10 h e"
    and img: "\<forall>i < 5. host_load bare_config h (A_pmem, 4 * i) 4 = Inr (img ! i)"
  shows "\<exists>e1. execute bare_config dc ex (n + 4) d e = Some (Inr e1) \<and>
    nemu_state (sys e1) = \<lparr>state = NEMU_END, halt_pc = 0x8000000c, halt_ret = 0\<rparr> \<and>
    g_nr_guest_inst (sys e1) = g_nr_guest_inst (sys e) + 4"
proof -
  note words = img_words [OF img]
  note at = image_at_def
  obtain e1 where 1: "run_inst bare_config ex d e = Some (Inr (img_decode 0 0x297, e1))"
    "image_at 4 0x80000000 g10 h e1" "g_nr_guest_inst (sys e1) = g_nr_guest_inst (sys e) + 1"
    using image_step [OF disasm e _ words(1) img_steps(1) [of "0x80000000 + of_nat 0"], of d] e
    by (auto simp: at set_reg_def zero_x0_def)
  obtain h2 where h2: "host_store bare_config (A_pmem, 16) 1 0 h = Inr h2"
    by (auto simp: host_store_def)
  have w2: "host_load bare_config h2 (A_pmem, 8) 4 = Inr 0x0102c503" "host_load bare_config h2 (A_pmem, 12) 4 = Inr 0x00100073"
    "host_load bare_config h2 (A_pmem, 16) 1 = Inr 0"
    using host_store_other_load [OF h2 hrange_disjoint [of 8 4 16]] host_store_other_load [OF h2 hrange_disjoint [of 12 4 16]]
      host_store_same_load [OF h2] words by simp_all
  have "decode_exec bare_config (\<lparr>d_pc = 0x80000000 + of_nat 4, d_snpc = 0x80000000 + of_nat 4 + 4, d_dnpc = 0,
      d_inst = 0x00028823\<rparr>, sys e1\<lparr>itbin := b\<rparr>) = Inr (img_decode 4 0x00028823, zero_x0 (sys e1\<lparr>itbin := b, harr := h2\<rparr>))" for b
    by (rule img_steps(2)) (use 1(2) h2 in \<open>simp_all add: at\<close>)
  from image_step [OF disasm 1(2) _ words(2) this, of "img_decode 0 0x297"] 1(2)
  obtain e2 d2 where 2: "run_inst bare_config ex (img_decode 0 0x297) e1 = Some (Inr (d2, e2))"
    "image_at 8 0x80000000 g10 h2 e2" "g_nr_guest_inst (sys e2) = g_nr_guest_inst (sys e1) + 1"
    by (auto simp: at zero_x0_def)
  have "decode_exec bare_config (\<lparr>d_pc = 0x80000000 + of_nat 8, d_snpc = 0x80000000 + of_nat 8 + 4, d_dnpc = 0,
      d_inst = 0x0102c503\<rparr>, sys e2\<lparr>itbin := b\<rparr>) = Inr (img_decode 8 0x0102c503, set_reg 10 0 (sys e2\<lparr>itbin := b\<rparr>))" for b
    by (rule img_steps(3)) (use 2(2) w2 in \<open>simp_all add: at\<close>)
  from image_step [OF disasm 2(2) _ w2(1) this, of d2] 2(2)
  obtain e3 d3 where 3: "run_inst bare_config ex d2 e2 = Some (Inr (d3, e3))"
    "image_at 12 0x80000000 0 h2 e3" "g_nr_guest_inst (sys e3) = g_nr_guest_inst (sys e2) + 1"
    by (auto simp: at set_reg_def zero_x0_def)
  from image_step [OF disasm 3(2) _ w2(2) img_steps(4), of d3] 3(2)
  obtain e4 d4 where 4: "run_inst bare_config ex d3 e3 = Some (Inr (d4, e4))"
    "nemu_state (sys e4) = \<lparr>state = NEMU_END, halt_pc = 0x8000000c, halt_ret = 0\<rparr>"
    "g_nr_guest_inst (sys e4) = g_nr_guest_inst (sys e3) + 1"
    by (auto simp: at zero_x0_def)
  show ?thesis
    using 1 2 3 4 by (auto simp: at numeral_eq_Suc)
qed
lemma image_cpu_exec:
  assumes disasm: "\<And>a c. \<exists>x. cs_disasm ex a c = [x]" and n: "4 \<le> n"
    and "pc (cpu (sys e)) = 0x80000000" and "gpr (cpu (sys e)) 0 = 0" and "wp_head (sdb e) = None"
    and img: "\<forall>i < 5. host_load bare_config (harr (sys e)) (A_pmem, 4 * i) 4 = Inr (img ! i)"
    and "\<not> halts (state (nemu_state (sys e)))"
  shows "\<exists>e1. cpu_exec bare_config dc ex n e = Some (Inr e1) \<and>
    nemu_state (sys e1) = \<lparr>state = NEMU_END, halt_pc = 0x8000000c, halt_ret = 0\<rparr> \<and>
    g_nr_guest_inst (sys e1) = g_nr_guest_inst (sys e) + 4 \<and> \<not> fst (is_exit_status_bad (sys e1))"
proof -
  obtain t d where t: "get_time (dev (sys e)) = (t, d)" by fastforce
  let ?e = "e\<lparr>g_print_step := n < MAX_INST_TO_PRINT, sys := (set_state NEMU_RUNNING (sys e))\<lparr>dev := d\<rparr>\<rparr>"
  have "image_at 0 (gpr (cpu (sys e)) 5) (gpr (cpu (sys e)) 10) (harr (sys e)) ?e"
    using assms(3-5) by (simp add: image_at_def set_state_def)
  from image_runs [OF disasm this img, of dc "unat n - 4" decode0] n obtain e1
    where e1: "execute bare_config dc ex (unat n) decode0 ?e = Some (Inr e1)"
      "nemu_state (sys e1) = \<lparr>state = NEMU_END, halt_pc = 0x8000000c, halt_ret = 0\<rparr>"
      "g_nr_guest_inst (sys e1) = g_nr_guest_inst (sys e) + 4"
    by (auto simp: word_le_nat_alt set_state_def)
  have rt: "read_time (upd_sys (set_state NEMU_RUNNING) (e\<lparr>g_print_step := n < MAX_INST_TO_PRINT\<rparr>)) = (t, ?e)"
    using t by (simp add: read_time_def set_state_def)
  obtain t1 d1 where t1: "get_time (dev (sys e1)) = (t1, d1)" by fastforce
  have "cpu_exec bare_config dc ex n e =
      Some (Inr (e1\<lparr>sys := (sys e1)\<lparr>dev := d1\<rparr>, g_timer := g_timer e1 + (t1 - t)\<rparr>))"
    using rt e1 t1 assms(7) by (simp add: cpu_exec_def Let_def read_time_def halts_def)
  then show ?thesis
    using e1(2,3) by (auto simp: is_exit_status_bad_def Let_def split: prod.splits)
qed

lemma execute_composes_witness:
  "execute bare_config (native_dev_config (\<lambda>_. 0)) ext0 (1 + 2) decode0 (upd_sys (set_state NEMU_RUNNING) emu_example) =
     bindN (execute bare_config (native_dev_config (\<lambda>_. 0)) ext0 1 decode0 (upd_sys (set_state NEMU_RUNNING) emu_example)) (\<lambda>e1.
     if state (nemu_state (sys e1)) = NEMU_RUNNING then execute bare_config (native_dev_config (\<lambda>_. 0)) ext0 2 decode0 e1
     else Some (Inr e1))"
  by (rule execute_composes) (simp_all add: set_state_def)

section \<open>The call trace of the NPC build\<close>

lemma npc_jal_imm_bits:
  "npc_jal_imm inst = (if bit inst 31 then immJ inst OR 0xff000 else immJ inst)"
proof -
  have sgn: "drop_bit 31 inst AND 1 \<noteq> 0 \<longleftrightarrow> bit inst 31"
    by (simp add: and_one_eq bit_iff_odd_drop_bit odd_iff_mod_2_eq_one)
  show ?thesis
  proof (cases "bit inst 31")
    case True
    have "npc_jal_imm inst = immJ inst OR 0xff000"
      unfolding npc_jal_imm_def using sgn True
      by (simp only: if_True) (rule u32_eqI, elim insertE emptyE;
          simp only: immJ_def imm_bits; simp add: numeral_2_eq_2 [symmetric])
    with True show ?thesis by simp
  next
    case False
    have "npc_jal_imm inst = immJ inst"
      unfolding npc_jal_imm_def using sgn False
      by (simp only: if_False) (rule u32_eqI, elim insertE emptyE;
          simp only: immJ_def imm_bits; simp add: numeral_2_eq_2 [symmetric])
    with False show ?thesis by simp
  qed
qed

lemma npc_jalr_imm: "drop_bit 20 inst = immI inst \<longleftrightarrow> \<not> bit inst 31"
proof (cases "bit inst 31")
  case True
  have "bit (immI inst) 31 = bit inst 31" by (simp add: immI_def imm_bits)
  moreover have "\<not> bit (drop_bit 20 inst) 31"
    by (auto simp: bit_drop_bit_eq dest: bit_imp_le_length)
  ultimately show ?thesis using True by metis
next
  case False
  have "drop_bit 20 inst = immI inst"
    using False
    by (intro u32_eqI) (elim insertE emptyE; simp only: immI_def imm_bits;
        auto simp: numeral_2_eq_2 [symmetric] dest: bit_imp_le_length)
  with False show ?thesis by simp
qed

text \<open>The call trace of the NPC build extracts the offset of a forward \<open>jal\<close> correctly, but
  for a backward one it sets bits 12 to 19 to one, whatever the instruction has there; and it
  takes the offset of \<open>jalr\<close> without its sign. The interpreter's decoder does neither.\<close>

lemma npc_trace_immediates:
  "npc_jal_imm inst = (if bit inst 31 then immJ inst OR 0xff000 else immJ inst) \<and>
   (drop_bit 20 inst = immI inst \<longleftrightarrow> \<not> bit inst 31)"
  by (simp add: npc_jal_imm_bits npc_jalr_imm)

end
