(* ===== verification/Difftest_Ref.thy ===== *)
theory Difftest_Ref
  imports Cpu_Properties
begin

text \<open>
  NEMU as the reference of differential testing, \<open>nemu/src/cpu/difftest/ref.c\<close> (a build with
  \<open>CONFIG_TARGET_SHARE\<close>), the contract a reference's register interface has to keep, and what
  a step of differential testing decides.
\<close>

section \<open>ref.c\<close>

definition difftest_paddr_read ::
    "config \<Rightarrow> paddr_t \<Rightarrow> int \<Rightarrow> ('v, 'r) emu \<Rightarrow> (word_t \<times> ('v, 'r) emu) result" where
  "difftest_paddr_read cfg addr len e =
     bindR (paddr_read cfg addr len (sys e)) (\<lambda>(w, s). Inr (w, e\<lparr>sys := s\<rparr>))"

fun write_bytes :: "hptr \<Rightarrow> u8 list \<Rightarrow> harrays \<Rightarrow> harrays" where
  "write_bytes p [] m = m"
| "write_bytes p (b # bs) m = write_bytes (fst p, Suc (snd p)) bs (hput p b m)"

definition difftest_memcpy_to_ref ::
    "config \<Rightarrow> paddr_t \<Rightarrow> u8 list \<Rightarrow> ('v, 'r) emu \<Rightarrow> ('v, 'r) emu result" where
  "difftest_memcpy_to_ref cfg addr buf e =
     (if guest_in_memory cfg addr then
        bindR (guest_to_host cfg addr) (\<lambda>p.
        if hin_bounds cfg p (length buf) then Inr (upd_sys (\<lambda>s. s\<lparr>harr := write_bytes p buf (harr s)\<rparr>) e)
        else Inl (Undefined ''host write outside the array''))
      else Inl (Assert_failed ''DIFFTEST_TO_REF''))"

definition difftest_memcpy_to_dut ::
    "config \<Rightarrow> paddr_t \<Rightarrow> nat \<Rightarrow> ('v, 'r) emu \<Rightarrow> u8 list result" where
  "difftest_memcpy_to_dut cfg addr n e =
     (if guest_in_memory cfg addr then guest_bytes cfg addr n (sys e)
      else Inl (Assert_failed ''DIFFTEST_TO_DUT''))"

definition copied_csrs :: "nat list" where
  "copied_csrs = [CSR_MTVEC, CSR_MCAUSE, CSR_MEPC, CSR_MSTATUS, CSR_MTVAL, CSR_MVENDORID, CSR_MARCHID]"

text \<open>The registers \<open>from\<close> that are copied over those of \<open>to\<close>, with the given pc and CSRs.\<close>

definition copy_regs :: "vaddr_t \<Rightarrow> nat list \<Rightarrow> CPU_state \<Rightarrow> CPU_state \<Rightarrow> CPU_state" where
  "copy_regs p csrs from to =
     to\<lparr>pc := p, gpr := (\<lambda>i. if i < 32 then gpr from i else gpr to i),
        sr := (\<lambda>i. if i \<in> set csrs then sr from i else sr to i)\<rparr>"

definition difftest_regcpy ::
    "direction \<Rightarrow> CPU_state \<Rightarrow> ('v, 'r) emu \<Rightarrow> CPU_state \<times> ('v, 'r) emu" where
  "difftest_regcpy dir dut e =
     (case dir of
        DIFFTEST_TO_REF_SKIP_REF \<Rightarrow>
          (dut, upd_sys (\<lambda>s. s\<lparr>cpu := copy_regs (npc_for_pipeline dut) copied_csrs dut (cpu s)\<rparr>) e)
      | DIFFTEST_TO_REF \<Rightarrow>
          (dut, upd_sys (\<lambda>s. s\<lparr>cpu := copy_regs (cpc dut) copied_csrs dut (cpu s)\<rparr>) e)
      | DIFFTEST_TO_DUT \<Rightarrow>
          (copy_regs (pc (cpu (sys e))) [CSR_MTVEC, CSR_MCAUSE, CSR_MEPC, CSR_MSTATUS, CSR_MTVAL]
             (cpu (sys e)) dut, e))"

fun difftest_mem_display ::
    "config \<Rightarrow> nat \<Rightarrow> u32 \<Rightarrow> ('v, 'r) emu \<Rightarrow> ((u32 \<times> u32) list \<times> ('v, 'r) emu) result" where
  "difftest_mem_display cfg 0 a e = Inr ([], e)"
| "difftest_mem_display cfg (Suc n) a e =
     bindR (difftest_paddr_read cfg a 4 e) (\<lambda>(w, e).
     bindR (difftest_mem_display cfg n (a + 4) e) (\<lambda>(ls, e). Inr ((a, w) # ls, e)))"

definition run_result :: "'a run \<Rightarrow> 'a result" where
  "run_result m = (case m of None \<Rightarrow> Inl (Undefined ''does not return'') | Some r \<Rightarrow> r)"

definition difftest_exec ::
    "config \<Rightarrow> dev_config \<Rightarrow> ('v, 'r) externals \<Rightarrow> u64 \<Rightarrow> ('v, 'r) emu \<Rightarrow> ('v, 'r) emu result" where
  "difftest_exec cfg dc ex n e = run_result (cpu_exec cfg dc ex n e)"

definition difftest_raise_intr :: "word_t \<Rightarrow> ('v, 'r) emu \<Rightarrow> ('v, 'r) emu result" where
  "difftest_raise_intr NO e = Inl (Assert_failed ''difftest_raise_intr'')"

definition difftest_mem_flag_to_dut :: "('v, 'r) emu \<Rightarrow> Mem_flag \<times> ('v, 'r) emu" where
  "difftest_mem_flag_to_dut e =
     (mem_flag (sys e), upd_sys (\<lambda>s. s\<lparr>mem_flag := (mem_flag s)\<lparr>flag := 0\<rparr>\<rparr>) e)"

definition difftest_init :: "config \<Rightarrow> u8 option \<Rightarrow> int \<Rightarrow> ('v, 'r) emu \<Rightarrow> ('v, 'r) emu result" where
  "difftest_init cfg mem_random port e =
     bindR (init_isa cfg (init_mem mem_random (sys e))) (\<lambda>s. Inr (e\<lparr>sys := s\<rparr>))"

text \<open>The emulator under test linked with NEMU as its reference.\<close>

definition with_nemu_ref ::
    "config \<Rightarrow> dev_config \<Rightarrow> ('w, 'x) externals \<Rightarrow> u8 option \<Rightarrow>
     ('v, ('w, 'x) emu) externals \<Rightarrow> ('v, ('w, 'x) emu) externals" where
  "with_nemu_ref rcfg rdc rex mem_random ex =
     ex\<lparr>ref_init := difftest_init rcfg mem_random, ref_memcpy := difftest_memcpy_to_ref rcfg,
        ref_regcpy := difftest_regcpy, ref_exec := difftest_exec rcfg rdc rex,
        ref_paddr_read := difftest_paddr_read rcfg,
        ref_mem_display := (\<lambda>n. difftest_mem_display rcfg (nat n))\<rparr>"

section \<open>The register interface of a reference\<close>

definition checked_csrs :: "nat list" where
  "checked_csrs = [CSR_MTVEC, CSR_MCAUSE, CSR_MEPC, CSR_MSTATUS, CSR_MTVAL]"

definition regs_agree :: "CPU_state \<Rightarrow> CPU_state \<Rightarrow> vaddr_t \<Rightarrow> bool" where
  "regs_agree x c p \<longleftrightarrow>
     pc x = p \<and> (\<forall>i < 32. gpr x i = gpr c i) \<and> (\<forall>k \<in> set checked_csrs. sr x k = sr c k)"

lemma checkregs_agree: "regs_agree x c p \<Longrightarrow> isa_difftest_checkregs cfg x p c"
  by (auto simp: regs_agree_def checked_csrs_def isa_difftest_checkregs_def list_all_iff)

text \<open>
  What differential testing relies on: registers sent to the reference come back, with the
  pc of the next instruction when an instruction was skipped and that of the current one at
  the start, and reading them changes nothing.
\<close>

locale reference_registers =
  fixes regcpy :: "direction \<Rightarrow> CPU_state \<Rightarrow> 'r \<Rightarrow> CPU_state \<times> 'r"
  assumes read_pure: "snd (regcpy DIFFTEST_TO_DUT c r) = r"
    and skip_then_read: "regs_agree
      (fst (regcpy DIFFTEST_TO_DUT d (snd (regcpy DIFFTEST_TO_REF_SKIP_REF c r)))) c (npc_for_pipeline c)"
    and start_then_read: "regs_agree
      (fst (regcpy DIFFTEST_TO_DUT d (snd (regcpy DIFFTEST_TO_REF c r)))) c (cpc c)"
begin

lemma skip_step:
  fixes ex :: "('v, 'r) externals"
  assumes "ref_regcpy ex = regcpy" and "CONFIG_NPC cfg" and "is_skip_ref (sys e)" and "skip_dut_nr_inst (sys e) \<le> 0"
  shows "\<exists>e1. difftest_step cfg ex p q e = Inr e1 \<and> \<not> is_skip_ref (sys e1) \<and> cpu (sys e1) = cpu (sys e) \<and>
    nemu_state (sys e1) = nemu_state (sys e) \<and>
    isa_difftest_checkregs cfg (fst (ref_registers ex e1)) (npc_for_pipeline (cpu (sys e))) (cpu (sys e)) \<and>
    snd (ref_registers ex e1) = e1"
proof -
  let ?r = "snd (regcpy DIFFTEST_TO_REF_SKIP_REF (cpu (sys e)) (ref_state e))"
  let ?e = "e\<lparr>ref_state := ?r, sys := (sys e)\<lparr>is_skip_ref := False\<rparr>\<rparr>"
  have "difftest_step cfg ex p q e = Inr ?e"
    using assms by (simp add: difftest_step_def skip_direction_def)
  moreover have "isa_difftest_checkregs cfg (fst (regcpy DIFFTEST_TO_DUT (cpu (sys e)) ?r))
      (npc_for_pipeline (cpu (sys e))) (cpu (sys e))"
    by (rule checkregs_agree [OF skip_then_read])
  moreover have "snd (regcpy DIFFTEST_TO_DUT (cpu (sys e)) ?r) = ?r" by (rule read_pure)
  ultimately show ?thesis
    by (auto simp: ref_registers_def assms(1) split: prod.splits)
qed

end

interpretation nemu_ref: reference_registers "difftest_regcpy :: direction \<Rightarrow> CPU_state \<Rightarrow> ('v, 'r) emu \<Rightarrow> _"
  by unfold_locales
    (simp_all add: difftest_regcpy_def regs_agree_def copy_regs_def copied_csrs_def checked_csrs_def)

section \<open>What a step decides\<close>

text \<open>C30: In an NPC build with NEMU as the reference, a step marked to be skipped (a device access, a counter)
  never fails, clears the mark, and leaves the reference with the registers of the device
  under test: a register check at its next pc would pass.\<close>

theorem difftest_skip_resynchronises:
  fixes ex :: "('v, ('w, 'x) emu) externals"
  assumes "CONFIG_NPC cfg" and "is_skip_ref (sys e)" and "skip_dut_nr_inst (sys e) \<le> 0"
    and "ex' = with_nemu_ref rcfg rdc rex mem_random ex"
  shows "\<exists>e1. difftest_step cfg ex' p q e = Inr e1 \<and> \<not> is_skip_ref (sys e1) \<and>
    nemu_state (sys e1) = nemu_state (sys e) \<and>
    isa_difftest_checkregs cfg (fst (ref_registers ex' e1)) (npc_for_pipeline (cpu (sys e1))) (cpu (sys e1))"
proof -
  have "ref_regcpy ex' = difftest_regcpy" by (simp add: assms(4) with_nemu_ref_def)
  from nemu_ref.skip_step [OF this assms(1,2,3), of p q] show ?thesis by metis
qed

definition ext1 :: "(unit, (unit, unit) emu) externals" where
  "ext1 = \<lparr>top_eval = Inr, top_clock = (\<lambda>_. False), set_clock = (\<lambda>_ v. v), set_reset = (\<lambda>_ v. v),
     new_top = (), signals = (\<lambda>_. signals ext0 ()), cs_disasm = cs_disasm ext0, ref_init = (\<lambda>_. Inr),
     ref_memcpy = (\<lambda>_ _. Inr), ref_regcpy = (\<lambda>_ c r. (c, r)), ref_exec = (\<lambda>_. Inr),
     ref_paddr_read = (\<lambda>_ _ r. Inr (0, r)), ref_mem_display = (\<lambda>_ _ r. Inr ([], r))\<rparr>"

lemma difftest_skip_resynchronises_witness:
  "\<exists>e1. difftest_step soc_config (with_nemu_ref soc_config (native_dev_config (\<lambda>_. 0)) ext0 None ext1) 0 4
      (emu0 (system_zero\<lparr>is_skip_ref := True\<rparr>) () emu_example) = Inr e1 \<and> \<not> is_skip_ref (sys e1)"
proof -
  let ?e = "emu0 (system_zero\<lparr>is_skip_ref := True\<rparr>) () emu_example"
  have "CONFIG_NPC soc_config" "is_skip_ref (sys ?e)" "skip_dut_nr_inst (sys ?e) \<le> 0"
    by (simp_all add: emu0_def system_zero_def system0_def soc_config_def native_config_def)
  from difftest_skip_resynchronises [OF this refl, of soc_config "native_dev_config (\<lambda>_. 0)" ext0 None ext1 0 4]
  show ?thesis by blast
qed

lemma checkmems_value:
  assumes "ref_paddr_read ex (addr AND NOT 0x03) 4 (ref_state e) = Inr (v, r)"
    and "bad \<longleftrightarrow> wdata AND compare_mask wstrb \<noteq> v AND compare_mask wstrb"
  shows "checkmems ex addr wdata wstrb tpc e =
    Inr (if bad then upd_sys (abort_at tpc) (e\<lparr>ref_state := r\<rparr>) else e\<lparr>ref_state := r\<rparr>)"
  unfolding checkmems_def assms by (simp add: Let_def)



end
