(* ===== verification/Sdb_Commands.thy ===== *)
theory Sdb_Commands
  imports Difftest_Ref Sdb_Expr_Properties
begin

text \<open>
  The command loop of the debugger, \<open>nemu/src/monitor/sdb/sdb.c\<close>. Lines come from
  \<open>readline\<close>, here a list that ends at the end of input; what a command prints is a list of
  \<open>shown\<close> items. \<open>strtok\<close>, \<open>sscanf\<close> and \<open>atoi\<close> are modelled for the formats used.
\<close>

section \<open>C library functions used by the commands\<close>

definition spaces :: string where
  "spaces = [CHR 0x09, CHR 0x0A, CHR 0x0B, CHR 0x0C, CHR 0x0D, CHR '' '']"

text \<open>The token at the start of \<open>s\<close> and the rest after the delimiter that ends it.\<close>

definition strtok :: "string \<Rightarrow> string \<Rightarrow> (string \<times> string) option" where
  "strtok delim s =
     (let s = dropWhile (\<lambda>c. c \<in> set delim) s
      in if s = [] then None
         else Some (takeWhile (\<lambda>c. c \<notin> set delim) s, drop 1 (dropWhile (\<lambda>c. c \<notin> set delim) s)))"

text \<open>
  \<open>%d\<close>: \<open>None\<close> if the input does not start with a number, which leaves the variable unset.
  A number that does not fit \<open>int\<close> is undefined.
\<close>

definition scan_int :: "string \<Rightarrow> (int \<times> string) option" where
  "scan_int s =
     (let s = dropWhile (\<lambda>c. c \<in> set spaces) s;
          neg = (s \<noteq> [] \<and> hd s = CHR ''-'');
          s = (if s \<noteq> [] \<and> hd s \<in> {CHR ''-'', CHR ''+''} then tl s else s);
          ds = takeWhile (\<lambda>c. c \<in> set digit_chars) s
      in if ds = [] then None
         else Some ((if neg then - strtol_digits 10 ds else strtol_digits 10 ds), drop (length ds) s))"

definition sscanf_d :: "string \<Rightarrow> (int \<times> string) result" where
  "sscanf_d s =
     (case scan_int s of
        None \<Rightarrow> Inl (Undefined ''unset integer'')
      | Some (n, rest) \<Rightarrow> bindR (c_int n) (\<lambda>n. Inr (n, rest)))"

definition parse_int :: "string \<Rightarrow> int result" where
  "parse_int s = (case scan_int s of None \<Rightarrow> Inr 0 | Some (n, rest) \<Rightarrow> c_int n)"

text \<open>\<open>%s\<close> into a buffer of \<open>size\<close> characters.\<close>

definition sscanf_s :: "nat \<Rightarrow> string \<Rightarrow> string result" where
  "sscanf_s sz s =
     (let w = takeWhile (\<lambda>c. c \<notin> set spaces) (dropWhile (\<lambda>c. c \<in> set spaces) s)
      in if w = [] then Inl (Undefined ''unset string'')
         else if sz \<le> length w then Inl (Undefined ''string buffer'') else Inr w)"

section \<open>Commands\<close>

datatype shown =
    Message string
  | Registers CPU_state | Ref_registers
  | Watchpoints "(string \<times> u32) list"
  | Memory "(u32 \<times> u32) list"
  | Number int
  | History "(int \<times> u8 list) list"

type_synonym ('v, 'r) command = "('v, 'r) emu \<Rightarrow> (int \<times> shown list \<times> ('v, 'r) emu) run"

text \<open>A command that prints \<open>out\<close> and returns 0.\<close>

definition prints :: "shown list \<Rightarrow> ('v, 'r) command" where
  "prints out e = Some (Inr (0, out, e))"

definition cmd_c :: "config \<Rightarrow> dev_config \<Rightarrow> ('v, 'r) externals \<Rightarrow> ('v, 'r) command" where
  "cmd_c cfg dc ex e = bindN (cpu_exec cfg dc ex (- 1) e) (prints [])"

definition cmd_q :: "('v, 'r) command" where
  "cmd_q e = Some (Inr (- 1, [], upd_sys (set_state NEMU_QUIT) e))"

definition cmd_si :: "config \<Rightarrow> dev_config \<Rightarrow> ('v, 'r) externals \<Rightarrow> string option \<Rightarrow> ('v, 'r) command" where
  "cmd_si cfg dc ex args e =
     bindN (Some (case args of None \<Rightarrow> Inr 1 | Some a \<Rightarrow> bindR (sscanf_d a) (\<lambda>(n, rest). Inr n))) (\<lambda>n.
     bindN (cpu_exec cfg dc ex (word_of_int n) e) (prints []))"

definition cmd_info :: "config \<Rightarrow> string option \<Rightarrow> ('v, 'r) command" where
  "cmd_info cfg args e =
     (case args of
        None \<Rightarrow> prints ([Message ''r registers, w watchpoints''] @
          (if CONFIG_DIFFTEST cfg then [Message ''d reference''] else [])) e
      | Some a \<Rightarrow>
          if a = ''r'' then prints [Registers (cpu (sys e))] e
          else if a = ''w'' then
            (case wp_print (sdb e) of None \<Rightarrow> None | Some ws \<Rightarrow> prints [Watchpoints ws] e)
          else if a = ''d'' then prints (if CONFIG_DIFFTEST cfg then [Ref_registers] else []) e
          else if a = ''pc'' then prints [Number (uint (pc (cpu (sys e))))] e
          else prints [] e)"

definition sdb_expr ::
    "config \<Rightarrow> string \<Rightarrow> ('v, 'r) emu \<Rightarrow> (word_t \<times> bool \<times> ('v, 'r) emu) result" where
  "sdb_expr cfg a e =
     bindR (expr cfg a (tokens (sdb e)) (sys e)) (\<lambda>(v, ok, ts, s).
     Inr (v, ok, e\<lparr>sdb := (sdb e)\<lparr>tokens := ts\<rparr>, sys := s\<rparr>))"

text \<open>\<open>startAddress\<close> is an \<open>int\<close>: counting past its maximum is undefined.\<close>

fun show_words :: "config \<Rightarrow> nat \<Rightarrow> int \<Rightarrow> system \<Rightarrow> ((u32 \<times> u32) list \<times> system) result" where
  "show_words cfg 0 a s = Inr ([], s)"
| "show_words cfg (Suc n) a s =
     bindR (paddr_read cfg (word_of_int a) 4 s) (\<lambda>(w, s).
     bindR (c_int (a + 4)) (\<lambda>a'.
     bindR (show_words cfg n a' s) (\<lambda>(ws, s). Inr ((word_of_int a, w) # ws, s))))"

definition cmd_x :: "config \<Rightarrow> string option \<Rightarrow> ('v, 'r) command" where
  "cmd_x cfg args e =
     (case args of
        None \<Rightarrow> prints [Message ''Wrong Command!''] e
      | Some a \<Rightarrow>
          Some (bindR (sscanf_d a) (\<lambda>(n, rest).
          bindR (sscanf_s 100 rest) (\<lambda>w.
          bindR (sdb_expr cfg w e) (\<lambda>(v, ok, e).
          if \<not> ok then Inr (0, [Message ''invalid expression!''], e)
          else bindR (show_words cfg (nat n) (sint v) (sys e)) (\<lambda>(ws, s).
            Inr (0, [Memory ws], e\<lparr>sys := s\<rparr>)))))))"

definition cmd_x_ref :: "config \<Rightarrow> ('v, 'r) externals \<Rightarrow> string option \<Rightarrow> ('v, 'r) command" where
  "cmd_x_ref cfg ex args e =
     (if \<not> CONFIG_DIFFTEST cfg then prints [] e
      else case args of
        None \<Rightarrow> prints [Message ''Wrong Command!''] e
      | Some a \<Rightarrow>
          Some (bindR (sscanf_d a) (\<lambda>(n, rest).
          bindR (sscanf_s 100 rest) (\<lambda>w.
          bindR (sdb_expr cfg w e) (\<lambda>(v, ok, e).
          if \<not> ok then Inr (0, [Message ''invalid expression!''], e)
          else bindR (ref_mem_display ex n v (ref_state e)) (\<lambda>(ws, r).
            Inr (0, [Memory ws], e\<lparr>ref_state := r\<rparr>)))))))"

definition cmd_w :: "config \<Rightarrow> string option \<Rightarrow> ('v, 'r) command" where
  "cmd_w cfg args e =
     (case args of
        None \<Rightarrow> prints [Message ''Need a expression to set watchpoint!''] e
      | Some a \<Rightarrow>
          Some (bindR (sdb_expr cfg a e) (\<lambda>(res, ok, e).
          if \<not> ok then Inr (0, [Message ''not success''], e)
          else bindR (wp_set a res (sdb e)) (\<lambda>b. Inr (0, [], e\<lparr>sdb := b\<rparr>)))))"

definition cmd_b :: "config \<Rightarrow> string option \<Rightarrow> ('v, 'r) command" where
  "cmd_b cfg args e =
     (case args of
        None \<Rightarrow> prints [Message ''Need an address to set breakpoint!''] e
      | Some a \<Rightarrow>
          let pcstr = ''$pc=='' @ a in
          if 50 \<le> length pcstr then Some (Inl (Undefined ''pcstr''))
          else bindN (cmd_w cfg (Some pcstr) e) (\<lambda>(r, out, e).
            Some (Inr (0, Message pcstr # out, e))))"

definition cmd_p :: "config \<Rightarrow> string option \<Rightarrow> ('v, 'r) command" where
  "cmd_p cfg args e =
     (case args of
        None \<Rightarrow> prints [Message ''Wrong Command: expr cannot be empty!''] e
      | Some a \<Rightarrow>
          Some (bindR (sdb_expr cfg a e) (\<lambda>(res, ok, e).
          Inr (0, [if ok then Number (sint res) else Message ''not suceess''], e))))"

definition cmd_d :: "string option \<Rightarrow> ('v, 'r) command" where
  "cmd_d args e =
     (case args of
        None \<Rightarrow> prints [] e
      | Some a \<Rightarrow>
          bindN (Some (sscanf_d a)) (\<lambda>(n, rest).
          bindN (wp_remove n (sdb e)) (\<lambda>b. prints [] (e\<lparr>sdb := b\<rparr>))))"

definition cmd_h :: "string option \<Rightarrow> ('v, 'r) command" where
  "cmd_h args e =
     (case args of
        None \<Rightarrow> prints [Message ''Need a number to print history!''] e
      | Some a \<Rightarrow>
          Some (bindR (parse_int a) (\<lambda>num.
          Inr (0, [History (itrace_display_history num (itrace (sys e)))], e))))"

text \<open>
  \<open>cmd_test\<close> reads a file of expressions with their values; its lines (below 1024 characters,
  with the final newline) are a parameter, \<open>None\<close> when it cannot be opened.
\<close>

fun join_pieces :: "string list \<Rightarrow> string" where
  "join_pieces ps = concat (map (\<lambda>p. p @ '' '') ps)"

definition split_lines :: "string \<Rightarrow> string list" where
  "split_lines s = filter (\<lambda>p. p \<noteq> []) (foldr (\<lambda>c ps. if c = CHR 0x0A then [] # ps
     else (c # hd ps) # tl ps) s [[]])"

fun test_records ::
    "config \<Rightarrow> string list \<Rightarrow> int \<Rightarrow> shown list \<Rightarrow> ('v, 'r) emu \<Rightarrow> (int \<times> shown list \<times> ('v, 'r) emu) result" where
  "test_records cfg [] right_ans out e = Inr (right_ans, out, e)"
| "test_records cfg (record # rs) right_ans out e =
     (case strtok '' '' record of
        None \<Rightarrow> test_records cfg rs right_ans (out @ [Message ''Invalid record format'']) e
      | Some (token, rest) \<Rightarrow>
          bindR (parse_int token) (\<lambda>real_val.
          let buf = join_pieces (split_lines rest) in
          bindR (sdb_expr cfg buf e) (\<lambda>(res, ok, e).
          test_records cfg rs (if res = word_of_int real_val then right_ans + 1 else right_ans)
            (out @ [Number real_val, Message buf]) e)))"

definition cmd_test :: "config \<Rightarrow> string list option \<Rightarrow> ('v, 'r) command" where
  "cmd_test cfg input_file e =
     (case input_file of
        None \<Rightarrow> Some (Inr (1, [Message ''Error opening input file''], e))
      | Some ls \<Rightarrow>
          Some (bindR (test_records cfg (take 100 ls) 0 [] e) (\<lambda>(right_ans, out, e).
          Inr (0, out @ (if length ls < 100 then [Message ''Error reading input file''] else []) @
            [Number right_ans], e))))"

section \<open>The command table and the main loop\<close>

definition cmd_names :: "string list" where
  "cmd_names = [''help'', ''c'', ''q'', ''si'', ''info'', ''x'', ''p'', ''w'', ''d'', ''test'',
     ''x_ref'', ''b'', ''h'']"

text \<open>The argument of \<open>help\<close> is what \<open>strtok\<close> finds after the command.\<close>

definition cmd_help :: "string \<Rightarrow> ('v, 'r) command" where
  "cmd_help rest e =
     (case strtok '' '' rest of
        None \<Rightarrow> prints (map Message cmd_names) e
      | Some (arg, _) \<Rightarrow>
          prints [Message (if arg \<in> set cmd_names then arg else ''Unknown command '' @ arg)] e)"

definition run_command ::
    "config \<Rightarrow> dev_config \<Rightarrow> ('v, 'r) externals \<Rightarrow> string list option \<Rightarrow> string \<Rightarrow> string \<Rightarrow>
     string option \<Rightarrow> ('v, 'r) command" where
  "run_command cfg dc ex input_file cmd rest args =
     (if cmd = ''help'' then cmd_help rest
      else if cmd = ''c'' then cmd_c cfg dc ex
      else if cmd = ''q'' then cmd_q
      else if cmd = ''si'' then cmd_si cfg dc ex args
      else if cmd = ''info'' then cmd_info cfg args
      else if cmd = ''x'' then cmd_x cfg args
      else if cmd = ''p'' then cmd_p cfg args
      else if cmd = ''w'' then cmd_w cfg args
      else if cmd = ''d'' then cmd_d args
      else if cmd = ''test'' then cmd_test cfg input_file
      else if cmd = ''x_ref'' then cmd_x_ref cfg ex args
      else if cmd = ''b'' then cmd_b cfg args
      else if cmd = ''h'' then cmd_h args
      else prints [Message (''Unknown command '' @ cmd)])"

text \<open>
  One line of input. \<open>args\<close> starts one character after the command and is NULL at the end of
  the line.
\<close>

definition sdb_line ::
    "config \<Rightarrow> dev_config \<Rightarrow> ('v, 'r) externals \<Rightarrow> string list option \<Rightarrow> string \<Rightarrow> ('v, 'r) command" where
  "sdb_line cfg dc ex input_file line e =
     (case strtok '' '' line of
        None \<Rightarrow> prints [] e
      | Some (cmd, rest) \<Rightarrow>
          run_command cfg dc ex input_file cmd rest (if rest = [] then None else Some rest)
            (if CONFIG_DEVICE cfg then upd_sys sdl_clear_event_queue e else e))"

fun sdb_lines ::
    "config \<Rightarrow> dev_config \<Rightarrow> ('v, 'r) externals \<Rightarrow> string list option \<Rightarrow> string list \<Rightarrow>
     ('v, 'r) emu \<Rightarrow> (shown list \<times> ('v, 'r) emu) run" where
  "sdb_lines cfg dc ex input_file [] e = Some (Inr ([], e))"
| "sdb_lines cfg dc ex input_file (l # ls) e =
     bindN (sdb_line cfg dc ex input_file l e) (\<lambda>(r, out, e).
     if r < 0 then Some (Inr (out, e))
     else bindN (sdb_lines cfg dc ex input_file ls e) (\<lambda>(out', e). Some (Inr (out @ out', e))))"

definition sdb_mainloop ::
    "config \<Rightarrow> dev_config \<Rightarrow> ('v, 'r) externals \<Rightarrow> string list option \<Rightarrow> bool \<Rightarrow> string list \<Rightarrow>
     ('v, 'r) emu \<Rightarrow> (shown list \<times> ('v, 'r) emu) run" where
  "sdb_mainloop cfg dc ex input_file is_batch_mode ls e =
     (if is_batch_mode then bindN (cmd_c cfg dc ex e) (\<lambda>(r, out, e). Some (Inr (out, e)))
      else sdb_lines cfg dc ex input_file ls e)"

definition init_sdb :: "('v, 'r) emu \<Rightarrow> ('v, 'r) emu" where
  "init_sdb e = e\<lparr>sdb := init_wp_pool (sdb e)\<rparr>"

end
