(* ===== verification/Trace_Elf.thy ===== *)
theory Trace_Elf
  imports Nemu_Trace
begin

text \<open>
  The ELF reader of the call trace, \<open>nemu/src/utils/trace.c\<close>: it fills the symbol table
  that \<open>find_symbol_func\<close> searches. A file is its list of bytes; a record of the file is read
  with the layout of \<open>elf.h\<close> for 32-bit objects. What the display functions print is not
  modelled, but the section they read is.
\<close>

section \<open>Reading\<close>

text \<open>\<open>lseek\<close> and \<open>read\<close>: all \<open>n\<close> bytes, or the assertion around them fails.\<close>

definition read_at :: "u8 list \<Rightarrow> nat \<Rightarrow> nat \<Rightarrow> u8 list result" where
  "read_at f pos n =
     (if length (take n (drop pos f)) = n then Inr (take n (drop pos f)) else Inl (Assert_failed ''read''))"

definition le :: "u8 list \<Rightarrow> nat \<Rightarrow> nat \<Rightarrow> u32" where
  "le bs off n = load_le (\<lambda>i. bs ! i) [off..<off + n]"

record Elf32_Ehdr =
  e_shoff :: u32
  e_shentsize :: u32
  e_shnum :: u32
  e_shstrndx :: u32

record Elf32_Shdr =
  sh_type :: u32
  sh_offset :: u32
  sh_size :: u32
  sh_link :: u32

definition read_elf_header :: "u8 list \<Rightarrow> Elf32_Ehdr result" where
  "read_elf_header f =
     bindR (read_at f 0 52) (\<lambda>h.
     if take 4 h \<noteq> [0x7f, 0x45, 0x4c, 0x46] then Inl (Panicked ''malformed ELF file'')
     else Inr \<lparr>e_shoff = le h 32 4, e_shentsize = le h 46 2, e_shnum = le h 48 2, e_shstrndx = le h 50 2\<rparr>)"

text \<open>
  The local array of section headers has \<open>e_shentsize * e_shnum\<close> elements; it must not be
  empty. An entry larger than the structure overlaps the next element, which is read after it;
  a smaller one leaves fields unset.
\<close>

definition section_header :: "u8 list \<Rightarrow> Elf32_Shdr" where
  "section_header bs = \<lparr>sh_type = le bs 4 4, sh_offset = le bs 16 4, sh_size = le bs 20 4, sh_link = le bs 24 4\<rparr>"

fun read_headers_from :: "u8 list \<Rightarrow> nat \<Rightarrow> nat \<Rightarrow> nat \<Rightarrow> Elf32_Shdr list result" where
  "read_headers_from f pos entsize 0 = Inr []"
| "read_headers_from f pos entsize (Suc n) =
     bindR (read_at f pos entsize) (\<lambda>bs.
     bindR (read_headers_from f (pos + entsize) entsize n) (\<lambda>hs. Inr (section_header bs # hs)))"

definition read_section_headers :: "u8 list \<Rightarrow> Elf32_Ehdr \<Rightarrow> Elf32_Shdr list result" where
  "read_section_headers f eh =
     (if e_shnum eh = 0 \<or> e_shentsize eh < 40 then Inl (Undefined ''section headers'')
      else read_headers_from f (unat (e_shoff eh)) (unat (e_shentsize eh)) (unat (e_shnum eh)))"

text \<open>A section is read into a local array of its size, which must not be empty.\<close>

definition read_section :: "u8 list \<Rightarrow> Elf32_Shdr list \<Rightarrow> nat \<Rightarrow> u8 list result" where
  "read_section f sh_tbl i =
     (if length sh_tbl \<le> i then Inl (Undefined ''section index'')
      else if sh_size (sh_tbl ! i) = 0 then Inl (Undefined ''empty section'')
      else read_at f (unat (sh_offset (sh_tbl ! i))) (unat (sh_size (sh_tbl ! i))))"

definition display_section_headers :: "u8 list \<Rightarrow> Elf32_Ehdr \<Rightarrow> Elf32_Shdr list \<Rightarrow> unit result" where
  "display_section_headers f eh sh_tbl =
     bindR (read_section f sh_tbl (unat (e_shstrndx eh))) (\<lambda>sh_str. Inr ())"

text \<open>\<open>strncpy (name, s, 31)\<close> into a zeroed buffer of 32 characters.\<close>

definition symbol_name :: "u8 list \<Rightarrow> nat \<Rightarrow> string result" where
  "symbol_name str_tbl off =
     (let s = takeWhile (\<lambda>b. b \<noteq> 0) (drop off str_tbl)
      in if length s < 31 \<and> length str_tbl \<le> off + length s then Inl (Undefined ''symbol name'')
         else Inr (map (\<lambda>b. char_of (unat b)) (take 31 s)))"

definition sym_entry :: "u8 list \<Rightarrow> u8 list \<Rightarrow> SymEntry result" where
  "sym_entry str_tbl ent =
     bindR (symbol_name str_tbl (unat (le ent 0 4))) (\<lambda>nm.
     Inr \<lparr>sym_name = nm, sym_addr = le ent 4 4, sym_info = ent ! 12, sym_size = ucast (le ent 8 4)\<rparr>)"

fun sym_entries :: "u8 list \<Rightarrow> u8 list \<Rightarrow> nat \<Rightarrow> SymEntry list result" where
  "sym_entries str_tbl syms 0 = Inr []"
| "sym_entries str_tbl syms (Suc n) =
     bindR (sym_entry str_tbl (take 16 syms)) (\<lambda>e.
     bindR (sym_entries str_tbl (drop 16 syms) n) (\<lambda>es. Inr (e # es)))"

definition read_symbol_table :: "u8 list \<Rightarrow> Elf32_Shdr list \<Rightarrow> nat \<Rightarrow> SymEntry list result" where
  "read_symbol_table f sh_tbl sym_idx =
     bindR (read_section f sh_tbl sym_idx) (\<lambda>sym_tbl.
     bindR (read_section f sh_tbl (unat (sh_link (sh_tbl ! sym_idx)))) (\<lambda>str_tbl.
     sym_entries str_tbl sym_tbl (length sym_tbl div 16)))"

definition SHT_SYMTAB :: u32 where "SHT_SYMTAB = 2"
definition SHT_DYNSYM :: u32 where "SHT_DYNSYM = 11"

text \<open>Every symbol section replaces the table of the one before it.\<close>

definition read_symbols ::
    "u8 list \<Rightarrow> Elf32_Shdr list \<Rightarrow> SymEntry list option \<Rightarrow> SymEntry list option result" where
  "read_symbols f sh_tbl tbl0 =
     foldR (\<lambda>i tbl.
       if sh_type (sh_tbl ! i) = SHT_SYMTAB \<or> sh_type (sh_tbl ! i) = SHT_DYNSYM
       then bindR (read_symbol_table f sh_tbl i) (\<lambda>t. Inr (Some t)) else Inr tbl)
       [0..<length sh_tbl] tbl0"

definition init_tail_rec_list :: "ftrace_state \<Rightarrow> ftrace_state" where
  "init_tail_rec_list fs = fs\<lparr>tail_rec := []\<rparr>"

definition parse_elf :: "(string \<Rightarrow> u8 list option) \<Rightarrow> string option \<Rightarrow> ftrace_state \<Rightarrow> ftrace_state result" where
  "parse_elf files elf_file fs =
     (case elf_file of
        None \<Rightarrow> Inr fs
      | Some path \<Rightarrow>
          (case files path of
             None \<Rightarrow> Inl (Assert_failed ''unable to open'')
           | Some f \<Rightarrow>
               bindR (read_elf_header f) (\<lambda>eh.
               bindR (read_section_headers f eh) (\<lambda>sh_tbl.
               bindR (display_section_headers f eh sh_tbl) (\<lambda>_.
               bindR (read_symbols f sh_tbl (symbol_tbl fs)) (\<lambda>tbl.
               Inr (init_tail_rec_list (fs\<lparr>symbol_tbl := tbl\<rparr>))))))))"

section \<open>Reading back a symbol table\<close>

text \<open>The bytes of a word and of a symbol as an assembler writes them.\<close>

definition le_bytes :: "nat \<Rightarrow> u32 \<Rightarrow> u8 list" where
  "le_bytes n w = map (\<lambda>i. ucast (drop_bit (8 * i) w)) [0..<n]"

record elf_symbol =
  es_name :: string
  es_value :: u32
  es_size :: u32
  es_info :: u8

definition symbol_bytes :: "u32 \<Rightarrow> elf_symbol \<Rightarrow> u8 list" where
  "symbol_bytes name_off s =
     le_bytes 4 name_off @ le_bytes 4 (es_value s) @ le_bytes 4 (es_size s) @ [es_info s, 0] @ [0, 0]"

definition name_bytes :: "string \<Rightarrow> u8 list" where
  "name_bytes s = map (\<lambda>c. of_nat (of_char c)) s @ [0]"

text \<open>The string section starts with an empty string; names follow in order.\<close>

fun string_table :: "elf_symbol list \<Rightarrow> u8 list" where
  "string_table [] = []"
| "string_table (s # ss) = name_bytes (es_name s) @ string_table ss"

fun symbol_table :: "nat \<Rightarrow> elf_symbol list \<Rightarrow> u8 list" where
  "symbol_table off [] = []"
| "symbol_table off (s # ss) =
     symbol_bytes (of_nat off) s @ symbol_table (off + length (es_name s) + 1) ss"

definition entry_of :: "elf_symbol \<Rightarrow> SymEntry" where
  "entry_of s = \<lparr>sym_name = take 31 (es_name s), sym_addr = es_value s, sym_info = es_info s,
     sym_size = ucast (es_size s)\<rparr>"

lemma length_le_bytes [simp]: "length (le_bytes n w) = n"
  by (simp add: le_bytes_def)

lemma load_le_map: "load_le g (map h is) = load_le (\<lambda>i. g (h i)) is"
  by (induction "is") simp_all

lemma load_le_bytes: "load_le (\<lambda>i. le_bytes n w ! i) [k..<n] = drop_bit (8 * k) (take_bit (8 * n) w)" if "k \<le> n"
  using that
proof (induction "n - k" arbitrary: k)
  case (Suc m)
  then have "[k..<n] = k # [Suc k..<n]" by (simp add: upt_conv_Cons)
  moreover have "load_le (\<lambda>i. le_bytes n w ! i) [Suc k..<n] = drop_bit (8 * Suc k) (take_bit (8 * n) w)"
    using Suc by auto
  ultimately show ?case
    using Suc.hyps(2)
    by (intro bit_word_eqI) (auto simp: le_bytes_def bit_or_iff bit_push_bit_iff bit_drop_bit_eq bit_take_bit_iff
        bit_ucast_iff)
next
  case 0
  then show ?case by (intro bit_word_eqI) (auto simp: bit_drop_bit_eq bit_take_bit_iff)
qed

lemma le_le_bytes: "le (xs @ le_bytes n w @ ys) (length xs) n = take_bit (8 * n) w"
proof -
  have "le (xs @ le_bytes n w @ ys) (length xs) n = load_le (\<lambda>i. (xs @ le_bytes n w @ ys) ! i) (map (\<lambda>i. length xs + i) [0..<n])"
    by (simp add: le_def map_add_upt add.commute)
  also have "\<dots> = load_le (\<lambda>i. le_bytes n w ! i) [0..<n]"
    unfolding load_le_map by (rule load_le_cong) (simp add: nth_append)
  finally show ?thesis using load_le_bytes [of 0 n w] by simp
qed

lemma symbol_fields:
  "le (symbol_bytes o1 s) 0 4 = o1" "le (symbol_bytes o1 s) 4 4 = es_value s"
  "le (symbol_bytes o1 s) 8 4 = es_size s" "symbol_bytes o1 s ! 12 = es_info s"
  "length (symbol_bytes o1 s) = 16"
  using le_le_bytes [of "[]" 4 o1] le_le_bytes [of "le_bytes 4 o1" 4 "es_value s"]
    le_le_bytes [of "le_bytes 4 o1 @ le_bytes 4 (es_value s)" 4 "es_size s"]
  by (simp_all add: symbol_bytes_def nth_append)

lemma char_of_byte: "char_of (unat (of_nat (of_char c) :: u8)) = c"
proof -
  have "of_char c < (256 :: nat)" by (rule nat_of_char_less_256)
  then show ?thesis by (simp add: unat_of_nat)
qed

lemma symbol_name_string:
  assumes "CHR 0x00 \<notin> set nm"
  shows "symbol_name (pre @ name_bytes nm @ post) (length pre) = Inr (take 31 nm)"
proof -
  have nz: "(of_nat (of_char c) :: u8) \<noteq> 0" if "c \<in> set nm" for c
  proof
    assume "(of_nat (of_char c) :: u8) = 0"
    then have "char_of (unat (0 :: u8)) = c" using char_of_byte [of c] by simp
    moreover have "char_of (0 :: nat) = CHR 0x00" by (simp add: char_of_def)
    ultimately show False using assms that by simp
  qed
  then have "takeWhile (\<lambda>b. b \<noteq> 0) (name_bytes nm @ post) = map (\<lambda>c. of_nat (of_char c)) nm"
    unfolding name_bytes_def append_assoc by (subst takeWhile_append2) auto
  then show ?thesis
    by (simp add: symbol_name_def name_bytes_def Let_def take_map char_of_byte o_def)
qed

lemma sym_entries_back:
  assumes "\<forall>s \<in> set ss. CHR 0x00 \<notin> set (es_name s)"
  shows "length (pre @ string_table ss) < 2 ^ 32 \<Longrightarrow>
    sym_entries (pre @ string_table ss) (symbol_table (length pre) ss) (length ss) = Inr (map entry_of ss)"
  using assms
proof (induction ss arbitrary: pre)
  case (Cons s ss)
  let ?o = "of_nat (length pre) :: u32"
  have o: "unat ?o = length pre" using Cons.prems(1) by (simp add: unat_of_nat_u32)
  have "take 16 (symbol_table (length pre) (s # ss)) = symbol_bytes ?o s"
    "drop 16 (symbol_table (length pre) (s # ss)) = symbol_table (length (pre @ name_bytes (es_name s))) ss"
    using symbol_fields(5) [of ?o s] by (simp_all add: name_bytes_def)
  moreover have "sym_entry (pre @ string_table (s # ss)) (symbol_bytes ?o s) = Inr (entry_of s)"
    using symbol_name_string [of "es_name s" pre "string_table ss"] Cons.prems(2)
    by (simp add: sym_entry_def symbol_fields o entry_of_def)
  moreover have "sym_entries (pre @ string_table (s # ss)) (symbol_table (length (pre @ name_bytes (es_name s))) ss)
      (length ss) = Inr (map entry_of ss)"
    using Cons.IH [of "pre @ name_bytes (es_name s)"] Cons.prems by simp
  ultimately show ?case by simp
qed simp

lemma length_symbol_table: "length (symbol_table n ss) = 16 * length ss"
  by (induction ss arbitrary: n) (simp_all add: symbol_fields)

lemma read_at_middle: "read_at (pre @ xs @ post) (length pre) (length xs) = Inr xs"
  by (simp add: read_at_def)

text \<open>
  A 32-bit object file as a linker lays it out: header, four section headers (null, symbols,
  strings, section names), and the contents of the three sections.
\<close>

definition ehdr_bytes :: "u8 list" where
  "ehdr_bytes = ([0x7f, 0x45, 0x4c, 0x46] @ replicate 28 0) @ le_bytes 4 52 @ replicate 10 0 @
     le_bytes 2 40 @ le_bytes 2 4 @ le_bytes 2 3"

definition shdr_bytes :: "u32 \<Rightarrow> nat \<Rightarrow> nat \<Rightarrow> u32 \<Rightarrow> u8 list" where
  "shdr_bytes ty off sz link = replicate 4 0 @ le_bytes 4 ty @ replicate 8 0 @ le_bytes 4 (of_nat off) @
     le_bytes 4 (of_nat sz) @ le_bytes 4 link @ replicate 12 0"

definition elf_sections :: "elf_symbol list \<Rightarrow> u8 list list" where
  "elf_sections ss =
     (let syms = symbol_table 1 ss; strs = 0 # string_table ss
      in [shdr_bytes 0 0 0 0, shdr_bytes SHT_SYMTAB 212 (length syms) 2,
          shdr_bytes 3 (212 + length syms) (length strs) 0,
          shdr_bytes 3 (212 + length syms + length strs) 1 0])"

definition elf_file :: "elf_symbol list \<Rightarrow> u8 list" where
  "elf_file ss = ehdr_bytes @ concat (elf_sections ss) @ symbol_table 1 ss @ (0 # string_table ss) @ [0]"

lemma elf_header_back:
  "read_elf_header (ehdr_bytes @ rest) = Inr \<lparr>e_shoff = 52, e_shentsize = 40, e_shnum = 4, e_shstrndx = 3\<rparr>"
proof -
  have len: "length ehdr_bytes = 52" by (simp add: ehdr_bytes_def)
  have "read_at (ehdr_bytes @ rest) 0 52 = Inr ehdr_bytes"
    using read_at_middle [of "[]" ehdr_bytes rest] len by simp
  moreover have "le ehdr_bytes 32 4 = 52" "le ehdr_bytes 46 2 = 40" "le ehdr_bytes 48 2 = 4" "le ehdr_bytes 50 2 = 3"
    using le_le_bytes [of "[0x7f, 0x45, 0x4c, 0x46] @ replicate 28 0" 4 52]
      le_le_bytes [of "[0x7f, 0x45, 0x4c, 0x46] @ replicate 28 0 @ le_bytes 4 52 @ replicate 10 0" 2 40]
      le_le_bytes [of "[0x7f, 0x45, 0x4c, 0x46] @ replicate 28 0 @ le_bytes 4 52 @ replicate 10 0 @ le_bytes 2 40" 2 4]
      le_le_bytes [of "[0x7f, 0x45, 0x4c, 0x46] @ replicate 28 0 @ le_bytes 4 52 @ replicate 10 0 @ le_bytes 2 40 @ le_bytes 2 4" 2 3 "[]"]
    by (simp_all add: ehdr_bytes_def)
  moreover have "take 4 ehdr_bytes = [0x7f, 0x45, 0x4c, 0x46]" by (simp add: ehdr_bytes_def)
  ultimately show ?thesis by (simp add: read_elf_header_def)
qed

lemma length_shdr [simp]: "length (shdr_bytes ty off sz link) = 40"
  by (simp add: shdr_bytes_def)

lemma section_header_back:
  "section_header (shdr_bytes ty off sz link) = \<lparr>sh_type = ty, sh_offset = of_nat off, sh_size = of_nat sz, sh_link = link\<rparr>"
  using le_le_bytes [of "replicate 4 0" 4 ty]
    le_le_bytes [of "replicate 4 0 @ le_bytes 4 ty @ replicate 8 0" 4 "of_nat off"]
    le_le_bytes [of "replicate 4 0 @ le_bytes 4 ty @ replicate 8 0 @ le_bytes 4 (of_nat off)" 4 "of_nat sz"]
    le_le_bytes [of "replicate 4 0 @ le_bytes 4 ty @ replicate 8 0 @ le_bytes 4 (of_nat off) @ le_bytes 4 (of_nat sz)" 4 link]
  by (simp add: section_header_def shdr_bytes_def)

lemma read_headers_back:
  "\<forall>h \<in> set hs. length h = 40 \<Longrightarrow>
   read_headers_from (pre @ concat hs @ post) (length pre) 40 (length hs) = Inr (map section_header hs)"
proof (induction hs arbitrary: pre)
  case (Cons h hs)
  have "read_at (pre @ concat (h # hs) @ post) (length pre) 40 = Inr h"
    using read_at_middle [of pre h "concat hs @ post"] Cons.prems by simp
  moreover have "read_headers_from ((pre @ h) @ concat hs @ post) (length (pre @ h)) 40 (length hs) = Inr (map section_header hs)"
    by (rule Cons.IH) (use Cons.prems in simp)
  ultimately show ?case using Cons.prems by simp
qed simp

lemma read_section_back:
  assumes "i < length sh" and "sh ! i = section_header (shdr_bytes ty (length pre) (length xs) link)"
    and "length pre < 2 ^ 32" and "length xs < 2 ^ 32" and "xs \<noteq> []" and "f = pre @ xs @ post"
  shows "read_section f sh i = Inr xs"
proof -
  have "(of_nat (length xs) :: u32) \<noteq> of_nat 0"
    using assms(4,5) of_nat_u32_inj [of "length xs" 0] by simp
  then show ?thesis
    using assms read_at_middle [of pre xs post]
    by (simp add: read_section_def section_header_back unat_of_nat_u32 not_le)
qed

lemma read_symbols_one:
  assumes "length sh = 4" and "sh_type (sh ! 0) = 0" and "sh_type (sh ! 1) = SHT_SYMTAB" and "sh_type (sh ! 2) = 3"
    and "sh_type (sh ! 3) = 3" and "read_symbol_table f sh 1 = Inr t"
  shows "read_symbols f sh tbl = Inr (Some t)"
proof -
  have "[0..<length sh] = [0, 1, 2, 3]" using assms(1) by (simp add: upt_rec numeral_2_eq_2 numeral_3_eq_3)
  then show ?thesis using assms(2-6) by (simp add: read_symbols_def SHT_SYMTAB_def SHT_DYNSYM_def)
qed

text \<open>C36: The symbol table that the call trace works with is the one in the ELF file: for any
  list of symbols, laid out in an object file with its string table, \<open>parse_elf\<close> fills the
  table with their addresses, sizes, types and names (cut to 31 characters), in order.\<close>

theorem elf_symbols_roundtrip:
  assumes "ss \<noteq> []" and "\<forall>s \<in> set ss. CHR 0x00 \<notin> set (es_name s)"
    and "length (elf_file ss) < 2 ^ 32" and "files path = Some (elf_file ss)"
  shows "parse_elf files (Some path) fs =
    Inr (fs\<lparr>symbol_tbl := Some (map entry_of ss), tail_rec := []\<rparr>)"
proof -
  let ?syms = "symbol_table 1 ss" and ?strs = "0 # string_table ss"
  let ?sh = "map section_header (elf_sections ss)"
  have sec: "elf_sections ss = [shdr_bytes 0 0 0 0, shdr_bytes SHT_SYMTAB 212 (length ?syms) 2,
      shdr_bytes 3 (212 + length ?syms) (length ?strs) 0,
      shdr_bytes 3 (212 + length ?syms + length ?strs) 1 0]"
    by (simp only: elf_sections_def Let_def)
  let ?hdr = "ehdr_bytes @ concat (elf_sections ss)"
  have len: "length ?hdr = 212" by (simp add: sec ehdr_bytes_def)
  have f: "elf_file ss = ?hdr @ ?syms @ ?strs @ [0]" by (simp add: elf_file_def)
  have small: "212 + length ?syms + length ?strs + 1 < 2 ^ 32"
    using assms(3) len unfolding f by (simp only: length_append) simp
  have heads: "read_section_headers (elf_file ss) \<lparr>e_shoff = 52, e_shentsize = 40, e_shnum = 4, e_shstrndx = 3\<rparr> = Inr ?sh"
  proof -
    have n: "length ehdr_bytes = 52" "length (elf_sections ss) = 4" "\<forall>h \<in> set (elf_sections ss). length h = 40"
      by (simp_all add: ehdr_bytes_def sec)
    have "read_headers_from (elf_file ss) 52 40 4 = Inr ?sh"
      using read_headers_back [OF n(3), of ehdr_bytes "?syms @ ?strs @ [0]"] by (simp only: n(1,2) elf_file_def)
    then show ?thesis by (simp add: read_section_headers_def)
  qed
  have "read_section (elf_file ss) ?sh 1 = Inr ?syms"
    by (rule read_section_back [where pre = ?hdr and ty = SHT_SYMTAB and link = 2 and post = "?strs @ [0]"])
      (use small len assms(1) f length_symbol_table [of 1 ss] in \<open>auto simp: sec\<close>)
  moreover have "read_section (elf_file ss) ?sh 2 = Inr ?strs"
    by (rule read_section_back [where pre = "?hdr @ ?syms" and ty = 3 and link = 0 and post = "[0]"])
      (use small len f in \<open>auto simp: sec\<close>)
  moreover have "sh_link (?sh ! 1) = 2" "length ?syms div 16 = length ss"
    by (simp_all add: sec section_header_back length_symbol_table)
  moreover have "sym_entries ?strs ?syms (length ss) = Inr (map entry_of ss)"
    using sym_entries_back [of ss "[0]"] assms(2) small by simp
  ultimately have symtab: "read_symbol_table (elf_file ss) ?sh 1 = Inr (map entry_of ss)"
    by (simp add: read_symbol_table_def)
  have strtab: "read_section (elf_file ss) ?sh 3 = Inr [0]"
    by (rule read_section_back [where pre = "?hdr @ ?syms @ ?strs" and ty = 3 and link = 0 and post = "[]"])
      (use small len f in \<open>auto simp: sec\<close>)
  have "read_symbols (elf_file ss) ?sh (symbol_tbl fs) = Inr (Some (map entry_of ss))"
    by (rule read_symbols_one [OF _ _ _ _ _ symtab]) (simp_all add: sec section_header_back)
  moreover have "read_elf_header (elf_file ss) = Inr \<lparr>e_shoff = 52, e_shentsize = 40, e_shnum = 4, e_shstrndx = 3\<rparr>"
    by (simp add: elf_file_def elf_header_back)
  ultimately show ?thesis
    using heads strtab assms(4) by (simp add: parse_elf_def display_section_headers_def init_tail_rec_list_def)
qed

lemma elf_symbols_roundtrip_witness:
  "parse_elf (\<lambda>_. Some (elf_file [\<lparr>es_name = ''main'', es_value = 0x80000000, es_size = 64, es_info = 2\<rparr>])) (Some ''a.elf'')
     \<lparr>symbol_tbl = None, call_depth = 0, tail_rec = []\<rparr> =
   Inr \<lparr>symbol_tbl = Some [\<lparr>sym_name = ''main'', sym_addr = 0x80000000, sym_info = 2, sym_size = 64\<rparr>],
     call_depth = 0, tail_rec = []\<rparr>"
proof -
  let ?ss = "[\<lparr>es_name = ''main'', es_value = 0x80000000, es_size = 64, es_info = 2 :: u8\<rparr>]"
  have "length (elf_file ?ss) < 2 ^ 32"
    by (simp add: elf_file_def elf_sections_def ehdr_bytes_def Let_def name_bytes_def symbol_fields)
  from elf_symbols_roundtrip [OF _ _ this, of "\<lambda>_. Some (elf_file ?ss)" "''a.elf''"] show ?thesis
    by (simp add: entry_of_def)
qed

end
