(* ===== verification/Monitor.thy ===== *)
theory Monitor
  imports Sdb_Commands Trace_Elf
begin

text \<open>
  Start-up and the whole program: \<open>nemu/src/monitor/monitor.c\<close>,
  \<open>nemu/src/engine/interpreter/init.c\<close>, \<open>nemu/src/nemu-main.c\<close>, for a build that runs on the
  host (no \<open>CONFIG_TARGET_AM\<close>). The host's files and terminal are a record of inputs.
\<close>

record host =
  files :: "string \<Rightarrow> u8 list option"
  writable :: "string \<Rightarrow> bool"
  disasm_lib :: bool
  mem_random :: "u8 option"
  lines_in :: "string list"
  test_file :: "string list option"

section \<open>Command line\<close>

text \<open>The static variables \<open>parse_args\<close> sets.\<close>

record mon_args =
  batch :: bool
  log_file :: "string option"
  diff_so_file :: "string option"
  img_file :: "string option"
  flash_img_file :: "string option"
  mrom_img_file :: "string option"
  itrace_bin_file :: "string option"
  elf_file :: "string option"
  difftest_port :: int

definition args0 :: mon_args where
  "args0 = \<lparr>batch = False, log_file = None, diff_so_file = None, img_file = None, flash_img_file = None,
     mrom_img_file = None, itrace_bin_file = None, elf_file = None, difftest_port = 1234\<rparr>"

text \<open>
  \<open>getopt_long\<close> of the GNU C library with the option string \<open>-bhl:d:p:e:f:m:c:\<close>: options in
  order, a non-option as the option with code 1, \<open>--\<close> as the end; long options may be
  abbreviated.
\<close>

datatype opt = Opt char "string option" | Nonoption string | Unknown

definition short_opt :: "char \<Rightarrow> bool option" where
  "short_opt c =
     (if c \<in> set ''bh'' then Some False else if c \<in> set ''ldpefmc'' then Some True else None)"

definition table :: "(string \<times> bool \<times> char) list" where
  "table = [(''batch'', False, CHR ''b''), (''log'', True, CHR ''l''), (''elf'', True, CHR ''e''),
     (''diff'', True, CHR ''d''), (''port'', True, CHR ''p''), (''help'', False, CHR ''h'')]"

definition find_long :: "string \<Rightarrow> (bool \<times> char) option" where
  "find_long nm =
     (case map_of table nm of
        Some x \<Rightarrow> Some x
      | None \<Rightarrow>
          (case filter (\<lambda>(l, x). take (length nm) l = nm) table of [(l, x)] \<Rightarrow> Some x | _ \<Rightarrow> None))"

text \<open>Both return the options found and the arguments that are left.\<close>

fun short_opts :: "string \<Rightarrow> string list \<Rightarrow> opt list \<times> string list" where
  "short_opts [] rest = ([], rest)"
| "short_opts (c # cs) rest =
     (case short_opt c of
        None \<Rightarrow> ([Unknown], rest)
      | Some False \<Rightarrow> (case short_opts cs rest of (os, r) \<Rightarrow> (Opt c None # os, r))
      | Some True \<Rightarrow>
          if cs \<noteq> [] then ([Opt c (Some cs)], rest)
          else (case rest of [] \<Rightarrow> ([Unknown], []) | r # rs \<Rightarrow> ([Opt c (Some r)], rs)))"

definition long_opt :: "string \<Rightarrow> string list \<Rightarrow> opt list \<times> string list" where
  "long_opt a rest =
     (let nm = takeWhile (\<lambda>c. c \<noteq> CHR ''='') a; val = drop (length nm) a in
      case find_long nm of
        None \<Rightarrow> ([Unknown], rest)
      | Some (False, c) \<Rightarrow> (if val = [] then ([Opt c None], rest) else ([Unknown], rest))
      | Some (True, c) \<Rightarrow>
          if val \<noteq> [] then ([Opt c (Some (tl val))], rest)
          else (case rest of [] \<Rightarrow> ([Unknown], []) | r # rs \<Rightarrow> ([Opt c (Some r)], rs)))"

lemma short_opts_shorter: "length (snd (short_opts cs rest)) \<le> length rest"
  by (induction cs rest rule: short_opts.induct) (auto split: option.splits bool.splits list.splits prod.splits)

lemma long_opt_shorter: "length (snd (long_opt a rest)) \<le> length rest"
  by (auto simp: long_opt_def Let_def split: option.splits bool.splits list.splits)

lemma opts_left:
  "(os, r) = short_opts cs rest \<Longrightarrow> length r \<le> length rest"
  "(os, r) = long_opt a rest \<Longrightarrow> length r \<le> length rest"
  using short_opts_shorter [of cs rest] long_opt_shorter [of a rest] by (metis snd_conv)+

function getopt_long :: "string list \<Rightarrow> opt list" where
  "getopt_long [] = []"
| "getopt_long (a # rest) =
     (if a = ''--'' then []
      else if take 2 a = ''--'' then (case long_opt (drop 2 a) rest of (os, r) \<Rightarrow> os @ getopt_long r)
      else if take 1 a = ''-'' \<and> a \<noteq> ''-'' then (case short_opts (tl a) rest of (os, r) \<Rightarrow> os @ getopt_long r)
      else Nonoption a # getopt_long rest)"
  by pat_completeness auto

termination
  by (relation "measure length")
    (auto dest: opts_left simp: less_Suc_eq_le)

declare getopt_long.simps [simp del]

text \<open>\<open>None\<close> is the usage message and \<open>exit (0)\<close>.\<close>

definition set_port :: "string \<Rightarrow> mon_args \<Rightarrow> mon_args" where
  "set_port s a = (case scan_int s of None \<Rightarrow> a | Some (n, _) \<Rightarrow> a\<lparr>difftest_port := to_int n\<rparr>)"

fun take_opts :: "opt list \<Rightarrow> mon_args \<Rightarrow> mon_args option" where
  "take_opts [] a = Some a"
| "take_opts (Nonoption f # os) a = Some (a\<lparr>img_file := Some f\<rparr>)"
| "take_opts (Unknown # os) a = None"
| "take_opts (Opt c arg # os) a =
     (if c = CHR ''b'' then take_opts os (a\<lparr>batch := True\<rparr>)
      else if c = CHR ''p'' then take_opts os (set_port (the arg) a)
      else if c = CHR ''l'' then take_opts os (a\<lparr>log_file := arg\<rparr>)
      else if c = CHR ''d'' then take_opts os (a\<lparr>diff_so_file := arg\<rparr>)
      else if c = CHR ''e'' then take_opts os (a\<lparr>elf_file := arg\<rparr>)
      else if c = CHR ''f'' then take_opts os (a\<lparr>flash_img_file := arg\<rparr>)
      else if c = CHR ''m'' then take_opts os (a\<lparr>mrom_img_file := arg\<rparr>)
      else if c = CHR ''c'' then take_opts os (a\<lparr>itrace_bin_file := arg\<rparr>)
      else None)"

definition parse_args :: "string list \<Rightarrow> mon_args option" where
  "parse_args argv = take_opts (getopt_long argv) args0"

section \<open>Loading\<close>

text \<open>\<open>fread (buf, size, 1, fp)\<close> returns 1 only for a file that is not empty.\<close>

definition load_file :: "config \<Rightarrow> host \<Rightarrow> string \<Rightarrow> hptr \<Rightarrow> ('v, 'r) emu \<Rightarrow> (nat \<times> ('v, 'r) emu) result" where
  "load_file cfg h filename buf e =
     (case files h filename of
        None \<Rightarrow> Inl (Assert_failed ''load_file'')
      | Some bs \<Rightarrow>
          if bs = [] then Inl (Assert_failed ''fread'')
          else if \<not> hin_bounds cfg buf (length bs) then Inl (Undefined ''image larger than the array'')
          else Inr (length bs, upd_sys (\<lambda>s. s\<lparr>harr := write_bytes buf bs (harr s)\<rparr>) e))"

definition load_optional ::
    "config \<Rightarrow> host \<Rightarrow> string option \<Rightarrow> paddr_t \<Rightarrow> ('v, 'r) emu \<Rightarrow> ('v, 'r) emu result" where
  "load_optional cfg h file base e =
     (case file of
        None \<Rightarrow> Inr e
      | Some f \<Rightarrow> bindR (guest_to_host cfg base) (\<lambda>p.
          bindR (load_file cfg h f p e) (\<lambda>(n, e). Inr e)))"

definition load_img :: "config \<Rightarrow> host \<Rightarrow> mon_args \<Rightarrow> ('v, 'r) emu \<Rightarrow> (nat \<times> ('v, 'r) emu) result" where
  "load_img cfg h a e =
     (case img_file a of
        None \<Rightarrow> Inr (4096, e)
      | Some f \<Rightarrow>
          bindR (guest_to_host cfg (RESET_VECTOR cfg)) (\<lambda>p.
          bindR (load_file cfg h f p e) (\<lambda>(n, e).
          bindR (load_optional cfg h (mrom_img_file a) (CONFIG_MROM_BASE cfg) e) (\<lambda>e.
          bindR (load_optional cfg h (flash_img_file a) (CONFIG_FLASH_BASE cfg) e) (\<lambda>e.
          Inr (n, e))))))"

section \<open>Initialisation and main\<close>

definition init_log :: "host \<Rightarrow> string option \<Rightarrow> ('v, 'r) emu \<Rightarrow> ('v, 'r) emu result" where
  "init_log h lf e =
     bindR (assertR (\<forall>f. lf = Some f \<longrightarrow> writable h f) ''init_log'') (\<lambda>_.
     Inr (upd_sys (\<lambda>s. s\<lparr>log_open := True\<rparr>) e))"

text \<open>\<open>init_rand\<close> reads the clock once; the seed is used for the initial memory.\<close>

definition init_rand :: "('v, 'r) emu \<Rightarrow> ('v, 'r) emu" where
  "init_rand e = upd_sys (\<lambda>s. s\<lparr>dev := snd (get_time_internal (dev s))\<rparr>) e"

definition open_itrace_bin :: "string option \<Rightarrow> ('v, 'r) emu \<Rightarrow> ('v, 'r) emu result" where
  "open_itrace_bin path e =
     (case path of
        None \<Rightarrow> Inr e
      | Some p \<Rightarrow>
          if 1024 < length p + 13 then Inl (Undefined ''itrace command'')
          else Inr (upd_sys (\<lambda>s. s\<lparr>itbin := init_itrace_bin (itbin s)\<rparr>) e))"

definition on_sys :: "(system \<Rightarrow> system result) \<Rightarrow> ('v, 'r) emu \<Rightarrow> ('v, 'r) emu result" where
  "on_sys f e = bindR (f (sys e)) (\<lambda>s. Inr (e\<lparr>sys := s\<rparr>))"

definition init_monitor ::
    "config \<Rightarrow> dev_config \<Rightarrow> ('v, 'r) externals \<Rightarrow> host \<Rightarrow> mon_args \<Rightarrow> ('v, 'r) emu \<Rightarrow> ('v, 'r) emu result" where
  "init_monitor cfg dc ex h a e =
     bindR (init_log h (log_file a) (init_rand e)) (\<lambda>e.
     bindR (open_itrace_bin (itrace_bin_file a) e) (\<lambda>e.
     bindR (on_sys (\<lambda>s. bindR (parse_elf (files h) (elf_file a) (ftrace s)) (\<lambda>fs. Inr (s\<lparr>ftrace := fs\<rparr>))) e) (\<lambda>e.
     let e = upd_sys (init_mem (mem_random h)) e in
     bindR (if CONFIG_DEVICE cfg then on_sys (init_device cfg dc) e else Inr e) (\<lambda>e.
     bindR (on_sys (init_isa cfg) e) (\<lambda>e.
     bindR (load_img cfg h a e) (\<lambda>(img_size, e).
     let e = init_sdb e in
     bindR (if CONFIG_NPC cfg then init_verilog ex e else Inr e) (\<lambda>e.
     bindR (assertR (CONFIG_ITRACE cfg \<longrightarrow> disasm_lib h) ''init_disasm'') (\<lambda>_.
     init_difftest cfg ex (diff_so_file a) img_size (difftest_port a) e))))))))"

definition engine_start ::
    "config \<Rightarrow> dev_config \<Rightarrow> ('v, 'r) externals \<Rightarrow> host \<Rightarrow> mon_args \<Rightarrow> ('v, 'r) emu \<Rightarrow>
     (shown list \<times> ('v, 'r) emu) run" where
  "engine_start cfg dc ex h a e = sdb_mainloop cfg dc ex (test_file h) (batch a) (lines_in h) e"

text \<open>The exit status, what was printed, and the state at the end.\<close>

definition nemu_main ::
    "config \<Rightarrow> dev_config \<Rightarrow> ('v, 'r) externals \<Rightarrow> host \<Rightarrow> string list \<Rightarrow> ('v, 'r) emu \<Rightarrow>
     (int \<times> shown list \<times> ('v, 'r) emu) run" where
  "nemu_main cfg dc ex h argv e =
     (case parse_args argv of
        None \<Rightarrow> Some (Inr (0, [Message ''Usage''], e))
      | Some a \<Rightarrow>
          bindN (Some (init_monitor cfg dc ex h a e)) (\<lambda>e.
          bindN (engine_start cfg dc ex h a e) (\<lambda>(out, e).
          case is_exit_status_bad (sys e) of (bad, trace, s) \<Rightarrow>
            Some (Inr (if bad then 1 else 0, out, e\<lparr>sys := s\<rparr>)))))"

end
