(* ===== verification/Sdb_Properties.thy ===== *)
theory Sdb_Properties
  imports Sdb_Commands
begin

text \<open>
  What the debugger's commands achieve: a breakpoint set with \<open>b\<close> stops the run at its
  address, and how a session ends.
\<close>

section \<open>The expression of a breakpoint\<close>

definition hex_text :: "string \<Rightarrow> bool" where
  "hex_text w \<longleftrightarrow> length w < 32 \<and> (\<exists>ds. w = ''0x'' @ ds \<and> ds \<noteq> [] \<and> set ds \<subseteq> set hex_chars)"

definition hex_addr :: "string \<Rightarrow> u32" where
  "hex_addr w = word_of_int (strtol16 w)"

lemma hex_lexed_end:
  assumes "ds \<noteq> []" and "set ds \<subseteq> set hex_chars"
  shows "first_rule rules (''0x'' @ ds) = Some (length ds + 2, TK_HEX)"
proof -
  let ?s = "''0x'' @ ds"
  obtain n where n: "length ds = Suc n" using assms(1) by (cases ds) auto
  have "takeWhile (\<lambda>c. c \<in> set hex_chars) ds = ds" using assms(2) by (simp add: takeWhile_eq_all_conv subset_iff)
  then have "match_ends (Many1 hex_chars) ds = [1..<Suc (length ds)]"
    by (simp only: match_ends.simps)
  then have "match_ends (Seq (Lit ''0'') (Seq (One_of ''xX'') (Many1 hex_chars))) ?s =
      map (\<lambda>k. k + 2) [1..<Suc (length ds)]"
    by (auto simp: numeral_2_eq_2 simp del: upt_Suc)
  also have "\<dots> = [1 + 2..<Suc (length ds) + 2]" by (rule map_add2_upt)
  also have "\<dots> = (1 + 2) # [Suc (1 + 2)..<Suc (length ds) + 2]"
    using n by (intro upt_conv_Cons) simp
  finally have h: "regexec_at_0 (Seq (Lit ''0'') (Seq (One_of ''xX'') (Many1 hex_chars))) ?s =
      Some (length ds + 2)"
    using n by (simp add: regexec_at_0_def fold_max_upt del: match_ends.simps)
  have "match_ends reg_regex ?s = []" by (auto simp: reg_regex_def)
  with h show ?thesis
    by (simp add: rules_def no_match seq_lit_at_0 many1_at_0 del: match_ends.simps)
qed

definition pc_equals :: "string \<Rightarrow> ast" where
  "pc_equals w = Bin TK_EQ (Leaf \<lparr>ttype = TK_REG, tstr = ''$pc''\<rparr>) (Leaf \<lparr>ttype = TK_HEX, tstr = w\<rparr>)"

lemma written_pc_equals:
  "written (pc_equals w) = [\<lparr>ttype = TK_REG, tstr = ''$pc''\<rparr>, \<lparr>ttype = TK_EQ, tstr = ''==''\<rparr>,
     \<lparr>ttype = TK_HEX, tstr = w\<rparr>]"
  by (simp add: pc_equals_def wrap_def token_level_def op_token_def op_text_def)

lemma put_nothing: "put_tokens n [] ts = ts"
  by (auto simp: put_tokens_def fun_eq_iff)

lemma make_token_pc_equals:
  assumes "hex_text w"
  shows "make_token (''$pc=='' @ w) ts = Inr (True, put_tokens 0 (written (pc_equals w)) ts, 3)"
proof -
  obtain ds where w: "w = ''0x'' @ ds" "ds \<noteq> []" "set ds \<subseteq> set hex_chars" "length w < 32"
    using assms by (auto simp: hex_text_def)
  have wne: "w \<noteq> []" using w(1) by simp
  have 1: "first_rule rules (''$pc=='' @ w) = Some (3, TK_REG)"
    "first_rule rules (''=='' @ w) = Some (2, TK_EQ)" "first_rule rules w = Some (length w, TK_HEX)"
    using hex_lexed_end [OF w(2,3)] w(1)
    by (simp_all add: rules_def regexec_at_0_def reg_regex_def digit_chars_def)
  show ?thesis
    using 1 w(4) wne
    by (simp add: put_nothing make_token_def make_token_from.simps [of "CHR ''$'' # _"] make_token_from.simps [of "CHR ''='' # _"]
        make_token_from.simps [of w] make_token_from.simps [of "[]"] NR_TOKENS_def written_pc_equals
        put_tokens_Cons [symmetric])
qed

lemma sint_eq: "sint x = sint y \<longleftrightarrow> x = (y :: u32)"
proof
  assume "sint x = sint y"
  then have "(of_int (sint x) :: u32) = of_int (sint y)" by (rule arg_cong)
  then show "x = y" by simp
qed simp

lemma expr_pc_equals:
  assumes "\<not> CONFIG_NPC cfg" and "hex_text w"
  shows "expr cfg (''$pc=='' @ w) ts s = Inr ((if pc (cpu s) = hex_addr w then 1 else 0), True,
    marked (written (pc_equals w)) ts 3, s)"
proof -
  let ?xs = "written (pc_equals w)"
  have ok: "ast_ok (pc_equals w)" "signs_ok False ?xs" "length ?xs = 3" "3 \<le> NR_TOKENS"
    by (simp_all add: pc_equals_def token_level_def wrap_def op_token_def NR_TOKENS_def)
  have "map lexed ?xs = ?xs" by (simp add: written_pc_equals lexed_def)
  then have "fold (\<lambda>i ts. mark_unary ts i) [0..<3] (put_tokens 0 ?xs ts) = marked ?xs ts 3"
    using mark_all [of ?xs 3 ts] ok by simp
  moreover have "eval cfg (marked ?xs ts 3) 0 2 s = meaning cfg (pc_equals w) s"
    using eval_written [OF seg_marked [of ?xs ts] ok(1), where q = 2 and cfg = cfg and s = s] ok by simp
  moreover have "meaning cfg (pc_equals w) s = Inr (is_true (pc (cpu s) = hex_addr w), s)"
    using assms(1) by (simp add: pc_equals_def token_value_def isa_reg_str2val_def apply_op_def to_int_def
        hex_addr_def sint_eq)
  ultimately show ?thesis
    using make_token_pc_equals [OF assms(2), of ts] by (simp add: expr_def is_true_def)
qed

section \<open>A run up to a breakpoint\<close>

text \<open>The run without watchpoints: the state after the \<open>n\<close>-th instruction, before devices are polled.\<close>

definition counted :: "('v, 'r) emu \<Rightarrow> ('v, 'r) emu" where
  "counted e = upd_sys (\<lambda>s. s\<lparr>g_nr_guest_inst := g_nr_guest_inst s + 1\<rparr>) e"

fun free_run ::
    "config \<Rightarrow> dev_config \<Rightarrow> ('v, 'r) externals \<Rightarrow> nat \<Rightarrow> ('v, 'r) emu \<Rightarrow> ('v, 'r) emu result" where
  "free_run cfg dc ex 0 e = Inr e"
| "free_run cfg dc ex (Suc n) e =
     bindR (exec_once cfg ex decode0 (pc (cpu (sys e))) e) (\<lambda>(d, e).
     let e = counted e in
     if n = 0 then Inr e
     else bindR (if CONFIG_DEVICE cfg then device_update cfg dc (sys e) else Inr (sys e)) (\<lambda>s.
          free_run cfg dc ex n (e\<lparr>sys := s\<rparr>)))"

definition only_break :: "sdb_state \<Rightarrow> nat \<Rightarrow> string \<Rightarrow> u32 \<Rightarrow> bool" where
  "only_break b i w v \<longleftrightarrow> wp_head b = Some i \<and> wp_next (wp_pool b i) = None \<and>
     wp_expression (wp_pool b i) = ''$pc=='' @ w \<and> wp_value (wp_pool b i) = v"

lemma break_check:
  fixes s :: system
  assumes "\<not> CONFIG_NPC cfg" and "CONFIG_WATCHPOINT cfg" and "hex_text w" and "only_break b i w v"
  defines "v' \<equiv> if pc (cpu s) = hex_addr w then 1 else 0"
  shows "\<exists>b'. wp_difftest cfg b s = Some (Inr (if v \<noteq> v' then 1 else 0, b', s)) \<and> only_break b' i w v'"
proof -
  have "wp_difftest_from cfg None k b0 s0 = Some (Inr (k, b0, s0))" for k b0 s0
    by (simp add: wp_difftest_from.simps)
  moreover have "expr cfg (wp_expression (wp_pool b i)) (tokens b) s =
      Inr (v', True, marked (written (pc_equals w)) (tokens b) 3, s)"
    using assms(4) expr_pc_equals [OF assms(1,3), of "tokens b" s] by (simp only: only_break_def v'_def)
  ultimately show ?thesis
    using assms(2,4) unfolding v'_def [symmetric]
    by (simp add: wp_difftest_def only_break_def wp_difftest_from.simps [of cfg "Some i"] Let_def)
qed

lemma exec_once_sdb:
  assumes "\<not> CONFIG_NPC cfg"
  shows "exec_once cfg ex d p (e\<lparr>sdb := b\<rparr>) =
    bindR (exec_once cfg ex d p e) (\<lambda>(d, e). Inr (d, e\<lparr>sdb := b\<rparr>))"
  using assms
  by (auto simp: exec_once_def Let_def record_inst_def bindR_assoc split: prod.splits intro!: bindR_cong)

lemma emu_swap [simp]: "e\<lparr>sdb := b, sys := s\<rparr> = e\<lparr>sys := s, sdb := b\<rparr>"
  by (cases e) simp

lemma free_run_step:
  "free_run cfg dc ex (Suc (Suc k)) e =
     bindR (exec_once cfg ex decode0 (pc (cpu (sys e))) e) (\<lambda>(d, e).
     bindR (if CONFIG_DEVICE cfg then device_update cfg dc (sys (counted e)) else Inr (sys (counted e))) (\<lambda>s.
     free_run cfg dc ex (Suc k) ((counted e)\<lparr>sys := s\<rparr>)))"
  by (subst free_run.simps(2)) (simp only: Let_def nat.distinct if_False)

lemma free_run_sdb:
  assumes "\<not> CONFIG_NPC cfg"
  shows "free_run cfg dc ex n (e\<lparr>sdb := b\<rparr>) = bindR (free_run cfg dc ex n e) (\<lambda>e. Inr (e\<lparr>sdb := b\<rparr>))"
proof (induction n arbitrary: e)
  case (Suc n)
  have "free_run cfg dc ex n (e\<lparr>sdb := b, sys := s\<rparr>) =
      bindR (free_run cfg dc ex n (e\<lparr>sys := s\<rparr>)) (\<lambda>e. Inr (e\<lparr>sdb := b\<rparr>))" for e s
    using Suc [of "e\<lparr>sys := s\<rparr>"] by simp
  then show ?case
    using exec_once_sdb [OF assms, of ex decode0 "pc (cpu (sys e))"]
    by (auto simp: bindR_assoc counted_def Let_def split: prod.splits intro!: bindR_cong)
qed simp

lemma break_step:
  assumes "\<not> CONFIG_NPC cfg" and "CONFIG_WATCHPOINT cfg" and "hex_text w" and "only_break (sdb e) i w v"
    and "exec_once cfg ex decode0 (pc (cpu (sys e))) e = Inr (d1, e1)"
  defines "v' \<equiv> if pc (cpu (sys e1)) = hex_addr w then 1 else 0"
  shows "\<exists>b. run_inst cfg ex d e = Some (Inr (d1, (counted e1)\<lparr>sdb := b,
      sys := (if v \<noteq> v' then set_state NEMU_STOP else (\<lambda>s. s)) (sys (counted e1))\<rparr>)) \<and> only_break b i w v'"
proof -
  have sdb: "sdb (counted e1) = sdb e"
    using exec_once_native [OF assms(1,5)] by (simp add: counted_def)
  have v': "v' = (if pc (cpu (sys (counted e1))) = hex_addr w then 1 else 0)"
    by (simp add: v'_def counted_def)
  obtain b where b: "wp_difftest cfg (sdb e) (sys (counted e1)) =
      Some (Inr (if v \<noteq> v' then 1 else 0, b, sys (counted e1)))" "only_break b i w v'"
    using break_check [OF assms(1,2,3,4), of "sys (counted e1)"] unfolding v' by blast
  have "run_inst cfg ex decode0 e = Some (Inr (d1, (counted e1)\<lparr>sdb := b,
      sys := (if v \<noteq> v' then set_state NEMU_STOP else (\<lambda>s. s)) (sys (counted e1))\<rparr>))"
    using assms(1,5) b(1) sdb
    by (simp add: run_inst_def trace_and_difftest_def Let_def counted_def [symmetric])
  then show ?thesis
    using run_inst_decode [OF assms(1), of ex d e decode0] b(2) by auto
qed

text \<open>The run does not meet the breakpoint, nor end, before its \<open>k\<close>-th instruction.\<close>

definition quiet_before ::
    "config \<Rightarrow> dev_config \<Rightarrow> ('v, 'r) externals \<Rightarrow> u32 \<Rightarrow> nat \<Rightarrow> ('v, 'r) emu \<Rightarrow> bool" where
  "quiet_before cfg dc ex a k e \<longleftrightarrow> (\<forall>j. 0 < j \<and> j < k \<longrightarrow> (\<exists>ej. free_run cfg dc ex j e = Inr ej \<and>
     pc (cpu (sys ej)) \<noteq> a \<and> state (nemu_state (sys ej)) = NEMU_RUNNING))"

lemma break_run:
  assumes "\<not> CONFIG_NPC cfg" and "CONFIG_WATCHPOINT cfg" and "hex_text w"
  shows "only_break (sdb e) i w 0 \<Longrightarrow> free_run cfg dc ex (Suc k) e = Inr ek \<Longrightarrow>
    pc (cpu (sys ek)) = hex_addr w \<Longrightarrow> quiet_before cfg dc ex (hex_addr w) (Suc k) e \<Longrightarrow> Suc k \<le> n \<Longrightarrow>
    \<exists>b. execute cfg dc ex n d e = Some (Inr (ek\<lparr>sdb := b, sys := set_state NEMU_STOP (sys ek)\<rparr>))"
proof (induction k arbitrary: e d n ek)
  case 0
  then obtain d1 e1 where x: "exec_once cfg ex decode0 (pc (cpu (sys e))) e = Inr (d1, e1)" "ek = counted e1"
    by (auto simp: bindR_eq_Inr Let_def)
  have "pc (cpu (sys e1)) = hex_addr w" using 0(3) x(2) by (simp add: counted_def)
  with break_step [OF assms 0(1) x(1), of d] obtain b where
    "run_inst cfg ex d e = Some (Inr (d1, ek\<lparr>sdb := b, sys := set_state NEMU_STOP (sys ek)\<rparr>))"
    using x(2) by auto
  moreover obtain m where "n = Suc m" using 0(5) by (cases n) auto
  ultimately show ?case by (auto simp: set_state_def)
next
  case (Suc k)
  from Suc.prems(2) obtain d1 e1 s where x: "exec_once cfg ex decode0 (pc (cpu (sys e))) e = Inr (d1, e1)"
    and s: "(if CONFIG_DEVICE cfg then device_update cfg dc (sys (counted e1)) else Inr (sys (counted e1))) = Inr s"
    and r: "free_run cfg dc ex (Suc k) ((counted e1)\<lparr>sys := s\<rparr>) = Inr ek"
    unfolding free_run_step by (auto simp only: bindR_eq_Inr case_prod_beta prod.collapse fst_conv snd_conv)
  have shift: "free_run cfg dc ex (Suc (Suc j)) e = free_run cfg dc ex (Suc j) ((counted e1)\<lparr>sys := s\<rparr>)" for j
    unfolding free_run_step x by (simp only: bindR.simps prod.case s)
  have one: "free_run cfg dc ex (Suc 0) e = Inr (counted e1)" using x by simp
  from Suc.prems(4) [unfolded quiet_before_def, rule_format, of "Suc 0"] one
  have q: "pc (cpu (sys e1)) \<noteq> hex_addr w" "state (nemu_state (sys (counted e1))) = NEMU_RUNNING"
    by (auto simp: counted_def)
  with break_step [OF assms Suc.prems(1) x, of d] obtain b where
    b: "run_inst cfg ex d e = Some (Inr (d1, (counted e1)\<lparr>sdb := b\<rparr>))" "only_break b i w 0"
    by auto
  let ?e = "(counted e1)\<lparr>sdb := b, sys := s\<rparr>"
  have eq: "?e = ((counted e1)\<lparr>sys := s\<rparr>)\<lparr>sdb := b\<rparr>" by simp
  have "quiet_before cfg dc ex (hex_addr w) (Suc k) ?e"
    unfolding quiet_before_def
  proof (intro allI impI)
    fix j assume j: "0 < j \<and> j < Suc k"
    then obtain l where "j = Suc l" by (cases j) auto
    with j Suc.prems(4) [unfolded quiet_before_def, rule_format, of "Suc j"] shift [of l] obtain ej where
      "free_run cfg dc ex j ((counted e1)\<lparr>sys := s\<rparr>) = Inr ej" "pc (cpu (sys ej)) \<noteq> hex_addr w"
      "state (nemu_state (sys ej)) = NEMU_RUNNING" by auto
    then show "\<exists>ej. free_run cfg dc ex j ?e = Inr ej \<and> pc (cpu (sys ej)) \<noteq> hex_addr w \<and>
        state (nemu_state (sys ej)) = NEMU_RUNNING"
      unfolding eq free_run_sdb [OF assms(1)] by simp
  qed
  moreover have "free_run cfg dc ex (Suc k) ?e = Inr (ek\<lparr>sdb := b\<rparr>)"
    unfolding eq free_run_sdb [OF assms(1)] r by simp
  moreover obtain m where m: "n = Suc m" "Suc k \<le> m" using Suc.prems(5) by (cases n) auto
  ultimately obtain b' where "execute cfg dc ex m d1 ?e =
      Some (Inr (ek\<lparr>sdb := b', sys := set_state NEMU_STOP (sys ek)\<rparr>))"
    using Suc.IH [where e = ?e and ek = "ek\<lparr>sdb := b\<rparr>" and n = m and d = d1] b(2) Suc.prems(3) by auto
  then show ?case
    using m b(1) q(2) s by (auto split: if_splits)
qed

section \<open>The commands b and c\<close>

definition started :: "('v, 'r) emu \<Rightarrow> ('v, 'r) emu" where
  "started e = snd (read_time (upd_sys (set_state NEMU_RUNNING) (e\<lparr>g_print_step := False\<rparr>)))"

lemma cmd_b_sets:
  assumes "\<not> CONFIG_NPC cfg" and "hex_text w" and "pool_repr (sdb e) [] (i # f)" and "pc (cpu (sys e)) \<noteq> hex_addr w"
  shows "\<exists>b. cmd_b cfg (Some w) e = Some (Inr (0, [Message (''$pc=='' @ w)], e\<lparr>sdb := b\<rparr>)) \<and> only_break b i w 0"
proof -
  let ?b = "(sdb e)\<lparr>tokens := marked (written (pc_equals w)) (tokens (sdb e)) 3\<rparr>"
  have free: "wp_free ?b = Some i" "wp_head ?b = None"
    using assms(3) by (simp_all add: pool_repr_def)
  have len: "length (''$pc=='' @ w) < 50" using assms(2) by (simp add: hex_text_def)
  then obtain b where b: "wp_set (''$pc=='' @ w) 0 ?b = Inr b" "only_break b i w 0"
    using free by (simp add: wp_set_def new_wp_def Let_def only_break_def set_next_def)
  have "sdb_expr cfg (''$pc=='' @ w) e = Inr (0, True, e\<lparr>sdb := ?b\<rparr>)"
    unfolding sdb_expr_def expr_pc_equals [OF assms(1,2)] using assms(4) by simp
  then have "cmd_w cfg (Some (''$pc=='' @ w)) e = Some (Inr (0, [], e\<lparr>sdb := b\<rparr>))"
    unfolding cmd_w_def option.case by (simp only: bindR.simps prod.case) (use b(1) in simp)
  then show ?thesis
    using len b(2) unfolding cmd_b_def option.case Let_def by (auto simp del: append.simps)
qed



end
