(* ===== verification/Monitor_Properties.thy ===== *)
theory Monitor_Properties
  imports Monitor Sdb_Properties
begin

text \<open>The program as a whole: NEMU started without an image.\<close>

lemma main_without_image:
  fixes v :: 'v and r :: 'r
  assumes args: "parse_args argv = Some a" "batch a" "img_file a = None" "elf_file a = None" "itrace_bin_file a = None"
    and host: "disasm_lib h" "\<forall>f. log_file a = Some f \<longrightarrow> writable h f"
    and disasm: "\<And>p c. \<exists>x. cs_disasm ex p c = [x]"
  shows "\<exists>out e. nemu_main bare_config dc ex h argv (emu0 (system0 clk) v r) = Some (Inr (0, out, e)) \<and>
    nemu_state (sys e) = \<lparr>state = NEMU_END, halt_pc = 0x8000000c, halt_ret = 0\<rparr> \<and> g_nr_guest_inst (sys e) = 4"
proof -
  let ?s1 = "(system0 clk)\<lparr>dev := snd (get_time_internal (dev (system0 clk))), log_open := True\<rparr>"
  let ?s2 = "init_mem (mem_random h) ?s1"
  obtain hh where i: "init_isa bare_config ?s2 = Inr (restart bare_config (?s2\<lparr>harr := hh\<rparr>))"
    and img: "\<forall>i < 5. host_load bare_config hh (A_pmem, 4 * i) 4 = Inr (img ! i)"
    using init_isa_bare by blast
  let ?e = "init_sdb (emu0 (restart bare_config (?s2\<lparr>harr := hh\<rparr>)) v r)"
  have mon: "init_monitor bare_config dc ex h a (emu0 (system0 clk) v r) = Inr ?e"
    using args(3-5) host i
    by (simp add: init_monitor_def init_log_def init_rand_def open_itrace_bin_def on_sys_def parse_elf_def
        load_img_def init_difftest_def Let_def emu0_def)
  have "pc (cpu (sys ?e)) = 0x80000000" "gpr (cpu (sys ?e)) 0 = 0" "wp_head (sdb ?e) = None"
    "harr (sys ?e) = hh" "\<not> halts (state (nemu_state (sys ?e)))" "g_nr_guest_inst (sys ?e) = 0"
    by (simp_all add: restart_def system0_def cpu0_def RESET_VECTOR_def PMEM_LEFT_def emu0_def init_sdb_def
        init_wp_pool_def init_mem_def split: option.splits)
  with image_cpu_exec [OF disasm, of "- 1" ?e dc] img obtain e1 where
    e1: "cpu_exec bare_config dc ex (- 1) ?e = Some (Inr e1)"
      "nemu_state (sys e1) = \<lparr>state = NEMU_END, halt_pc = 0x8000000c, halt_ret = 0\<rparr>"
      "g_nr_guest_inst (sys e1) = 4" "\<not> fst (is_exit_status_bad (sys e1))"
    by auto
  obtain tr s where x: "is_exit_status_bad (sys e1) = (False, tr, s)"
    using e1(4) by (cases "is_exit_status_bad (sys e1)") auto
  then have s: "nemu_state s = nemu_state (sys e1)" "g_nr_guest_inst s = g_nr_guest_inst (sys e1)"
    by (auto simp: is_exit_status_bad_def Let_def split: prod.splits)
  show ?thesis
    using args(1,2) mon e1(1-3) x s
    by (simp add: nemu_main_def engine_start_def sdb_mainloop_def cmd_c_def prints_def)
qed



end
