(* ===== verification/Klib_String.thy ===== *)
theory Klib_String
  imports Nemu_Prelude
begin

text \<open>
  The memory and string functions of the bare-metal C library,
  \<open>abstract-machine/klib/src/string.c\<close>, on a 32-bit target whose \<open>char\<close> is unsigned
  (RISC-V). Memory is a function from addresses to bytes; a pointer is an address and
  pointer arithmetic wraps. Loops that look for a terminating NUL are partial functions:
  \<open>None\<close> is a loop that never ends.
\<close>

section \<open>string.c\<close>

type_synonym mem = "u32 \<Rightarrow> u8"

partial_function (option) strlen_from :: "mem \<Rightarrow> u32 \<Rightarrow> u32 \<Rightarrow> u32 option" where
  "strlen_from m s len = (if m (s + len) = 0 then Some len else strlen_from m s (len + 1))"

definition strlen :: "mem \<Rightarrow> u32 \<Rightarrow> u32 option" where
  "strlen m s = (if s = 0 then Some 0 else strlen_from m s 0)"

partial_function (option) strcpy_loop :: "u32 \<Rightarrow> u32 \<Rightarrow> mem \<Rightarrow> mem option" where
  "strcpy_loop tmp src m =
     (if m src = 0 then Some (m(tmp := 0))
      else strcpy_loop (tmp + 1) (src + 1) (m(tmp := m src)))"

definition strcpy :: "u32 \<Rightarrow> u32 \<Rightarrow> mem \<Rightarrow> mem result option" where
  "strcpy dst src m =
     (if dst = 0 \<or> src = 0 then Some (Inl (Assert_failed ''strcpy''))
      else map_option Inr (strcpy_loop dst src m))"

text \<open>The bound \<open>n\<close> is not looked at.\<close>

partial_function (option) strncpy_loop :: "u32 \<Rightarrow> u32 \<Rightarrow> u32 \<Rightarrow> mem \<Rightarrow> mem option" where
  "strncpy_loop dst src i m =
     (if m (src + i) = 0 then Some (m(dst + i := 0))
      else strncpy_loop dst src (i + 1) (m(dst + i := m (src + i))))"

definition strncpy :: "u32 \<Rightarrow> u32 \<Rightarrow> u32 \<Rightarrow> mem \<Rightarrow> mem option" where
  "strncpy dst src n m = strncpy_loop dst src 0 m"

definition strcat :: "u32 \<Rightarrow> u32 \<Rightarrow> mem \<Rightarrow> mem result option" where
  "strcat dst src m = Option.bind (strlen m dst) (\<lambda>len. strcpy (dst + len) src m)"

definition char_diff :: "u8 \<Rightarrow> u8 \<Rightarrow> int" where
  "char_diff a b = uint a - uint b"

partial_function (option) strcmp :: "mem \<Rightarrow> u32 \<Rightarrow> u32 \<Rightarrow> int option" where
  "strcmp m s1 s2 =
     (if m s1 \<noteq> 0 \<and> m s2 \<noteq> 0 then
        if m s1 \<noteq> m s2 then Some (char_diff (m s1) (m s2)) else strcmp m (s1 + 1) (s2 + 1)
      else Some (char_diff (m s1) (m s2)))"

fun strncmp_loop :: "nat \<Rightarrow> mem \<Rightarrow> u32 \<Rightarrow> u32 \<Rightarrow> int" where
  "strncmp_loop 0 m s1 s2 = 0"
| "strncmp_loop (Suc k) m s1 s2 =
     (if m s1 \<noteq> 0 \<and> m s2 \<noteq> 0 then
        if m s1 \<noteq> m s2 then char_diff (m s1) (m s2) else strncmp_loop k m (s1 + 1) (s2 + 1)
      else char_diff (m s1) (m s2))"

definition strncmp :: "mem \<Rightarrow> u32 \<Rightarrow> u32 \<Rightarrow> u32 \<Rightarrow> int" where
  "strncmp m s1 s2 n = strncmp_loop (unat n) m s1 s2"

fun memset_loop :: "nat \<Rightarrow> u32 \<Rightarrow> u8 \<Rightarrow> mem \<Rightarrow> mem" where
  "memset_loop 0 p c m = m"
| "memset_loop (Suc n) p c m = memset_loop n (p + 1) c (m(p := c))"

definition memset :: "u32 \<Rightarrow> u32 \<Rightarrow> u32 \<Rightarrow> mem \<Rightarrow> mem" where
  "memset s c n m = memset_loop (unat n) s (ucast c) m"

fun copy_up :: "nat \<Rightarrow> u32 \<Rightarrow> u32 \<Rightarrow> mem \<Rightarrow> mem" where
  "copy_up 0 d s m = m"
| "copy_up (Suc n) d s m = copy_up n (d + 1) (s + 1) (m(d := m s))"

fun copy_down :: "nat \<Rightarrow> u32 \<Rightarrow> u32 \<Rightarrow> mem \<Rightarrow> mem" where
  "copy_down 0 d s m = m"
| "copy_down (Suc n) d s m = copy_down n (d - 1) (s - 1) (m(d := m s))"

definition memmove :: "u32 \<Rightarrow> u32 \<Rightarrow> u32 \<Rightarrow> mem \<Rightarrow> mem" where
  "memmove dst src n m =
     (if dst < src then copy_up (unat n) dst src m
      else copy_down (unat n) (dst + n - 1) (src + n - 1) m)"

definition memcpy :: "u32 \<Rightarrow> u32 \<Rightarrow> u32 \<Rightarrow> mem \<Rightarrow> mem" where
  "memcpy out inp n m = copy_up (unat n) out inp m"

fun memcmp_loop :: "nat \<Rightarrow> mem \<Rightarrow> u32 \<Rightarrow> u32 \<Rightarrow> int" where
  "memcmp_loop 0 m p1 p2 = 0"
| "memcmp_loop (Suc n) m p1 p2 =
     (if m p1 \<noteq> m p2 then char_diff (m p1) (m p2) else memcmp_loop n m (p1 + 1) (p2 + 1))"

definition memcmp :: "mem \<Rightarrow> u32 \<Rightarrow> u32 \<Rightarrow> u32 \<Rightarrow> int" where
  "memcmp m s1 s2 n = memcmp_loop (unat n) m s1 s2"

section \<open>Regions and strings in memory\<close>

definition span :: "u32 \<Rightarrow> nat \<Rightarrow> u32 set" where
  "span p n = (\<lambda>i. p + of_nat i) ` {..<n}"

text \<open>The object \<open>[p, p + n)\<close> does not wrap around the address space.\<close>

definition fits :: "u32 \<Rightarrow> nat \<Rightarrow> bool" where
  "fits p n \<longleftrightarrow> unat p + n \<le> 2 ^ 32"

lemma span_0 [simp]: "span p 0 = {}" by (simp add: span_def)

lemma span_Suc: "span p (Suc n) = insert p (span (p + 1) n)"
  by (auto simp: span_def image_iff lessThan_Suc_eq_insert_0 algebra_simps)

lemma fits_unat: "fits p n \<Longrightarrow> i < n \<Longrightarrow> unat (p + of_nat i) = unat p + i"
  unfolding fits_def by (subst unat_add_lem [THEN iffD1]) (simp_all add: unat_of_nat_u32)

lemma mem_span: "fits p n \<Longrightarrow> a \<in> span p n \<longleftrightarrow> unat p \<le> unat a \<and> unat a < unat p + n"
proof
  assume f: "fits p n"
  { assume "a \<in> span p n"
    then show "unat p \<le> unat a \<and> unat a < unat p + n"
      using fits_unat [OF f] by (auto simp: span_def) }
  { assume a: "unat p \<le> unat a \<and> unat a < unat p + n"
    then have "unat (p + of_nat (unat a - unat p)) = unat a"
      using fits_unat [OF f, of "unat a - unat p"] by auto
    then have "a = p + of_nat (unat a - unat p)" by (simp only: word_unat_eq_iff)
    with a show "a \<in> span p n"
      unfolding span_def by (intro image_eqI [where x = "unat a - unat p"]) auto }
qed

fun bytes_at :: "mem \<Rightarrow> u32 \<Rightarrow> nat \<Rightarrow> u8 list" where
  "bytes_at m p 0 = []"
| "bytes_at m p (Suc n) = m p # bytes_at m (p + 1) n"

definition cstring :: "mem \<Rightarrow> u32 \<Rightarrow> u8 list \<Rightarrow> bool" where
  "cstring m p xs \<longleftrightarrow> 0 \<notin> set xs \<and> bytes_at m p (Suc (length xs)) = xs @ [0]"

lemma length_bytes_at [simp]: "length (bytes_at m p n) = n"
  by (induction n arbitrary: p) auto

lemma nth_bytes_at: "i < n \<Longrightarrow> bytes_at m p n ! i = m (p + of_nat i)"
  by (induction n arbitrary: p i) (auto simp: nth_Cons' algebra_simps)

lemma bytes_at_cong: "(\<And>a. a \<in> span p n \<Longrightarrow> m a = m' a) \<Longrightarrow> bytes_at m p n = bytes_at m' p n"
  by (induction n arbitrary: p) (auto simp: span_Suc)

section \<open>Copying\<close>

text \<open>
  What a block copy promises, and what follows for the bytes and strings in memory. \<open>ok\<close> is
  the overlap an implementation supports.
\<close>

locale block_copy =
  fixes copy :: "u32 \<Rightarrow> u32 \<Rightarrow> u32 \<Rightarrow> mem \<Rightarrow> mem"
    and ok :: "u32 \<Rightarrow> u32 \<Rightarrow> nat \<Rightarrow> bool"
  assumes copied: "ok d s (unat n) \<Longrightarrow> i < unat n \<Longrightarrow> copy d s n m (d + of_nat i) = m (s + of_nat i)"
    and outside: "ok d s (unat n) \<Longrightarrow> a \<notin> span d (unat n) \<Longrightarrow> copy d s n m a = m a"
begin

lemma copied_bytes:
  "ok d s (unat n) \<Longrightarrow> bytes_at (copy d s n m) d (unat n) = bytes_at m s (unat n)"
  by (rule nth_equalityI) (simp_all add: nth_bytes_at copied)

lemma outside_bytes:
  assumes "ok d s (unat n)" and "span d (unat n) \<inter> span p k = {}"
  shows "bytes_at (copy d s n m) p k = bytes_at m p k"
  by (rule bytes_at_cong) (use assms outside in blast)

lemma copied_string:
  assumes "ok d s (unat n)" and "cstring m s xs" and "unat n = Suc (length xs)"
  shows "cstring (copy d s n m) d xs"
  using assms copied_bytes [OF assms(1), of m] by (simp add: cstring_def del: bytes_at.simps)

end

lemma copy_up_outside: "a \<notin> span d n \<Longrightarrow> copy_up n d s m a = m a"
  by (induction n arbitrary: d s m) (auto simp: span_Suc)

text \<open>Copying upwards is right when no byte is overwritten before it is read.\<close>

lemma copy_up_copied:
  "(\<And>j l. j < l \<Longrightarrow> l < n \<Longrightarrow> d + of_nat j \<noteq> s + of_nat l) \<Longrightarrow> n \<le> 2 ^ 32 \<Longrightarrow> i < n \<Longrightarrow>
   copy_up n d s m (d + of_nat i) = m (s + of_nat i)"
proof (induction n arbitrary: d s m i)
  case (Suc n)
  have d0: "d \<noteq> s + of_nat (Suc l)" if "l < n" for l using Suc.prems(1) [of 0 "Suc l"] that by simp
  have dj: "d + 1 + of_nat j \<noteq> s + 1 + of_nat l" if "j < l" "l < n" for j l
    using Suc.prems(1) [of "Suc j" "Suc l"] that by (simp add: algebra_simps)
  show ?case
  proof (cases i)
    case 0
    have "d \<notin> span (d + 1) n"
    proof
      assume "d \<in> span (d + 1) n"
      then obtain j where j: "j < n" "d + of_nat 0 = d + of_nat (Suc j)"
        by (auto simp: span_def algebra_simps)
      then have "(of_nat 0 :: u32) = of_nat (Suc j)" by (simp only: add_left_cancel)
      with j(1) Suc.prems(2) show False by (subst (asm) of_nat_u32_inj) auto
    qed
    with 0 show ?thesis by (simp add: copy_up_outside)
  next
    case (Suc j)
    with Suc.prems(3) have j: "j < n" by simp
    have "copy_up n (d + 1) (s + 1) (m(d := m s)) (d + 1 + of_nat j) = (m(d := m s)) (s + 1 + of_nat j)"
      by (rule Suc.IH [OF dj]) (use j Suc.prems(2) in auto)
    also have "\<dots> = m (s + 1 + of_nat j)"
      using d0 [OF j] by (simp add: algebra_simps)
    finally show ?thesis using Suc by (simp add: algebra_simps)
  qed
qed simp

lemma copy_down_outside: "a \<notin> span d n \<Longrightarrow> copy_down n (d + of_nat n - 1) s m a = m a"
proof (induction n arbitrary: s m)
  case (Suc n)
  have "d + of_nat n \<in> span d (Suc n)" "span d n \<subseteq> span d (Suc n)" by (auto simp: span_def)
  with Suc.prems have "a \<notin> span d n" "a \<noteq> d + of_nat n" by auto
  with Suc.IH show ?case by (simp add: algebra_simps)
qed simp

lemma copy_down_copied:
  "(\<And>j l. l < j \<Longrightarrow> j < n \<Longrightarrow> d + of_nat j \<noteq> s + of_nat l) \<Longrightarrow> n \<le> 2 ^ 32 \<Longrightarrow> i < n \<Longrightarrow>
   copy_down n (d + of_nat n - 1) (s + of_nat n - 1) m (d + of_nat i) = m (s + of_nat i)"
proof (induction n arbitrary: m i)
  case (Suc n)
  let ?m = "m(d + of_nat n := m (s + of_nat n))"
  have step: "copy_down (Suc n) (d + of_nat (Suc n) - 1) (s + of_nat (Suc n) - 1) m =
      copy_down n (d + of_nat n - 1) (s + of_nat n - 1) ?m" by (simp add: algebra_simps)
  show ?case
  proof (cases "i = n")
    case True
    have "d + of_nat n \<notin> span d n"
    proof
      assume "d + of_nat n \<in> span d n"
      then obtain j where j: "j < n" "(of_nat n :: u32) = of_nat j" by (auto simp: span_def)
      with Suc.prems(2) show False by (subst (asm) of_nat_u32_inj) auto
    qed
    with True show ?thesis unfolding step by (simp add: copy_down_outside)
  next
    case False
    with Suc.prems(3) have i: "i < n" by simp
    have "copy_down n (d + of_nat n - 1) (s + of_nat n - 1) ?m (d + of_nat i) = ?m (s + of_nat i)"
      by (rule Suc.IH) (use i Suc.prems in auto)
    then show ?thesis unfolding step using Suc.prems(1) [of i n] i by auto
  qed
qed simp

lemma unat_le: "unat (n :: u32) \<le> 2 ^ 32"
proof -
  have "unat n < 2 ^ LENGTH(32)" by (rule unsigned_less)
  then show ?thesis by simp
qed

definition disjoint_blocks :: "u32 \<Rightarrow> u32 \<Rightarrow> nat \<Rightarrow> bool" where
  "disjoint_blocks d s n \<longleftrightarrow> span d n \<inter> span s n = {}"

definition in_memory :: "u32 \<Rightarrow> u32 \<Rightarrow> nat \<Rightarrow> bool" where
  "in_memory d s n \<longleftrightarrow> fits d n \<and> fits s n"

interpretation memcpy: block_copy memcpy disjoint_blocks
proof
  fix d s n :: u32 and i m a
  show "memcpy d s n m (d + of_nat i) = m (s + of_nat i)" if "disjoint_blocks d s (unat n)" and i: "i < unat n"
  proof -
    have "d + of_nat j \<noteq> s + of_nat l" if "j < l" "l < unat n" for j l
    proof -
      have "d + of_nat j \<in> span d (unat n)" "s + of_nat l \<in> span s (unat n)"
        using that by (auto simp: span_def)
      then show ?thesis using \<open>disjoint_blocks d s (unat n)\<close> by (auto simp: disjoint_blocks_def)
    qed
    then show ?thesis unfolding memcpy_def by (rule copy_up_copied [OF _ unat_le i])
  qed
  show "disjoint_blocks d s (unat n) \<Longrightarrow> a \<notin> span d (unat n) \<Longrightarrow> memcpy d s n m a = m a"
    by (simp add: memcpy_def copy_up_outside)
qed

interpretation memmove: block_copy memmove in_memory
proof
  fix d s n :: u32 and i m a
  have down: "d + n - 1 = d + of_nat (unat n) - 1" "s + n - 1 = s + of_nat (unat n) - 1" by simp_all
  show "memmove d s n m (d + of_nat i) = m (s + of_nat i)" if f: "in_memory d s (unat n)" and i: "i < unat n"
  proof (cases "d < s")
    case True
    have "d + of_nat j \<noteq> s + of_nat l" if "j < l" "l < unat n" for j l
      using fits_unat [of d "unat n" j] fits_unat [of s "unat n" l] f True that
      by (auto simp: in_memory_def word_less_nat_alt)
    with True i show ?thesis
      unfolding memmove_def by (simp del: of_nat_unat) (rule copy_up_copied [OF _ unat_le], auto)
  next
    case False
    have "d + of_nat j \<noteq> s + of_nat l" if "l < j" "j < unat n" for j l
      using fits_unat [of d "unat n" j] fits_unat [of s "unat n" l] f False that
      by (auto simp: in_memory_def word_less_nat_alt)
    then have "copy_down (unat n) (d + of_nat (unat n) - 1) (s + of_nat (unat n) - 1) m (d + of_nat i) = m (s + of_nat i)"
      by (rule copy_down_copied) (use i unat_le [of n] in auto)
    with False show ?thesis unfolding memmove_def down by (simp only: if_False)
  qed
  show "memmove d s n m a = m a" if "a \<notin> span d (unat n)"
    using that copy_up_outside copy_down_outside [of a d "unat n"] unfolding memmove_def down by simp
qed

section \<open>Strings\<close>

lemma cstring_simps [simp]:
  "cstring m p [] \<longleftrightarrow> m p = 0"
  "cstring m p (x # xs) \<longleftrightarrow> x \<noteq> 0 \<and> m p = x \<and> cstring m (p + 1) xs"
  by (auto simp: cstring_def)

lemma cstring_cong:
  "(\<And>a. a \<in> span p (Suc (length xs)) \<Longrightarrow> m a = m' a) \<Longrightarrow> cstring m p xs = cstring m' p xs"
  using bytes_at_cong [of p "Suc (length xs)" m m'] by (simp add: cstring_def del: bytes_at.simps)

lemma strlen_from_string: "cstring m (s + len) xs \<Longrightarrow> strlen_from m s len = Some (len + of_nat (length xs))"
proof (induction xs arbitrary: len)
  case (Cons x xs)
  then show ?case by (subst strlen_from.simps) (simp add: algebra_simps)
qed (simp add: strlen_from.simps)

lemma strlen_string: "cstring m s xs \<Longrightarrow> s \<noteq> 0 \<Longrightarrow> strlen m s = Some (of_nat (length xs))"
  using strlen_from_string [of m s 0 xs] by (simp add: strlen_def)

lemma strcpy_loop_string:
  "cstring m src xs \<Longrightarrow> span tmp (Suc (length xs)) \<inter> span src (Suc (length xs)) = {} \<Longrightarrow>
   strcpy_loop tmp src m = Some (copy_up (Suc (length xs)) tmp src m)"
proof (induction xs arbitrary: tmp src m)
  case Nil
  then show ?case by (subst strcpy_loop.simps) simp
next
  case (Cons x xs)
  have "tmp \<notin> span (src + 1) (Suc (length xs))" using Cons.prems(2) by (auto simp: span_Suc)
  then have "cstring (m(tmp := m src)) (src + 1) xs"
    using Cons.prems(1) cstring_cong [of "src + 1" xs m "m(tmp := m src)"] by fastforce
  moreover have "span (tmp + 1) (Suc (length xs)) \<inter> span (src + 1) (Suc (length xs)) = {}"
    using Cons.prems(2) by (auto simp: span_Suc)
  ultimately have "strcpy_loop (tmp + 1) (src + 1) (m(tmp := m src)) =
      Some (copy_up (Suc (length xs)) (tmp + 1) (src + 1) (m(tmp := m src)))" by (rule Cons.IH)
  moreover have "m src \<noteq> 0" using Cons.prems(1) by auto
  ultimately show ?case
    by (subst strcpy_loop.simps) (simp only: if_False copy_up.simps(2) [of "Suc (length xs)"] list.size(4) add_Suc_right add_0_right)
qed

text \<open>On separate objects \<open>strcpy\<close> is a block copy of the string with its NUL.\<close>

lemma strcpy_is_memcpy:
  assumes "cstring m src xs" and "disjoint_blocks dst src (Suc (length xs))" and "fits src (Suc (length xs))"
    and "dst \<noteq> 0" and "src \<noteq> 0"
  shows "strcpy dst src m = Some (Inr (memcpy dst src (of_nat (Suc (length xs))) m))"
proof -
  have "unat src \<noteq> 0" using assms(5) by (simp add: unat_eq_0)
  then have "Suc (length xs) < 2 ^ 32" using assms(3) by (simp add: fits_def)
  then have "unat (of_nat (Suc (length xs)) :: u32) = Suc (length xs)" by (rule unat_of_nat_u32)
  then show ?thesis
    using strcpy_loop_string [of m src xs dst] assms
    by (simp add: strcpy_def memcpy_def disjoint_blocks_def del: copy_up.simps of_nat_Suc)
qed

fun byte_compare :: "u8 list \<Rightarrow> u8 list \<Rightarrow> int" where
  "byte_compare [] [] = 0"
| "byte_compare [] (y # ys) = - uint y"
| "byte_compare (x # xs) [] = uint x"
| "byte_compare (x # xs) (y # ys) = (if x = y then byte_compare xs ys else char_diff x y)"

lemma strcmp_strings: "cstring m p xs \<Longrightarrow> cstring m q ys \<Longrightarrow> strcmp m p q = Some (byte_compare xs ys)"
proof (induction xs ys arbitrary: p q rule: byte_compare.induct)
  case (4 x xs y ys)
  then show ?case by (subst strcmp.simps) auto
qed (subst strcmp.simps, auto simp: char_diff_def)+

lemma byte_compare_sign:
  "0 \<notin> set xs \<Longrightarrow> 0 \<notin> set ys \<Longrightarrow> (byte_compare xs ys = 0 \<longleftrightarrow> xs = ys) \<and>
   (byte_compare xs ys < 0 \<longleftrightarrow> (xs, ys) \<in> lexord {(x, y). x < y})"
proof (induction xs ys rule: byte_compare.induct)
  case (2 y ys)
  then have "0 < uint y" using word_gt_0 [of y] by (simp add: word_less_def)
  then show ?case by simp
next
  case (3 x xs)
  then have "0 < uint x" using word_gt_0 [of x] by (simp add: word_less_def)
  then show ?case by simp
next
  case (4 x xs y ys)
  then show ?case by (auto simp: char_diff_def word_less_def dest: word_uint_eq_iff [THEN iffD2])
qed simp

text \<open>C32: \<open>memmove\<close> copies correctly whatever the overlap: afterwards the destination holds
  the bytes that were at the source, and no other byte has changed.\<close>

theorem memmove_any_overlap:
  assumes "fits d (unat n)" and "fits s (unat n)"
  shows "bytes_at (memmove d s n m) d (unat n) = bytes_at m s (unat n) \<and>
    (\<forall>a. a \<notin> span d (unat n) \<longrightarrow> memmove d s n m a = m a)"
  using memmove.copied_bytes [of d s n m] memmove.outside [of d s n] assms by (simp add: in_memory_def)

lemma memmove_any_overlap_witness:
  "bytes_at (memmove 0x80000002 0x80000000 4 (\<lambda>a. ucast a)) 0x80000002 4 = [0, 1, 2, 3]"
proof -
  have four: "(4 :: nat) = Suc (Suc (Suc (Suc 0)))" by simp
  have n: "unat (4 :: u32) = Suc (Suc (Suc (Suc 0)))" by simp
  have "fits 0x80000002 (unat (4 :: u32))" "fits 0x80000000 (unat (4 :: u32))" by (simp_all add: fits_def)
  from memmove_any_overlap [OF this, of "\<lambda>a. ucast a"] show ?thesis
    unfolding n four by simp
qed

text \<open>C33: On NUL-terminated strings, \<open>strlen\<close> returns their length, \<open>strcmp\<close> orders them as
  sequences of unsigned bytes (0 exactly for equal strings), and \<open>strcpy\<close> into a separate
  object makes an equal string and leaves the rest of memory alone. None of the loops runs
  for ever.\<close>

theorem string_functions:
  assumes "cstring m p xs" and "cstring m q ys" and "p \<noteq> 0" and "d \<noteq> 0"
    and "fits p (Suc (length xs))" and "disjoint_blocks d p (Suc (length xs))"
  shows "strlen m p = Some (of_nat (length xs)) \<and>
    (\<exists>r. strcmp m p q = Some r \<and> (r = 0 \<longleftrightarrow> xs = ys) \<and> (r < 0 \<longleftrightarrow> (xs, ys) \<in> lexord {(x, y). x < y})) \<and>
    (\<exists>m'. strcpy d p m = Some (Inr m') \<and> cstring m' d xs \<and>
      (\<forall>a. a \<notin> span d (Suc (length xs)) \<longrightarrow> m' a = m a))"
proof (intro conjI)
  show "strlen m p = Some (of_nat (length xs))" by (rule strlen_string [OF assms(1,3)])
  show "\<exists>r. strcmp m p q = Some r \<and> (r = 0 \<longleftrightarrow> xs = ys) \<and> (r < 0 \<longleftrightarrow> (xs, ys) \<in> lexord {(x, y). x < y})"
    using strcmp_strings [OF assms(1,2)] byte_compare_sign [of xs ys] assms(1,2) by (simp add: cstring_def)
  let ?n = "of_nat (Suc (length xs)) :: u32"
  have "unat p \<noteq> 0" using assms(3) by (simp add: unat_eq_0)
  then have "Suc (length xs) < 2 ^ 32" using assms(5) by (simp add: fits_def)
  then have n: "unat ?n = Suc (length xs)" by (rule unat_of_nat_u32)
  have "disjoint_blocks d p (unat ?n)" using assms(6) unfolding n .
  from memcpy.copied_string [OF this assms(1) n] memcpy.outside [OF this, of _ m]
  show "\<exists>m'. strcpy d p m = Some (Inr m') \<and> cstring m' d xs \<and>
      (\<forall>a. a \<notin> span d (Suc (length xs)) \<longrightarrow> m' a = m a)"
    using strcpy_is_memcpy [OF assms(1,6,5,4,3)] unfolding n by blast
qed

lemma string_functions_witness:
  "\<exists>r m'. strcmp ((\<lambda>_. 0)(100 := 104, 101 := 105, 200 := 104, 201 := 111)) 100 200 = Some r \<and> r < 0 \<and>
     strcpy 300 100 ((\<lambda>_. 0)(100 := 104, 101 := 105, 200 := 104, 201 := 111)) = Some (Inr m') \<and>
     cstring m' 300 [104, 105]"
proof -
  let ?m = "((\<lambda>_. 0)(100 := 104, 101 := 105, 200 := 104, 201 := 111)) :: mem"
  have "cstring ?m 100 [104, 105]" "cstring ?m 200 [104, 111]" by simp_all
  moreover have "fits 100 (Suc (length [104, 105 :: u8]))" by (simp add: fits_def)
  moreover have "disjoint_blocks 300 100 (Suc (length [104, 105 :: u8]))"
    by (simp add: disjoint_blocks_def span_Suc)
  moreover have "([104, 105], [104, 111 :: u8]) \<in> lexord {(x, y). x < y}" by simp
  ultimately show ?thesis
    using string_functions [of ?m 100 "[104, 105]" 200 "[104, 111]" 300] by auto
qed

end
