(* ===== verification/Klib_Stdlib.thy ===== *)
theory Klib_Stdlib
  imports Klib_String
begin

text \<open>
  The rest of the bare-metal C library: pseudo-random numbers, number parsing and the
  allocator of \<open>klib/src/stdlib.c\<close>, and formatted output, \<open>klib/src/stdio.c\<close>. \<open>int\<close> and
  \<open>unsigned long\<close> have 32 bits (rv32).
\<close>

section \<open>stdlib.c\<close>

record klib_state =
  rand_next :: u32
  malloc_addr :: u32
  heap_start :: u32

definition klib0 :: "u32 \<Rightarrow> klib_state" where
  "klib0 start = \<lparr>rand_next = 1, malloc_addr = 0, heap_start = start\<rparr>"

definition rand :: "klib_state \<Rightarrow> u32 \<times> klib_state" where
  "rand k =
     (let n = rand_next k * 1103515245 + 12345
      in ((n div 65536) mod 32768, k\<lparr>rand_next := n\<rparr>))"

definition srand :: "u32 \<Rightarrow> klib_state \<Rightarrow> klib_state" where
  "srand seed k = k\<lparr>rand_next := seed\<rparr>"

definition c_int32 :: "int \<Rightarrow> int result" where
  "c_int32 v = (if - (2 ^ 31) \<le> v \<and> v < 2 ^ 31 then Inr v else Inl (Undefined ''signed overflow''))"

definition abs_int :: "int \<Rightarrow> int result" where
  "abs_int x = (if x < 0 then c_int32 (- x) else Inr x)"

partial_function (option) atoi_spaces :: "mem \<Rightarrow> u32 \<Rightarrow> u32 option" where
  "atoi_spaces m p = (if m p = 32 then atoi_spaces m (p + 1) else Some p)"

partial_function (option) atoi_digits :: "mem \<Rightarrow> u32 \<Rightarrow> int \<Rightarrow> int result option" where
  "atoi_digits m p x =
     (if 48 \<le> m p \<and> m p \<le> 57 then
        case bindR (c_int32 (x * 10)) (\<lambda>y. bindR (c_int32 (y + uint (m p))) (\<lambda>z. c_int32 (z - 48))) of
          Inl e \<Rightarrow> Some (Inl e)
        | Inr x' \<Rightarrow> atoi_digits m (p + 1) x'
      else Some (Inr x))"

definition atoi :: "mem \<Rightarrow> u32 \<Rightarrow> int result option" where
  "atoi m nptr = Option.bind (atoi_spaces m nptr) (\<lambda>p. atoi_digits m p 0)"

definition malloc :: "u32 \<Rightarrow> klib_state \<Rightarrow> u32 \<times> klib_state" where
  "malloc n k =
     (let addr = (if malloc_addr k = 0 then heap_start k else malloc_addr k);
          n = (n + 0xff - 1) AND NOT 0xff
      in (addr, k\<lparr>malloc_addr := addr + n\<rparr>))"

section \<open>stdio.c\<close>

definition NUM_CHAR :: "u8 list" where
  "NUM_CHAR = [48, 49, 50, 51, 52, 53, 54, 55, 56, 57, 65, 66, 67, 68, 69, 70]"

text \<open>\<open>buf\<close> after the loop that divides a number by its base, first digit written first.\<close>

function digits_low :: "nat \<Rightarrow> nat \<Rightarrow> u8 list" where
  "digits_low base v = (if v = 0 \<or> base < 2 then [] else (NUM_CHAR ! (v mod base)) # digits_low base (v div base))"
  by pat_completeness auto

termination by (relation "measure snd") auto

declare digits_low.simps [simp del]

text \<open>\<open>out[len++] = c\<close> for the characters of a list.\<close>

fun put_chars :: "u32 \<Rightarrow> u8 list \<Rightarrow> u32 \<times> mem \<Rightarrow> u32 \<times> mem" where
  "put_chars out [] (len, m) = (len, m)"
| "put_chars out (c # cs) (len, m) = put_chars out cs (len + 1, m(out + len := c))"

partial_function (option) put_string :: "u32 \<Rightarrow> u32 \<Rightarrow> u32 \<times> mem \<Rightarrow> (u32 \<times> mem) option" where
  "put_string out s st =
     (case st of (len, m) \<Rightarrow>
        if m s = 0 then Some (len, m) else put_string out (s + 1) (len + 1, m(out + len := m s)))"

definition number_chars :: "nat \<Rightarrow> u32 \<Rightarrow> u8 list" where
  "number_chars base v = rev (digits_low base (unat v))"

text \<open>
  A conversion: the character after \<open>%\<close>, the remaining arguments (each in a word of its
  own), and the output so far. Other characters print nothing and take no argument.
\<close>

definition va_arg :: "u32 list \<Rightarrow> (u32 \<times> u32 list) result" where
  "va_arg ap = (case ap of [] \<Rightarrow> Inl (Undefined ''va_arg'') | v # vs \<Rightarrow> Inr (v, vs))"

definition conversion ::
    "u32 \<Rightarrow> u8 \<Rightarrow> u32 list \<Rightarrow> u32 \<times> mem \<Rightarrow> ((u32 list \<times> u32 \<times> mem) result) option" where
  "conversion out c ap st =
     (if c \<notin> {100, 117, 99, 115, 112} then Some (Inr (ap, st))
      else case va_arg ap of
        Inl e \<Rightarrow> Some (Inl e)
      | Inr (v, ap) \<Rightarrow>
          if c = 100 then
            if v = 0 then Some (Inr (ap, put_chars out [48] st))
            else if v = 0x80000000 then Some (Inl (Undefined ''signed overflow''))
            else if sint v < 0 then Some (Inr (ap, put_chars out (45 # number_chars 10 (- v)) st))
            else Some (Inr (ap, put_chars out (number_chars 10 v) st))
          else if c = 117 then
            Some (Inr (ap, put_chars out (if v = 0 then [48] else number_chars 10 v) st))
          else if c = 99 then Some (Inr (ap, put_chars out [ucast v] st))
          else if c = 115 then map_option (\<lambda>st. Inr (ap, st)) (put_string out v st)
          else Some (Inr (ap, put_chars out ([48, 120] @ number_chars 16 v) st)))"

partial_function (option) vsnprintf_loop ::
    "u32 \<Rightarrow> u32 \<Rightarrow> u32 \<Rightarrow> u32 list \<Rightarrow> u32 \<times> mem \<Rightarrow> (u32 \<times> mem) result option" where
  "vsnprintf_loop out n fmt ap st =
     (if snd st fmt \<noteq> 0 \<and> fst st < n then
        if snd st fmt = 37 then
          case conversion out (snd st (fmt + 1)) ap st of
            None \<Rightarrow> None
          | Some (Inl e) \<Rightarrow> Some (Inl e)
          | Some (Inr (ap', st')) \<Rightarrow> vsnprintf_loop out n (fmt + 2) ap' st'
        else vsnprintf_loop out n (fmt + 1) ap (put_chars out [snd st fmt] st)
      else Some (Inr st))"

definition vsnprintf :: "u32 \<Rightarrow> u32 \<Rightarrow> u32 \<Rightarrow> u32 list \<Rightarrow> mem \<Rightarrow> (u32 \<times> mem) result option" where
  "vsnprintf out n fmt ap m =
     map_option (\<lambda>r. bindR r (\<lambda>(len, m). Inr (len, m(out + len := 0)))) (vsnprintf_loop out n fmt ap (0, m))"

definition vsprintf :: "u32 \<Rightarrow> u32 \<Rightarrow> u32 list \<Rightarrow> mem \<Rightarrow> (u32 \<times> mem) result option" where
  "vsprintf out fmt ap m = vsnprintf out (- 1) fmt ap m"

definition sprintf :: "u32 \<Rightarrow> u32 \<Rightarrow> u32 list \<Rightarrow> mem \<Rightarrow> (u32 \<times> mem) result option" where
  "sprintf out fmt ap m = vsprintf out fmt ap m"

definition snprintf :: "u32 \<Rightarrow> u32 \<Rightarrow> u32 \<Rightarrow> u32 list \<Rightarrow> mem \<Rightarrow> (u32 \<times> mem) result option" where
  "snprintf out n fmt ap m = Some (Inl (Panicked ''Not implemented''))"

text \<open>
  \<open>printf\<close> formats into a local buffer of 1024 characters, at an address the caller chooses
  here, and prints it up to its NUL; a longer output overruns the buffer.
\<close>

partial_function (option) chars_from :: "mem \<Rightarrow> u32 \<Rightarrow> u8 list \<Rightarrow> u8 list option" where
  "chars_from m p acc = (if m p = 0 then Some (rev acc) else chars_from m (p + 1) (m p # acc))"

definition printf :: "u32 \<Rightarrow> u32 \<Rightarrow> u32 list \<Rightarrow> mem \<Rightarrow> (u32 \<times> u8 list) result option" where
  "printf buffer fmt ap m =
     Option.bind (vsprintf buffer fmt ap m) (\<lambda>r.
       case r of
         Inl e \<Rightarrow> Some (Inl e)
       | Inr (len, m) \<Rightarrow>
           if 1024 \<le> len then Some (Inl (Undefined ''printf buffer''))
           else map_option (\<lambda>cs. Inr (len, cs)) (chars_from m buffer []))"

section \<open>Characters written\<close>

fun write_chars :: "u32 \<Rightarrow> u8 list \<Rightarrow> mem \<Rightarrow> mem" where
  "write_chars p [] m = m"
| "write_chars p (c # cs) m = write_chars (p + 1) cs (m(p := c))"

lemma put_chars_write:
  "put_chars out cs (len, m) = (len + of_nat (length cs), write_chars (out + len) cs m)"
  by (induction cs arbitrary: len m) (simp_all add: algebra_simps)

lemma write_chars_outside: "a \<notin> span p (length cs) \<Longrightarrow> write_chars p cs m a = m a"
  by (induction cs arbitrary: p m) (auto simp: span_Suc)

lemma span_later: "n < 2 ^ 32 \<Longrightarrow> p \<notin> span (p + 1) n"
proof
  assume n: "n < 2 ^ 32" and "p \<in> span (p + 1) n"
  then obtain j where j: "j < n" "p + of_nat 0 = p + of_nat (Suc j)" by (auto simp: span_def algebra_simps)
  then have "(of_nat 0 :: u32) = of_nat (Suc j)" by (simp only: add_left_cancel)
  with j(1) n show False by (subst (asm) of_nat_u32_inj) auto
qed

lemma write_chars_string:
  "0 \<notin> set cs \<Longrightarrow> length cs < 2 ^ 32 \<Longrightarrow> cstring ((write_chars p cs m)(p + of_nat (length cs) := 0)) p cs"
proof (induction cs arbitrary: p m)
  case (Cons c cs)
  have ne: "p \<noteq> p + of_nat (length (c # cs))"
    using of_nat_u32_inj [of "length (c # cs)" 0] Cons.prems(2) by simp
  have "p \<notin> span (p + 1) (length cs)" by (rule span_later) (use Cons.prems(2) in simp)
  then have "write_chars (p + 1) cs (m(p := c)) p = c" by (simp add: write_chars_outside)
  moreover have "cstring ((write_chars (p + 1) cs (m(p := c)))(p + of_nat (length (c # cs)) := 0)) (p + 1) cs"
    using Cons.IH [of "p + 1" "m(p := c)"] Cons.prems by (simp add: algebra_simps del: fun_upd_apply)
  ultimately show ?case
    using ne Cons.prems(1) by (simp only: write_chars.simps cstring_simps fun_upd_other) auto
qed simp

section \<open>Decimal numbers\<close>

definition is_digit :: "u8 \<Rightarrow> bool" where
  "is_digit c \<longleftrightarrow> 48 \<le> c \<and> c \<le> 57"

definition decimal :: "u8 list \<Rightarrow> nat" where
  "decimal cs = fold (\<lambda>c x. x * 10 + (unat c - 48)) cs 0"

lemma decimal_snoc: "decimal (cs @ [c]) = decimal cs * 10 + (unat c - 48)"
  by (simp add: decimal_def)

lemma num_char_digit: "d < 10 \<Longrightarrow> is_digit (NUM_CHAR ! d) \<and> unat (NUM_CHAR ! d) = 48 + d"
proof -
  assume "d < 10"
  then have "d = 0 \<or> d = 1 \<or> d = 2 \<or> d = 3 \<or> d = 4 \<or> d = 5 \<or> d = 6 \<or> d = 7 \<or> d = 8 \<or> d = 9" by arith
  then show ?thesis by (elim disjE) (simp_all add: NUM_CHAR_def is_digit_def)
qed

lemma decimal_digits: "decimal (rev (digits_low 10 v)) = v \<and> (\<forall>c \<in> set (digits_low 10 v). is_digit c)"
proof (induction v rule: less_induct)
  case (less v)
  show ?case
  proof (cases "v = 0")
    case False
    have "digits_low 10 v = (NUM_CHAR ! (v mod 10)) # digits_low 10 (v div 10)"
      using False by (subst digits_low.simps) simp
    moreover have "v mod 10 < 10" by simp
    ultimately show ?thesis
      using less [of "v div 10"] False num_char_digit [of "v mod 10"] by (simp add: decimal_snoc)
  qed (simp add: digits_low.simps decimal_def)
qed

lemma length_digits: "v < 10 ^ n \<Longrightarrow> length (digits_low 10 v) \<le> n"
proof (induction n arbitrary: v)
  case (Suc n)
  then have "v div 10 < 10 ^ n" by simp
  with Suc.IH have "length (digits_low 10 (v div 10)) \<le> n" by blast
  then show ?case by (subst digits_low.simps) simp
qed (simp add: digits_low.simps)

lemma digits_nonempty: "v \<noteq> 0 \<Longrightarrow> digits_low 10 v \<noteq> []"
  by (subst digits_low.simps) simp

lemma atoi_digits_decimal:
  "\<forall>c \<in> set cs. is_digit c \<Longrightarrow> bytes_at m p (length cs) = cs \<Longrightarrow> m (p + of_nat (length cs)) = 0 \<Longrightarrow>
   fold (\<lambda>c x. x * 10 + (unat c - 48)) cs x < 2 ^ 31 - 48 \<Longrightarrow>
   atoi_digits m p (int x) = Some (Inr (int (fold (\<lambda>c x. x * 10 + (unat c - 48)) cs x)))"
proof (induction cs arbitrary: p x)
  case Nil
  then show ?case by (subst atoi_digits.simps) simp
next
  case (Cons c cs)
  let ?x = "x * 10 + (unat c - 48)"
  have mono: "y \<le> fold (\<lambda>c x. x * 10 + (unat c - 48)) ds y" for y and ds :: "u8 list"
  proof (induction ds arbitrary: y)
    case (Cons d ds)
    show ?case using Cons [of "y * 10 + (unat d - 48)"] by simp
  qed simp
  have "48 \<le> unat c" "m p = c"
    using Cons.prems(1,2) by (auto simp: is_digit_def word_le_nat_alt)
  then obtain d where c: "unat c = 48 + d" "m p = c" using le_Suc_ex by blast
  have u: "uint (m p) = int (48 + d)" unfolding c(1) [symmetric] using c(2) by simp
  have "?x < 2 ^ 31 - 48" using mono [of ?x cs] Cons.prems(4) by simp
  then have "bindR (c_int32 (int x * 10)) (\<lambda>y. bindR (c_int32 (y + uint (m p))) (\<lambda>z. c_int32 (z - 48))) = Inr (int ?x)"
    unfolding u c(1) by (simp add: c_int32_def)
  moreover have "atoi_digits m (p + 1) (int ?x) = Some (Inr (int (fold (\<lambda>c x. x * 10 + (unat c - 48)) cs ?x)))"
    by (rule Cons.IH) (use Cons.prems in \<open>auto simp: algebra_simps\<close>)
  ultimately show ?case
    using Cons.prems(1) c(2) by (subst atoi_digits.simps) (simp add: is_digit_def)
qed

definition decimal_text :: "u32 \<Rightarrow> u8 list" where
  "decimal_text v =
     (if v = 0 then [48] else if sint v < 0 then 45 # number_chars 10 (- v) else number_chars 10 v)"

lemma number_chars_ok: "(\<forall>c \<in> set (number_chars 10 v). is_digit c) \<and> length (number_chars 10 v) \<le> 10"
proof -
  have "unat v < 2 ^ LENGTH(32)" by (rule unsigned_less)
  then have "unat v < 10 ^ 10" by simp
  then show ?thesis using decimal_digits [of "unat v"] length_digits by (auto simp: number_chars_def)
qed

lemma decimal_text_ok: "0 \<notin> set (decimal_text v) \<and> length (decimal_text v) \<le> 11"
proof -
  have "\<not> is_digit 0" by (simp add: is_digit_def)
  with number_chars_ok [of v] number_chars_ok [of "- v"] show ?thesis
    by (auto simp: decimal_text_def)
qed

lemma conversion_d:
  assumes "- (2 ^ 31) < sint v"
  shows "conversion out 100 [v] st = Some (Inr ([], put_chars out (decimal_text v) st))"
proof -
  have "v \<noteq> 0x80000000" using assms by auto
  then show ?thesis by (simp add: conversion_def va_arg_def decimal_text_def)
qed

lemma sprintf_d:
  assumes "cstring m fmt [37, 100]" and "span out 12 \<inter> span fmt 3 = {}" and "- (2 ^ 31) < sint v"
  defines "m' \<equiv> (write_chars out (decimal_text v) m)(out + of_nat (length (decimal_text v)) := 0)"
  shows "sprintf out fmt [v] m = Some (Inr (of_nat (length (decimal_text v)), m'))"
proof -
  let ?cs = "decimal_text v"
  have fmt: "m fmt = 37" "m (fmt + 1) = 100" "m (fmt + 2) = 0" using assms(1) by (simp_all add: algebra_simps)
  have "fmt + of_nat 2 \<in> span fmt 3" unfolding span_def by (rule imageI) simp
  then have "fmt + 2 \<notin> span out 12" using assms(2) by auto
  moreover have "span out (length ?cs) \<subseteq> span out 12"
    using decimal_text_ok [of v] by (auto simp: span_def)
  ultimately have "write_chars out ?cs m (fmt + 2) = 0" using fmt(3) write_chars_outside by fastforce
  then have "vsnprintf_loop out (- 1) (fmt + 2) [] (put_chars out ?cs (0, m)) = Some (Inr (put_chars out ?cs (0, m)))"
    by (subst vsnprintf_loop.simps) (simp add: put_chars_write)
  moreover have "(0 :: u32) < - 1" by (simp add: word_gt_0)
  ultimately have "vsnprintf_loop out (- 1) fmt [v] (0, m) = Some (Inr (put_chars out ?cs (0, m)))"
    using fmt conversion_d [OF assms(3), of out "(0, m)"] by (subst vsnprintf_loop.simps) simp
  then show ?thesis by (simp add: sprintf_def vsprintf_def vsnprintf_def put_chars_write m'_def)
qed

lemma string_bytes: "cstring m p xs \<Longrightarrow> bytes_at m p (length xs) = xs \<and> m (p + of_nat (length xs)) = 0"
  by (induction xs arbitrary: p) (auto simp: add.assoc [symmetric])

lemma atoi_decimal:
  assumes "cstring m p (decimal_text v)" and "sint v < 2 ^ 31 - 48"
  shows "atoi m p = Some (Inr (if sint v < 0 then 0 else sint v))"
proof -
  have first: "m p \<noteq> 32 \<Longrightarrow> atoi m p = atoi_digits m p 0"
    by (simp add: atoi_def atoi_spaces.simps)
  show ?thesis
  proof (cases "sint v < 0")
    case True
    then have "decimal_text v = 45 # number_chars 10 (- v)" by (auto simp: decimal_text_def)
    then have "m p = 45" using assms(1) by simp
    with True first show ?thesis by (simp add: atoi_digits.simps)
  next
    case False
    let ?cs = "decimal_text v"
    have dig: "\<forall>c \<in> set ?cs. is_digit c" using False number_chars_ok [of v] by (auto simp: decimal_text_def is_digit_def)
    have val: "decimal ?cs = unat v"
      using False decimal_digits [of "unat v"] by (auto simp: decimal_text_def number_chars_def decimal_def)
    have ne: "?cs \<noteq> []" using False digits_nonempty [of "unat v"] by (auto simp: decimal_text_def number_chars_def unat_eq_0)
    have v: "int (unat v) = sint v"
      using False assms(2) uint_sint [of v] by (simp add: take_bit_int_eq_self)
    have "int (unat v) < int (2 ^ 31 - 48)" unfolding v using assms(2) by simp
    then have "unat v < 2 ^ 31 - 48" by (simp only: of_nat_less_iff)
    moreover have b: "bytes_at m p (length ?cs) = ?cs" and z: "m (p + of_nat (length ?cs)) = 0"
      using string_bytes [OF assms(1)] by simp_all
    have "atoi_digits m p (int 0) = Some (Inr (int (decimal ?cs)))"
      unfolding decimal_def by (rule atoi_digits_decimal [OF dig b z]) (use val calculation(1) in \<open>simp add: decimal_def\<close>)
    moreover have "m p \<noteq> 32"
      using ne dig b by (cases ?cs) (auto simp: is_digit_def)
    ultimately show ?thesis using first val v False by simp
  qed
qed



section \<open>The allocator\<close>

lemma round_256: "(x :: u32) AND NOT 0xff = of_nat (unat x div 256 * 256)"
proof -
  have ff: "(0xff :: u32) = mask 8" by (simp add: mask_eq_exp_minus_1)
  have "x AND NOT (mask 8) = push_bit 8 (drop_bit 8 x)"
    by (rule bit_word_eqI) (auto simp: bit_and_iff bit_not_iff bit_mask_iff bit_push_bit_iff bit_drop_bit_eq)
  also have "unat (drop_bit 8 x) = unat x div 256" by (simp add: drop_bit_eq_div unat_div)
  then have "drop_bit 8 x = of_nat (unat x div 256)" by (metis of_nat_unat ucast_id)
  then have "push_bit 8 (drop_bit 8 x) = of_nat (unat x div 256 * 256)" by (simp add: push_bit_eq_mult)
  finally show ?thesis by (simp only: ff)
qed



end
