(* ===== verification/Am_Bus.thy ===== *)
theory Am_Bus
  imports Device_Properties Guest_Memory
begin

text \<open>
  The machine as a program on the bare-metal runtime sees it: the port accessors of
  \<open>abstract-machine/am/src/riscv/riscv.h\<close>, executed by the emulator's loads and stores.
  A word of memory or of the frame buffer satisfies the contract \<open>word_store\<close>, in which
  the copy and fill loops of the runtime are verified once.
\<close>

section \<open>riscv.h\<close>

definition inb :: "config \<Rightarrow> u32 \<Rightarrow> system \<Rightarrow> (u8 \<times> system) result" where
  "inb cfg addr s = bindR (vaddr_read cfg addr 1 s) (\<lambda>(v, t). Inr (ucast v, t))"

definition inl :: "config \<Rightarrow> u32 \<Rightarrow> system \<Rightarrow> (u32 \<times> system) result" where
  "inl cfg addr s = vaddr_read cfg addr 4 s"

definition outb :: "config \<Rightarrow> u32 \<Rightarrow> u8 \<Rightarrow> system \<Rightarrow> system result" where
  "outb cfg addr data s = vaddr_write cfg addr 1 (ucast data) s"

definition outl :: "config \<Rightarrow> u32 \<Rightarrow> u32 \<Rightarrow> system \<Rightarrow> system result" where
  "outl cfg addr data s = vaddr_write cfg addr 4 data s"

section \<open>Device registers\<close>

text \<open>
  The emulator has mapped a register block of \<open>n\<close> bytes at guest address \<open>lo\<close>, kept at
  offset \<open>sp\<close> of \<open>io_space\<close> and served by the handler \<open>c\<close>.
\<close>

definition dev_region ::
    "config \<Rightarrow> system \<Rightarrow> u32 \<Rightarrow> nat \<Rightarrow> nat \<Rightarrow> io_callback option \<Rightarrow> bool" where
  "dev_region cfg s lo n sp c \<longleftrightarrow>
     CONFIG_DEVICE cfg \<and> maps_ok (mmio_maps s) \<and>
     (\<exists>m \<in> set (mmio_maps s). map_low m = lo \<and> map_high m = lo + of_nat (n - 1) \<and>
        map_space m = sp \<and> map_callback m = c) \<and>
     0 < n \<and> sp + n \<le> IO_SPACE_MAX \<and> unat lo + n \<le> 2 ^ 32 \<and>
     (\<forall>a. lo \<le> a \<longrightarrow> unat a < unat lo + n \<longrightarrow> \<not> readable_memory cfg a \<and> \<not> writable_memory cfg a)"

lemma dev_region_frame: "mmio_maps t = mmio_maps s \<Longrightarrow> dev_region cfg t = dev_region cfg s"
  by (simp add: dev_region_def fun_eq_iff)

lemma dev_region_addr:
  assumes "dev_region cfg s lo n sp c" and "k < n"
  shows "unat (lo + of_nat k) = unat lo + k" "unat (lo + of_nat k - lo) = k"
    "lo \<le> lo + of_nat k" "lo + of_nat k \<le> lo + of_nat (n - 1)"
proof -
  have *: "unat (lo + of_nat j) = unat lo + j" if "j < n" for j
  proof -
    have "unat (of_nat j :: u32) = j"
      using assms(1) that by (intro unat_of_nat_u32) (auto simp: dev_region_def)
    then show ?thesis
      using assms(1) that by (subst unat_add_lem [THEN iffD1]) (auto simp: dev_region_def)
  qed
  show "unat (lo + of_nat k) = unat lo + k" using * assms(2) by simp
  show "unat (lo + of_nat k - lo) = k"
    using assms by (simp add: dev_region_def unat_of_nat_u32)
  show "lo \<le> lo + of_nat k" "lo + of_nat k \<le> lo + of_nat (n - 1)"
    using * [of k] * [of "n - 1"] assms(2) by (simp_all add: word_le_nat_alt)
qed

lemma dev_region_off_memory:
  assumes "dev_region cfg s lo n sp c" and "k < n"
  shows "\<not> readable_memory cfg (lo + of_nat k)" "\<not> writable_memory cfg (lo + of_nat k)"
  using assms(1) dev_region_addr [OF assms] assms(2) by (auto simp: dev_region_def)

lemma dev_region_fetch:
  assumes "dev_region cfg s lo n sp c" and "k < n"
  shows "\<exists>m. fetch_mmio_map cfg (lo + of_nat k) s = (Some m, difftest_skip_ref cfg s) \<and>
    map_low m = lo \<and> map_high m = lo + of_nat (n - 1) \<and> map_space m = sp \<and> map_callback m = c"
proof -
  obtain m i where m: "m = mmio_maps s ! i" "i < length (mmio_maps s)" "map_low m = lo"
    "map_high m = lo + of_nat (n - 1)" "map_space m = sp" "map_callback m = c"
    and ok: "maps_ok (mmio_maps s)"
    using assms(1) by (auto simp: dev_region_def in_set_conv_nth)
  then have "map_inside (mmio_maps s ! i) (lo + of_nat k)"
    using dev_region_addr [OF assms] by (simp add: map_inside_def)
  from find_mapid_from_unique [OF ok m(2) this] m show ?thesis
    by (simp add: fetch_mmio_map_def find_mapid_by_addr_def)
qed

lemma dev_read:
  assumes r: "dev_region cfg s lo n sp c" and k: "k + nat len \<le> n" and len: "len \<in> {1, 2, 4}"
  shows "vaddr_read cfg (lo + of_nat k) len s =
    bindR (invoke_callback (io_handler cfg) c (of_nat k) len False (difftest_skip_ref cfg s))
      (\<lambda>t. Inr (load_le (hget (harr t)) (hrange (A_io, sp + k) (nat len)), t))"
proof -
  have kn: "k < n" using k len by auto
  obtain m where m: "fetch_mmio_map cfg (lo + of_nat k) s = (Some m, difftest_skip_ref cfg s)"
    "map_low m = lo" "map_high m = lo + of_nat (n - 1)" "map_space m = sp" "map_callback m = c"
    using dev_region_fetch [OF r kn] by blast
  have b: "hin_bounds cfg (A_io, sp + k) (nat len)" and d: "CONFIG_DEVICE cfg"
    using r k by (auto simp: dev_region_def)
  have "1 \<le> len \<and> len \<le> 8" using len by auto
  with dev_region_off_memory [OF r kn] dev_region_addr [OF r kn] b len show ?thesis
    by (auto simp: vaddr_read_def paddr_read_def d mmio_read_def m map_read_def check_bound_def
        Let_def host_read_def host_load_def intro!: bindR_cong)
qed

lemma dev_write:
  assumes r: "dev_region cfg s lo n sp c" and k: "k + nat len \<le> n" and len: "len \<in> {1, 2, 4}"
  shows "vaddr_write cfg (lo + of_nat k) len d s =
    invoke_callback (io_handler cfg) c (of_nat k) len True
      ((difftest_skip_ref cfg s)\<lparr>harr := store_le hput (hrange (A_io, sp + k) (nat len)) d (harr s)\<rparr>)"
proof -
  have kn: "k < n" using k len by auto
  obtain m where m: "fetch_mmio_map cfg (lo + of_nat k) s = (Some m, difftest_skip_ref cfg s)"
    "map_low m = lo" "map_high m = lo + of_nat (n - 1)" "map_space m = sp" "map_callback m = c"
    using dev_region_fetch [OF r kn] by blast
  have b: "hin_bounds cfg (A_io, sp + k) (nat len)" and d: "CONFIG_DEVICE cfg"
    using r k by (auto simp: dev_region_def)
  have "1 \<le> len \<and> len \<le> 8" "harr (difftest_skip_ref cfg s) = harr s"
    using len by (auto simp: difftest_skip_ref_def)
  with dev_region_off_memory [OF r kn] dev_region_addr [OF r kn] b len show ?thesis
    by (auto simp: vaddr_write_def paddr_write_def d mmio_write_def m map_write_def check_bound_def
        Let_def host_write_def host_store_def)
qed

lemma skip_ref_simps [simp]:
  "dev (difftest_skip_ref cfg s) = dev s" "harr (difftest_skip_ref cfg s) = harr s"
  "cpu (difftest_skip_ref cfg s) = cpu s" "mmio_maps (difftest_skip_ref cfg s) = mmio_maps s"
  "sdcard (difftest_skip_ref cfg s) = sdcard s" "nemu_state (difftest_skip_ref cfg s) = nemu_state s"
  by (simp_all add: difftest_skip_ref_def)

section \<open>Words of memory and of the frame buffer\<close>

text \<open>
  What the runtime's loops rely on: an aligned word that can be read gives its value, a
  word that can be written holds the value written, and no other word changes.
\<close>

locale word_store =
  fixes rd :: "u32 \<Rightarrow> 's \<Rightarrow> (u32 \<times> 's) result"
    and wr :: "u32 \<Rightarrow> u32 \<Rightarrow> 's \<Rightarrow> 's result"
    and val :: "'s \<Rightarrow> u32 \<Rightarrow> u32"
    and can_read can_write :: "u32 \<Rightarrow> bool"
    and inv :: "'s \<Rightarrow> bool"
  assumes write_read: "can_write a \<Longrightarrow> can_read a"
    and rd_word: "inv s \<Longrightarrow> can_read a \<Longrightarrow> \<exists>t. rd a s = Inr (val s a, t) \<and> inv t \<and> val t = val s"
    and wr_word: "inv s \<Longrightarrow> can_write a \<Longrightarrow> \<exists>t. wr a v s = Inr t \<and> inv t \<and> val t a = v \<and>
      (\<forall>b. can_read b \<longrightarrow> b \<noteq> a \<longrightarrow> val t b = val s b)"
begin

lemma write_all:
  assumes "inv s" "\<forall>(a, v) \<in> set avs. can_write a" "distinct (map fst avs)"
  shows "\<exists>t. foldR (\<lambda>(a, v). wr a v) avs s = Inr t \<and> inv t \<and> (\<forall>(a, v) \<in> set avs. val t a = v) \<and>
    (\<forall>b. can_read b \<longrightarrow> b \<notin> fst ` set avs \<longrightarrow> val t b = val s b)"
  using assms
proof (induction avs arbitrary: s)
  case (Cons x avs)
  obtain a v where x: "x = (a, v)" by (cases x)
  obtain t where t: "wr a v s = Inr t" "inv t" "val t a = v"
    "\<forall>b. can_read b \<longrightarrow> b \<noteq> a \<longrightarrow> val t b = val s b"
    using wr_word [of s a v] Cons.prems by (auto simp: x)
  obtain u where u: "foldR (\<lambda>(a, v). wr a v) avs t = Inr u" "inv u"
    "\<forall>(a, v) \<in> set avs. val u a = v"
    "\<forall>b. can_read b \<longrightarrow> b \<notin> fst ` set avs \<longrightarrow> val u b = val t b"
    using Cons.IH [OF t(2)] Cons.prems by auto
  have "a \<notin> fst ` set avs" "can_read a"
    using Cons.prems write_read by (auto simp: x)
  with t u show ?case by (auto simp: x)
qed simp

lemma read_all:
  assumes "inv s" "\<forall>a \<in> set as. can_read a"
  shows "\<exists>t. foldR (\<lambda>a (vs, s). bindR (rd a s) (\<lambda>(v, t). Inr (vs @ [v], t))) as (us, s) =
    Inr (us @ map (val s) as, t) \<and> inv t \<and> val t = val s"
  using assms
proof (induction as arbitrary: s us)
  case (Cons a as)
  obtain t where t: "rd a s = Inr (val s a, t)" "inv t" "val t = val s"
    using rd_word [of s a] Cons.prems by auto
  with Cons.IH [OF t(2), of "us @ [val s a]"] Cons.prems show ?case by auto
qed simp

lemma copy_all:
  assumes "inv s" "\<forall>(d, a) \<in> set das. can_write d \<and> can_read a" "distinct (map fst das)"
    and "fst ` set das \<inter> snd ` set das = {}"
  shows "\<exists>t. foldR (\<lambda>(d, a) s. bindR (rd a s) (\<lambda>(w, t). wr d w t)) das s = Inr t \<and> inv t \<and>
    (\<forall>(d, a) \<in> set das. val t d = val s a) \<and>
    (\<forall>b. can_read b \<longrightarrow> b \<notin> fst ` set das \<longrightarrow> val t b = val s b)"
  using assms
proof (induction das arbitrary: s)
  case (Cons x das)
  obtain d a where x: "x = (d, a)" by (cases x)
  obtain t0 where t0: "rd a s = Inr (val s a, t0)" "inv t0" "val t0 = val s"
    using rd_word [of s a] Cons.prems by (auto simp: x)
  obtain t where t: "wr d (val s a) t0 = Inr t" "inv t" "val t d = val s a"
    "\<forall>b. can_read b \<longrightarrow> b \<noteq> d \<longrightarrow> val t b = val s b"
    using wr_word [of t0 d "val s a"] Cons.prems t0 by (auto simp: x)
  obtain u where u: "foldR (\<lambda>(d, a) s. bindR (rd a s) (\<lambda>(w, t). wr d w t)) das t = Inr u" "inv u"
    "\<forall>(d, a) \<in> set das. val u d = val t a"
    "\<forall>b. can_read b \<longrightarrow> b \<notin> fst ` set das \<longrightarrow> val u b = val t b"
    using Cons.IH [OF t(2)] Cons.prems by (auto simp: x)
  have d: "d \<notin> fst ` set das" "can_read d"
    using Cons.prems write_read by (auto simp: x)
  have s': "val t b = val s b" if m: "(d', b) \<in> set das" for d' b
  proof -
    have "can_read b" using m Cons.prems(2) by auto
    moreover have "b \<in> snd ` set das" using m by (rule image_eqI [rotated]) simp
    then have "b \<noteq> d" using Cons.prems(4) by (auto simp: x)
    ultimately show ?thesis using t(4) t0(3) by simp
  qed
  have "foldR (\<lambda>(d, a) s. bindR (rd a s) (\<lambda>(w, t). wr d w t)) (x # das) s = Inr u"
    using t0(1) t(1) u(1) by (simp add: x)
  moreover have "val u d = val s a"
    using u(4) t(3) d by simp
  with u(3) s' have "\<forall>(d, a) \<in> set (x # das). val u d = val s a"
    by (auto simp: x)
  moreover have "\<forall>b. can_read b \<longrightarrow> b \<notin> fst ` set (x # das) \<longrightarrow> val u b = val s b"
    using u(4) t(4) t0(3) by (simp add: x)
  ultimately show ?case
    using u(2) by blast
qed simp

end

text \<open>
  The words of the emulator's machine: RAM and ROM words, and the words of a region without
  a handler (\<open>fb\<close>: its address, its size and its place in \<open>io_space\<close>).
\<close>

type_synonym plain_region = "(u32 \<times> nat \<times> nat) option"

fun area_base :: "config \<Rightarrow> plain_region \<Rightarrow> harea \<Rightarrow> u32 \<times> nat" where
  "area_base cfg fb A_pmem = (CONFIG_MBASE cfg, 0)"
| "area_base cfg fb A_mrom = (CONFIG_MROM_BASE cfg, 0)"
| "area_base cfg fb A_flash = (CONFIG_FLASH_BASE cfg, 0)"
| "area_base cfg fb A_sram = (CONFIG_SRAM_BASE cfg, 0)"
| "area_base cfg fb A_npc_sram = (CONFIG_SRAM_BASE cfg, 0)"
| "area_base cfg fb A_psram = (CONFIG_PSRAM_BASE cfg, 0)"
| "area_base cfg fb A_sdram = (CONFIG_SDRAM_BASE cfg, 0)"
| "area_base cfg fb A_io = (case fb of None \<Rightarrow> (0, 0) | Some (lo, n, sp) \<Rightarrow> (lo, sp))"

definition word_ptr :: "config \<Rightarrow> plain_region \<Rightarrow> u32 \<Rightarrow> hptr option" where
  "word_ptr cfg fb a =
     (if \<not> 4 dvd unat a then None
      else if readable_memory cfg a then
        (case guest_to_host cfg a of
           Inl e \<Rightarrow> None
         | Inr p \<Rightarrow> if hin_bounds cfg p 4 then Some p else None)
      else (case fb of
          None \<Rightarrow> None
        | Some (lo, n, sp) \<Rightarrow>
            if lo \<le> a \<and> unat (a - lo) + 4 \<le> n then Some (A_io, sp + unat (a - lo)) else None))"

definition word_at :: "config \<Rightarrow> plain_region \<Rightarrow> system \<Rightarrow> u32 \<Rightarrow> u32" where
  "word_at cfg fb s a = load_le (hget (harr s)) (hrange (the (word_ptr cfg fb a)) 4)"

definition word_readable :: "config \<Rightarrow> plain_region \<Rightarrow> u32 \<Rightarrow> bool" where
  "word_readable cfg fb a \<longleftrightarrow> word_ptr cfg fb a \<noteq> None"

definition word_writable :: "config \<Rightarrow> plain_region \<Rightarrow> u32 \<Rightarrow> bool" where
  "word_writable cfg fb a \<longleftrightarrow>
     word_ptr cfg fb a \<noteq> None \<and> (readable_memory cfg a \<longrightarrow> writable_memory cfg a)"

text \<open>What an access to such a word leaves alone: everything but memory and the region.\<close>

definition plain_frame :: "config \<Rightarrow> plain_region \<Rightarrow> system \<Rightarrow> system \<Rightarrow> bool" where
  "plain_frame cfg fb s0 s \<longleftrightarrow>
     mem_frame s0 s \<and> dev s = dev s0 \<and> sdcard s = sdcard s0 \<and>
     (case fb of None \<Rightarrow> harr s A_io = harr s0 A_io
      | Some (lo, n, sp) \<Rightarrow> dev_region cfg s0 lo n sp None \<and>
          (\<forall>i. i < sp \<or> sp + n \<le> i \<longrightarrow> harr s A_io i = harr s0 A_io i))"

lemma aligned_apart:
  fixes a b c :: u32
  assumes "4 dvd unat a" "4 dvd unat b" "a \<noteq> b"
  shows "unat (a - c) + 4 \<le> unat (b - c) \<or> unat (b - c) + 4 \<le> unat (a - c)"
proof -
  have m: "uint (x - c) mod 4 = (uint x - uint c) mod 4" for x :: u32
    by (simp add: uint_word_ariths mod_mod_cancel)
  have "4 dvd uint a" "4 dvd uint b"
    using assms(1,2) by (simp_all add: uint_nat [symmetric] flip: int_dvd_int_iff)
  then have "(uint a - uint c) mod 4 = (uint b - uint c) mod 4"
    by (simp add: mod_eq_dvd_iff dvd_diff)
  then have "4 dvd uint (a - c) - uint (b - c)"
    by (simp only: m flip: mod_eq_dvd_iff)
  then obtain k where "uint (a - c) - uint (b - c) = 4 * k" by (elim dvdE)
  moreover have "uint (a - c) \<noteq> uint (b - c)"
    using assms(3) by (simp only: word_uint_eq_iff [symmetric]) simp
  ultimately have "uint (a - c) + 4 \<le> uint (b - c) \<or> uint (b - c) + 4 \<le> uint (a - c)"
    by (cases k "0 :: int" rule: linorder_cases) auto
  then show ?thesis
    by (auto simp only: uint_nat of_nat_le_iff [symmetric] of_nat_add of_nat_numeral)
qed

lemma guest_to_host_form:
  "guest_to_host cfg a = Inr (ar, off) \<Longrightarrow>
   off = snd (area_base cfg fb ar) + unat (a - fst (area_base cfg fb ar))"
  unfolding guest_to_host_def by (auto split: if_split_asm)

lemma word_ptr_cases:
  assumes "word_ptr cfg fb a = Some p"
  obtains "4 dvd unat a" "readable_memory cfg a" "guest_to_host cfg a = Inr p" "hin_bounds cfg p 4"
  | lo n sp where "4 dvd unat a" "\<not> readable_memory cfg a" "fb = Some (lo, n, sp)" "lo \<le> a"
      "unat (a - lo) + 4 \<le> n" "p = (A_io, sp + unat (a - lo))"
proof (cases "readable_memory cfg a")
  case True
  with assms that(1) show ?thesis
    by (cases "guest_to_host cfg a") (simp_all add: word_ptr_def split: if_split_asm)
next
  case False
  with assms that(2) show ?thesis
    by (cases fb) (auto simp: word_ptr_def split: if_split_asm)
qed

lemma word_ptr_form:
  assumes "word_ptr cfg fb a = Some (ar, off)"
  shows "4 dvd unat a \<and> off = snd (area_base cfg fb ar) + unat (a - fst (area_base cfg fb ar))"
  using assms by (cases rule: word_ptr_cases) (auto dest: guest_to_host_form)

lemma word_ptr_apart:
  assumes "word_ptr cfg fb a = Some p" "word_ptr cfg fb b = Some q" "a \<noteq> b"
  shows "set (hrange p 4) \<inter> set (hrange q 4) = {}"
proof (cases "fst p = fst q")
  case True
  obtain ar i j where p: "p = (ar, i)" and q: "q = (ar, j)"
    using True by (cases p; cases q) auto
  have "i + 4 \<le> j \<or> j + 4 \<le> i"
    using word_ptr_form [of cfg fb a ar i] word_ptr_form [of cfg fb b ar j] assms
      aligned_apart [of a b "fst (area_base cfg fb ar)"] by (auto simp: p q)
  then show ?thesis
    using hrange_disjoint [of i 4 j ar 4] hrange_disjoint [of j 4 i ar 4] unfolding p q by blast
next
  case False
  then show ?thesis using hrange_area by (metis disjoint_iff)
qed

lemma word_ptr_memory:
  "word_ptr cfg fb a = Some p \<Longrightarrow> fst p \<noteq> A_io \<Longrightarrow>
   readable_memory cfg a \<and> guest_to_host cfg a = Inr p \<and> hin_bounds cfg p 4"
  by (erule word_ptr_cases) auto

lemma plain_frame_maps: "plain_frame cfg fb s0 s \<Longrightarrow> mmio_maps s = mmio_maps s0"
  by (simp add: plain_frame_def mem_frame_def)

lemma plain_frame_note [simp]:
  "plain_frame cfg fb s0 (note_access cfg a n s) = plain_frame cfg fb s0 s"
  by (cases fb) (auto simp: note_access_def plain_frame_def mem_frame_def)

lemma plain_frame_skip [simp]:
  "plain_frame cfg fb s0 (difftest_skip_ref cfg s) = plain_frame cfg fb s0 s"
  by (cases fb) (auto simp: difftest_skip_ref_def plain_frame_def mem_frame_def)

lemma plain_region_ok:
  assumes "plain_frame cfg (Some (lo, n, sp)) s0 s"
  shows "dev_region cfg s lo n sp None"
proof -
  have "dev_region cfg s = dev_region cfg s0"
    using plain_frame_maps [OF assms] by (rule dev_region_frame)
  with assms show ?thesis by (simp add: plain_frame_def)
qed

lemma word_at_cong: "harr t = harr s \<Longrightarrow> word_at cfg fb t = word_at cfg fb s"
  by (rule ext) (simp add: word_at_def)

text \<open>Device registers are not words of memory.\<close>

lemma word_at_io:
  assumes "\<And>ar. ar \<noteq> A_io \<Longrightarrow> harr t ar = harr s ar" and r: "word_readable cfg None a"
  shows "word_at cfg None t a = word_at cfg None s a"
proof -
  obtain q where q: "word_ptr cfg None a = Some q" using r by (auto simp: word_readable_def)
  have "fst q \<noteq> A_io"
    using q by (cases rule: word_ptr_cases) (auto simp: guest_to_host_def split: if_split_asm)
  then have "hget (harr t) x = hget (harr s) x" if "x \<in> set (hrange q 4)" for x
    using hrange_area [OF that] assms(1) by (cases x) simp
  then show ?thesis unfolding word_at_def q by (auto intro: load_le_cong)
qed

lemma read_word:
  assumes inv: "plain_frame cfg fb s0 s" and "word_readable cfg fb a"
  shows "\<exists>t. inl cfg a s = Inr (word_at cfg fb s a, t) \<and> plain_frame cfg fb s0 t \<and> harr t = harr s"
proof -
  from assms(2) obtain p where p: "word_ptr cfg fb a = Some p"
    by (auto simp: word_readable_def)
  then show ?thesis
  proof (cases rule: word_ptr_cases)
    case 1
    then show ?thesis
      using inv by (simp add: inl_def vaddr_read_def paddr_read_pmem host_read_def host_load_def
          word_at_def p)
  next
    case (2 lo n sp)
    have a: "lo + of_nat (unat (a - lo)) = a" by simp
    show ?thesis
      using dev_read [OF plain_region_ok, of cfg lo n sp s0 s "unat (a - lo)" 4] inv 2 p
      by (simp add: inl_def a invoke_callback_def word_at_def)
  qed
qed

lemma word_at_stored:
  assumes "word_ptr cfg fb a = Some p" "harr t = store_le hput (hrange p 4) v (harr s)"
  shows "word_at cfg fb t a = v"
    and "word_readable cfg fb b \<Longrightarrow> b \<noteq> a \<Longrightarrow> word_at cfg fb t b = word_at cfg fb s b"
proof -
  show "word_at cfg fb t a = v"
    using assms by (simp add: word_at_def host.load_store)
  assume "word_readable cfg fb b" "b \<noteq> a"
  then show "word_at cfg fb t b = word_at cfg fb s b"
    using word_ptr_apart [OF assms(1)] assms(2)
    by (auto simp: word_at_def word_readable_def host.load_store_disjoint)
qed

lemma store_io_frame:
  assumes "i \<notin> {off..<off + n}"
  shows "store_le hput (hrange (A_io, off) n) v h A_io i = h A_io i"
proof -
  have "(A_io, i) \<notin> set (hrange (A_io, off) n)"
    using assms by (auto simp: hrange.simps)
  from host.get_store_frame [OF this] show ?thesis by (metis hget.simps)
qed

lemma write_word:
  assumes inv: "plain_frame cfg fb s0 s" and "word_writable cfg fb a"
  shows "\<exists>t p. outl cfg a v s = Inr t \<and> plain_frame cfg fb s0 t \<and> word_ptr cfg fb a = Some p \<and>
    harr t = store_le hput (hrange p 4) v (harr s)"
proof -
  from assms(2) obtain p where p: "word_ptr cfg fb a = Some p"
    and w: "readable_memory cfg a \<longrightarrow> writable_memory cfg a"
    by (auto simp: word_writable_def)
  from p show ?thesis
  proof (cases rule: word_ptr_cases)
    case 1
    let ?h = "store_le hput (hrange p 4) v (harr s)"
    have io: "?h A_io = harr s A_io"
      using host_store_other_area [of cfg p 4 v "harr s" ?h A_io] 1 guest_to_host_not_io [of cfg a p]
      by (simp add: host_store_def)
    have "outl cfg a v s = Inr ((note_access cfg a 4 s)\<lparr>harr := ?h\<rparr>)"
      using 1 w by (simp add: outl_def vaddr_write_def paddr_write_pmem host_write_def host_store_def)
    moreover have "plain_frame cfg fb s0 ((note_access cfg a 4 s)\<lparr>harr := ?h\<rparr>)"
      using inv io by (cases fb) (auto simp: plain_frame_def mem_frame_def note_access_def)
    ultimately show ?thesis using p by auto
  next
    case (2 lo n sp)
    let ?h = "store_le hput (hrange p 4) v (harr s)"
    have a: "lo + of_nat (unat (a - lo)) = a" by simp
    have "outl cfg a v s = Inr ((difftest_skip_ref cfg s)\<lparr>harr := ?h\<rparr>)"
      using dev_write [OF plain_region_ok, of cfg lo n sp s0 s "unat (a - lo)" 4] inv 2
      by (simp add: outl_def a invoke_callback_def)
    moreover have "plain_frame cfg fb s0 ((difftest_skip_ref cfg s)\<lparr>harr := ?h\<rparr>)"
      using inv 2
      by (auto simp: plain_frame_def mem_frame_def difftest_skip_ref_def store_io_frame)
    ultimately show ?thesis using p by auto
  qed
qed

text \<open>The emulator's loads and stores of such words, from the machine state \<open>s0\<close> on.\<close>

interpretation guest: word_store "inl cfg" "outl cfg" "word_at cfg fb" "word_readable cfg fb"
  "word_writable cfg fb" "plain_frame cfg fb s0" for cfg fb s0
proof
  fix a assume "word_writable cfg fb a"
  then show "word_readable cfg fb a" by (simp add: word_writable_def word_readable_def)
next
  fix s a assume "plain_frame cfg fb s0 s" "word_readable cfg fb a"
  from read_word [OF this] show "\<exists>t. inl cfg a s = Inr (word_at cfg fb s a, t) \<and>
      plain_frame cfg fb s0 t \<and> word_at cfg fb t = word_at cfg fb s"
    using word_at_cong by blast
next
  fix s a v assume "plain_frame cfg fb s0 s" "word_writable cfg fb a"
  from write_word [OF this] obtain t p where "outl cfg a v s = Inr t" "plain_frame cfg fb s0 t"
    "word_ptr cfg fb a = Some p" "harr t = store_le hput (hrange p 4) v (harr s)" by blast
  with word_at_stored show "\<exists>t. outl cfg a v s = Inr t \<and> plain_frame cfg fb s0 t \<and>
      word_at cfg fb t a = v \<and>
      (\<forall>b. word_readable cfg fb b \<longrightarrow> b \<noteq> a \<longrightarrow> word_at cfg fb t b = word_at cfg fb s b)"
    by blast
qed

end
