(* ===== verification/Am_Ioe.thy ===== *)
theory Am_Ioe
  imports Am_Bus
begin

text \<open>
  The runtime's drivers for the emulator's devices, \<open>abstract-machine/am/src/platform/nemu\<close>:
  \<open>ioe/timer.c\<close>, \<open>input.c\<close>, \<open>gpu.c\<close>, \<open>audio.c\<close>, \<open>disk.c\<close>, the register table of
  \<open>ioe/ioe.c\<close>, \<open>trm.c\<close> and \<open>mpe.c\<close>. A driver runs on the emulator: its accesses are the
  loads and stores of the guest, its effects those of the emulator's devices.
\<close>

section \<open>Registers and their buffers (am.h, amdev.h)\<close>

record fbdraw =
  fb_x :: int
  fb_y :: int
  fb_pixels :: u32
  fb_w :: int
  fb_h :: int
  fb_sync :: bool

datatype am_buf =
    UART_CONFIG_T bool
  | UART_TX_T u8
  | UART_RX_T u8
  | TIMER_CONFIG_T bool bool
  | TIMER_RTC_T int int int int int int
  | TIMER_UPTIME_T u64
  | INPUT_CONFIG_T bool
  | INPUT_KEYBRD_T bool int
  | GPU_CONFIG_T bool bool int int int
  | GPU_STATUS_T bool
  | GPU_FBDRAW_T fbdraw
  | AUDIO_CONFIG_T bool int
  | AUDIO_CTRL_T int int int
  | AUDIO_STATUS_T int
  | AUDIO_PLAY_T u32 u32
  | DISK_CONFIG_T bool int int
  | DISK_STATUS_T bool
  | DISK_BLKIO_T bool u32 int int
  | NET_CONFIG_T bool

text \<open>The keys in the order of \<open>AM_KEYS\<close>; \<open>AM_KEY_NONE\<close> is 0 and the others follow.\<close>

definition am_keys :: "string list" where
  "am_keys = [''ESCAPE'', ''F1'', ''F2'', ''F3'', ''F4'', ''F5'', ''F6'', ''F7'', ''F8'',
     ''F9'', ''F10'', ''F11'', ''F12'',
     ''GRAVE'', ''1'', ''2'', ''3'', ''4'', ''5'', ''6'', ''7'', ''8'', ''9'', ''0'',
     ''MINUS'', ''EQUALS'', ''BACKSPACE'',
     ''TAB'', ''Q'', ''W'', ''E'', ''R'', ''T'', ''Y'', ''U'', ''I'', ''O'', ''P'',
     ''LEFTBRACKET'', ''RIGHTBRACKET'', ''BACKSLASH'',
     ''CAPSLOCK'', ''A'', ''S'', ''D'', ''F'', ''G'', ''H'', ''J'', ''K'', ''L'',
     ''SEMICOLON'', ''APOSTROPHE'', ''RETURN'',
     ''LSHIFT'', ''Z'', ''X'', ''C'', ''V'', ''B'', ''N'', ''M'', ''COMMA'', ''PERIOD'',
     ''SLASH'', ''RSHIFT'',
     ''LCTRL'', ''APPLICATION'', ''LALT'', ''SPACE'', ''RALT'', ''RCTRL'',
     ''UP'', ''DOWN'', ''LEFT'', ''RIGHT'', ''INSERT'', ''DELETE'', ''HOME'', ''END'',
     ''PAGEUP'', ''PAGEDOWN'']"

definition am_key :: "string \<Rightarrow> int" where
  "am_key k = int (length (takeWhile ((\<noteq>) k) am_keys)) + 1"

type_synonym driver = "am_buf \<Rightarrow> system \<Rightarrow> (am_buf \<times> system) result"

abbreviation (input) SERIAL_ADDR :: u32 where "SERIAL_ADDR \<equiv> 0xa00003f8"
abbreviation (input) KBD_ADDR :: u32 where "KBD_ADDR \<equiv> 0xa0000060"
abbreviation (input) RTC_ADDR :: u32 where "RTC_ADDR \<equiv> 0xa0000048"
abbreviation (input) VGACTL_ADDR :: u32 where "VGACTL_ADDR \<equiv> 0xa0000100"
abbreviation (input) VMEM_ADDR :: u32 where "VMEM_ADDR \<equiv> 0xa1000000"

text \<open>A handler is called with the buffer of its register; any other buffer is misuse.\<close>

definition wrong_buffer :: "'a result" where
  "wrong_buffer = Inl (Undefined ''buffer of another register'')"

section \<open>timer.c and input.c\<close>

definition am_timer_uptime :: "config \<Rightarrow> driver" where
  "am_timer_uptime cfg buf s =
     bindR (inl cfg (RTC_ADDR + 4) s) (\<lambda>(high_part, s).
     bindR (inl cfg RTC_ADDR s) (\<lambda>(low_part, s).
     Inr (TIMER_UPTIME_T (push_bit 32 (ucast high_part) OR ucast low_part), s)))"

definition am_timer_rtc :: driver where
  "am_timer_rtc buf s = Inr (TIMER_RTC_T 1900 0 0 0 0 0, s)"

definition am_input_keybrd :: "config \<Rightarrow> driver" where
  "am_input_keybrd cfg buf s =
     bindR (inl cfg KBD_ADDR s) (\<lambda>(keycode, s).
     Inr (if keycode AND 0x8000 \<noteq> 0 then INPUT_KEYBRD_T True (sint (keycode XOR 0x8000))
          else INPUT_KEYBRD_T False (sint keycode), s))"

section \<open>gpu.c\<close>

definition am_gpu_config :: "config \<Rightarrow> driver" where
  "am_gpu_config cfg buf s =
     bindR (inl cfg VGACTL_ADDR s) (\<lambda>(w, s).
     bindR (inl cfg VGACTL_ADDR s) (\<lambda>(h, s).
     Inr (GPU_CONFIG_T True False (sint (drop_bit 16 w)) (sint (h AND 0xffff)) 0, s)))"

text \<open>Signed \<open>int\<close> sums outside 32 bits are undefined.\<close>

definition c_int :: "int \<Rightarrow> int result" where
  "c_int k = (if - (2 ^ 31) \<le> k \<and> k < 2 ^ 31 then Inr k else Inl (Undefined ''signed overflow''))"

definition draw_pixel :: "config \<Rightarrow> fbdraw \<Rightarrow> u32 \<Rightarrow> int \<times> int \<Rightarrow> system \<Rightarrow> system result" where
  "draw_pixel cfg ctl screen_w = (\<lambda>(i, j) s.
     bindR (c_int ((i - fb_y ctl) * fb_w ctl + (j - fb_x ctl))) (\<lambda>k.
     bindR (inl cfg (fb_pixels ctl + 4 * of_int k) s) (\<lambda>(p, s).
     outl cfg (VMEM_ADDR + 4 * (screen_w * of_int i + of_int j)) p s)))"

definition am_gpu_fbdraw :: "config \<Rightarrow> fbdraw \<Rightarrow> system \<Rightarrow> system result" where
  "am_gpu_fbdraw cfg ctl s =
     (let x = fb_x ctl; y = fb_y ctl; w = fb_w ctl; h = fb_h ctl in
      if \<not> fb_sync ctl \<and> w = 0 \<and> h = 0 then Inr s else
      bindR (inl cfg VGACTL_ADDR s) (\<lambda>(v, s).
      bindR (c_int (y + h)) (\<lambda>y_end.
      bindR (if y < y_end then c_int (x + w) else Inr x) (\<lambda>x_end.
      bindR (foldR (draw_pixel cfg ctl (drop_bit 16 v))
               [(i, j). i \<leftarrow> [y..y_end - 1], j \<leftarrow> [x..x_end - 1]] s) (\<lambda>s.
      if fb_sync ctl then outl cfg (VGACTL_ADDR + 4) 1 s else Inr s)))))"

definition gpu_fbdraw_handler :: "config \<Rightarrow> driver" where
  "gpu_fbdraw_handler cfg buf s =
     (case buf of
        GPU_FBDRAW_T ctl \<Rightarrow> bindR (am_gpu_fbdraw cfg ctl s) (\<lambda>s. Inr (buf, s))
      | _ \<Rightarrow> wrong_buffer)"

definition am_gpu_status :: driver where
  "am_gpu_status buf s = Inr (GPU_STATUS_T True, s)"

section \<open>audio.c and disk.c\<close>

definition am_audio_config :: driver where
  "am_audio_config buf s =
     (case buf of AUDIO_CONFIG_T p n \<Rightarrow> Inr (AUDIO_CONFIG_T False n, s) | _ \<Rightarrow> wrong_buffer)"

definition am_audio_status :: driver where
  "am_audio_status buf s = Inr (AUDIO_STATUS_T 0, s)"

definition am_disk_config :: driver where
  "am_disk_config buf s =
     (case buf of DISK_CONFIG_T p a b \<Rightarrow> Inr (DISK_CONFIG_T False a b, s) | _ \<Rightarrow> wrong_buffer)"

text \<open>\<open>audio_ctrl\<close>, \<open>audio_play\<close>, \<open>disk_status\<close> and \<open>disk_blkio\<close> have empty bodies.\<close>

definition am_no_op :: driver where
  "am_no_op buf s = Inr (buf, s)"

section \<open>ioe.c\<close>

datatype handler = H_timer_config | H_timer_rtc | H_timer_uptime | H_input_config | H_input_keybrd
  | H_gpu_config | H_gpu_fbdraw | H_gpu_status | H_uart_config | H_audio_config | H_audio_ctrl
  | H_audio_status | H_audio_play | H_disk_config | H_disk_status | H_disk_blkio | H_net_config
  | H_fail

fun run_handler :: "config \<Rightarrow> handler \<Rightarrow> driver" where
  "run_handler cfg H_timer_config buf s = Inr (TIMER_CONFIG_T True True, s)"
| "run_handler cfg H_timer_rtc buf s = am_timer_rtc buf s"
| "run_handler cfg H_timer_uptime buf s = am_timer_uptime cfg buf s"
| "run_handler cfg H_input_config buf s = Inr (INPUT_CONFIG_T True, s)"
| "run_handler cfg H_input_keybrd buf s = am_input_keybrd cfg buf s"
| "run_handler cfg H_gpu_config buf s = am_gpu_config cfg buf s"
| "run_handler cfg H_gpu_fbdraw buf s = gpu_fbdraw_handler cfg buf s"
| "run_handler cfg H_gpu_status buf s = am_gpu_status buf s"
| "run_handler cfg H_uart_config buf s = Inr (UART_CONFIG_T False, s)"
| "run_handler cfg H_audio_config buf s = am_audio_config buf s"
| "run_handler cfg H_audio_ctrl buf s = am_no_op buf s"
| "run_handler cfg H_audio_status buf s = am_audio_status buf s"
| "run_handler cfg H_audio_play buf s = am_no_op buf s"
| "run_handler cfg H_disk_config buf s = am_disk_config buf s"
| "run_handler cfg H_disk_status buf s = am_no_op buf s"
| "run_handler cfg H_disk_blkio buf s = am_no_op buf s"
| "run_handler cfg H_net_config buf s = Inr (NET_CONFIG_T False, s)"
| "run_handler cfg H_fail buf s = Inl (Panicked ''access nonexist register'')"

text \<open>The table of 128 registers, its \<open>NULL\<close> entries \<open>None\<close>, in the numbering of \<open>amdev.h\<close>.\<close>

definition lut :: "handler option list" where
  "lut =
     [None, Some H_uart_config, None, None, Some H_timer_config, Some H_timer_rtc,
      Some H_timer_uptime, Some H_input_config, Some H_input_keybrd, Some H_gpu_config,
      Some H_gpu_status, Some H_gpu_fbdraw, None, None, Some H_audio_config, Some H_audio_ctrl,
      Some H_audio_status, Some H_audio_play, Some H_disk_config, Some H_disk_status,
      Some H_disk_blkio, Some H_net_config] @ replicate 106 None"

definition ioe_init :: "handler option list \<Rightarrow> handler option list" where
  "ioe_init = map (\<lambda>h. case h of None \<Rightarrow> Some H_fail | Some h \<Rightarrow> Some h)"

definition ioe_read :: "config \<Rightarrow> handler option list \<Rightarrow> int \<Rightarrow> driver" where
  "ioe_read cfg tab reg buf s =
     (if 0 \<le> reg \<and> reg < int (length tab) then
        (case tab ! nat reg of
           None \<Rightarrow> Inl (Undefined ''call of a null handler'')
         | Some h \<Rightarrow> run_handler cfg h buf s)
      else Inl (Undefined ''lut index''))"

definition ioe_write :: "config \<Rightarrow> handler option list \<Rightarrow> int \<Rightarrow> driver" where
  "ioe_write = ioe_read"

section \<open>trm.c and mpe.c\<close>

definition putch :: "config \<Rightarrow> u8 \<Rightarrow> system \<Rightarrow> system result" where
  "putch cfg ch s = outb cfg SERIAL_ADDR ch s"

definition cpu_count :: int where
  "cpu_count = 1"

definition cpu_current :: int where
  "cpu_current = 0"

definition atomic_xchg :: "config \<Rightarrow> u32 \<Rightarrow> u32 \<Rightarrow> system \<Rightarrow> (u32 \<times> system) result" where
  "atomic_xchg cfg addr newval s =
     bindR (inl cfg addr s) (\<lambda>(old, s). bindR (outl cfg addr newval s) (\<lambda>s. Inr (old, s)))"

end
