(* ===== verification/Am_Ioe_Properties.thy ===== *)
theory Am_Ioe_Properties
  imports Am_Ioe
begin

text \<open>
  What a program gets from the runtime's drivers when it runs on the emulator: a clock that
  never goes back, every key in order, exactly the rectangle it draws, every character it
  prints.
\<close>

text \<open>What an access to a device register of \<open>n\<close> bytes at \<open>p\<close> in \<open>io_space\<close> leaves alone.\<close>

definition io_frame :: "nat \<Rightarrow> nat \<Rightarrow> system \<Rightarrow> system \<Rightarrow> bool" where
  "io_frame p n s t \<longleftrightarrow> mmio_maps t = mmio_maps s \<and>
     (\<forall>ar i. ar \<noteq> A_io \<or> i < p \<or> p + n \<le> i \<longrightarrow> harr t ar i = harr s ar i)"

lemma io_frame_store:
  "ar \<noteq> A_io \<or> i < p \<or> p + n \<le> i \<Longrightarrow> store_le hput (hrange (A_io, p) n) v h ar i = h ar i"
proof -
  assume "ar \<noteq> A_io \<or> i < p \<or> p + n \<le> i"
  then have "(ar, i) \<notin> set (hrange (A_io, p) n)" by (auto simp: hrange.simps)
  from host.get_store_frame [OF this, of v h] show ?thesis by simp
qed

section \<open>Clock\<close>

definition am_clock :: "config \<Rightarrow> system \<Rightarrow> bool" where
  "am_clock cfg s \<longleftrightarrow> (\<exists>p. rtc_port_base (dev s) = Some p \<and> dev_region cfg s RTC_ADDR 8 p (Some Rtc_io))"

lemma halves_of_word:
  "push_bit 32 (ucast (ucast (drop_bit 32 us) :: u32)) OR ucast (ucast us :: u32) = (us :: u64)"
  by (rule bit_word_eqI) (auto simp: bit_or_iff bit_push_bit_iff bit_ucast_iff bit_drop_bit_eq)

lemma uptime_step:
  assumes "am_clock cfg s" and g: "get_time (dev s) = (us, d)"
  shows "\<exists>t. am_timer_uptime cfg buf s = Inr (TIMER_UPTIME_T us, t) \<and> dev t = d \<and> am_clock cfg t \<and>
    io_frame (the (rtc_port_base (dev s))) 8 s t"
proof -
  obtain p where p: "rtc_port_base (dev s) = Some p"
    and r: "dev_region cfg s RTC_ADDR 8 p (Some Rtc_io)"
    using assms(1) by (auto simp: am_clock_def)
  have base: "rtc_port_base d = Some p" using p g by (simp add: get_time_bases)
  have sp: "p + 8 \<le> IO_SPACE_MAX" using r by (simp add: dev_region_def)
  let ?h = "store_le hput (hrange (A_io, p + 4) 4) (ucast (drop_bit 32 us))
    (store_le hput (hrange (A_io, p) 4) (ucast us) (harr s))"
  let ?t = "(difftest_skip_ref cfg s)\<lparr>dev := d, harr := ?h\<rparr>"
  have r': "dev_region cfg ?t RTC_ADDR 8 p (Some Rtc_io)"
    using r dev_region_frame [of ?t s cfg] by simp
  have high: "inl cfg (RTC_ADDR + 4) s = Inr (ucast (drop_bit 32 us), ?t)"
    using dev_read [OF r, of 4 4] sp
    by (simp add: inl_def invoke_callback_def rtc_io_handler_def g base reg_store_io
        host.load_store)
  have low: "inl cfg RTC_ADDR ?t = Inr (ucast us, difftest_skip_ref cfg ?t)"
    using dev_read [OF r', of 0 4] sp
    by (simp add: inl_def invoke_callback_def rtc_io_handler_def host.load_store
        host.load_store_disjoint [OF hrange_disjoint])
  have "am_timer_uptime cfg buf s = Inr (TIMER_UPTIME_T us, difftest_skip_ref cfg ?t)"
    unfolding am_timer_uptime_def high low by (simp add: low halves_of_word)
  moreover have "am_clock cfg (difftest_skip_ref cfg ?t)"
    using r dev_region_frame [of "difftest_skip_ref cfg ?t" s cfg] base by (auto simp: am_clock_def)
  moreover have "io_frame p 8 s (difftest_skip_ref cfg ?t)"
    by (auto simp: io_frame_def io_frame_store)
  ultimately show ?thesis using p by auto
qed

text \<open>The next reading of the clock register 6, and a run of readings.\<close>

fun uptimes :: "config \<Rightarrow> nat \<Rightarrow> system \<Rightarrow> (u64 list \<times> system) result" where
  "uptimes cfg 0 s = Inr ([], s)"
| "uptimes cfg (Suc n) s =
     bindR (ioe_read cfg (ioe_init lut) 6 (TIMER_UPTIME_T 0) s) (\<lambda>(b, s).
     case b of TIMER_UPTIME_T us \<Rightarrow> bindR (uptimes cfg n s) (\<lambda>(uss, s). Inr (us # uss, s))
     | _ \<Rightarrow> wrong_buffer)"

definition clock_forward :: "(nat \<Rightarrow> u64) \<Rightarrow> bool" where
  "clock_forward clk \<longleftrightarrow> (\<forall>i. 0 < clk i) \<and> (\<forall>i j. i \<le> j \<longrightarrow> clk i \<le> clk j)"

definition boot_known :: "dev_state \<Rightarrow> bool" where
  "boot_known d \<longleftrightarrow> boot_time d = 0 \<or> (\<exists>i < clock_reads d. boot_time d = host_clock d i)"

definition now_us :: "dev_state \<Rightarrow> u64" where
  "now_us d = (if boot_time d = 0 then 0 else host_clock d (clock_reads d) - boot_time d)"

lemma sub_mono: "a \<le> b \<Longrightarrow> b \<le> c \<Longrightarrow> b - a \<le> (c - a :: 'a::len word)"
  using order_trans [of a b c] by (simp add: word_le_nat_alt unat_sub)

lemma get_time_step:
  assumes "clock_forward (host_clock d)" "boot_known d" "get_time d = (us, e)"
  shows "host_clock e = host_clock d \<and> boot_known e \<and> now_us d \<le> us \<and> us \<le> now_us e"
proof (cases "boot_time d = 0")
  case True
  have "host_clock d (clock_reads d) \<le> host_clock d (Suc (clock_reads d))"
    "host_clock d (clock_reads d) \<le> host_clock d (Suc (Suc (clock_reads d)))"
    "host_clock d (Suc (clock_reads d)) \<le> host_clock d (Suc (Suc (clock_reads d)))"
    "0 < host_clock d (clock_reads d)"
    using assms(1) by (simp_all add: clock_forward_def)
  with True assms(3) show ?thesis
    by (auto simp: get_time_def get_time_internal_def now_us_def boot_known_def Let_def
        less_Suc_eq intro: sub_mono)
next
  case False
  with assms(2) obtain i where i: "i < clock_reads d" "boot_time d = host_clock d i"
    by (auto simp: boot_known_def)
  have "host_clock d i \<le> host_clock d (clock_reads d)"
    "host_clock d (clock_reads d) \<le> host_clock d (Suc (clock_reads d))"
    using assms(1) i(1) by (simp_all add: clock_forward_def)
  with False assms(3) i show ?thesis
    by (auto simp: get_time_def get_time_internal_def now_us_def boot_known_def Let_def less_Suc_eq
        intro: sub_mono)
qed

lemma uptimes_sorted:
  assumes "am_clock cfg s" "clock_forward (host_clock (dev s))" "boot_known (dev s)"
  shows "\<exists>us t. uptimes cfg n s = Inr (us, t) \<and> length us = n \<and> sorted us \<and>
    (\<forall>u \<in> set us. now_us (dev s) \<le> u)"
  using assms
proof (induction n arbitrary: s)
  case (Suc n)
  obtain us d where g: "get_time (dev s) = (us, d)" by (cases "get_time (dev s)")
  have step: "host_clock d = host_clock (dev s)" "boot_known d" "now_us (dev s) \<le> us" "us \<le> now_us d"
    using get_time_step [OF Suc.prems(2,3) g] by auto
  obtain t where t: "am_timer_uptime cfg (TIMER_UPTIME_T 0) s = Inr (TIMER_UPTIME_T us, t)"
    "dev t = d" "am_clock cfg t"
    using uptime_step [OF Suc.prems(1) g] by blast
  have "ioe_read cfg (ioe_init lut) 6 (TIMER_UPTIME_T 0) s = Inr (TIMER_UPTIME_T us, t)"
    using t(1) by (simp add: ioe_read_def ioe_init_def lut_def)
  moreover obtain uss u where "uptimes cfg n t = Inr (uss, u)" "length uss = n" "sorted uss"
    "\<forall>v \<in> set uss. now_us d \<le> v"
    using Suc.IH [of t] t(2,3) step Suc.prems(2) by auto
  ultimately show ?case
    using step order_trans by fastforce
qed simp

text \<open>C27: However often a program reads the uptime register, the readings never decrease, as
  long as the host's clock does not go back.\<close>

theorem am_uptime_never_goes_back:
  assumes "am_clock cfg s" "clock_forward (host_clock (dev s))" "boot_known (dev s)"
  shows "\<exists>us t. uptimes cfg n s = Inr (us, t) \<and> length us = n \<and> sorted us"
  using uptimes_sorted [OF assms] by blast

section \<open>Keyboard\<close>

definition am_keyboard :: "config \<Rightarrow> system \<Rightarrow> bool" where
  "am_keyboard cfg s \<longleftrightarrow> key_ok (dev s) \<and>
     (\<exists>p. i8042_data_port_base (dev s) = Some p \<and> dev_region cfg s KBD_ADDR 4 p (Some I8042_io))"

text \<open>The next key of the keyboard register 8, and a run of keys.\<close>

fun read_keys :: "config \<Rightarrow> nat \<Rightarrow> system \<Rightarrow> ((bool \<times> int) list \<times> system) result" where
  "read_keys cfg 0 s = Inr ([], s)"
| "read_keys cfg (Suc n) s =
     bindR (ioe_read cfg (ioe_init lut) 8 (INPUT_KEYBRD_T False 0) s) (\<lambda>(b, s).
     case b of INPUT_KEYBRD_T down k \<Rightarrow>
         bindR (read_keys cfg n s) (\<lambda>(ks, s). Inr ((down, k) # ks, s))
     | _ \<Rightarrow> wrong_buffer)"

definition key_report :: "u32 \<Rightarrow> bool \<times> int" where
  "key_report k = (if k AND 0x8000 \<noteq> 0 then (True, sint (k XOR 0x8000)) else (False, sint k))"

definition key_code :: "u32 \<Rightarrow> bool \<Rightarrow> u32" where
  "key_code k down = k OR (if down then KEYDOWN_MASK else 0)"

lemma key_dequeue_keeps:
  "key_dequeue d = (k, e) \<Longrightarrow> key_ok d \<Longrightarrow> key_ok e \<and> i8042_data_port_base e = i8042_data_port_base d"
  by (auto simp: key_dequeue_def key_ok_def KEY_QUEUE_LEN_def split: if_splits)

lemma keyboard_step:
  assumes "am_keyboard cfg s" and q: "key_dequeue (dev s) = (k, d)"
  shows "\<exists>t. ioe_read cfg (ioe_init lut) 8 buf s =
      Inr (case key_report k of (down, c) \<Rightarrow> INPUT_KEYBRD_T down c, t) \<and> dev t = d \<and> am_keyboard cfg t \<and>
    io_frame (the (i8042_data_port_base (dev s))) 4 s t"
proof -
  obtain p where p: "i8042_data_port_base (dev s) = Some p" and ok: "key_ok (dev s)"
    and r: "dev_region cfg s KBD_ADDR 4 p (Some I8042_io)"
    using assms(1) by (auto simp: am_keyboard_def)
  have d: "key_ok d" "i8042_data_port_base d = Some p"
    using key_dequeue_keeps [OF q ok] p by auto
  have sp: "p + 4 \<le> IO_SPACE_MAX" using r by (simp add: dev_region_def)
  let ?t = "(difftest_skip_ref cfg s)\<lparr>dev := d, harr := store_le hput (hrange (A_io, p) 4) k (harr s)\<rparr>"
  have "inl cfg KBD_ADDR s = Inr (k, ?t)"
    using dev_read [OF r, of 0 4] sp
    by (simp add: inl_def invoke_callback_def i8042_data_io_handler_def q d reg_store_io
        host.load_store)
  then have "am_input_keybrd cfg buf s =
      Inr (case key_report k of (down, c) \<Rightarrow> INPUT_KEYBRD_T down c, ?t)"
    by (simp add: am_input_keybrd_def key_report_def)
  moreover have "am_keyboard cfg ?t"
    using r d dev_region_frame [of ?t s cfg] by (simp add: am_keyboard_def)
  moreover have "io_frame p 4 s ?t" by (auto simp: io_frame_def io_frame_store)
  ultimately show ?thesis
    using p by (simp add: ioe_read_def ioe_init_def lut_def)
qed

lemma read_keys_dequeues:
  "am_keyboard cfg s \<Longrightarrow> deq_n key_dequeue n (dev s) = (ks, d) \<Longrightarrow>
   \<exists>t. read_keys cfg n s = Inr (map key_report ks, t)"
proof (induction n arbitrary: s ks)
  case (Suc n)
  obtain k e where q: "key_dequeue (dev s) = (k, e)" by (cases "key_dequeue (dev s)")
  obtain ks' where ks: "ks = k # ks'" "deq_n key_dequeue n e = (ks', d)"
    using Suc.prems(2) q by (auto split: prod.splits)
  obtain t where t: "ioe_read cfg (ioe_init lut) 8 (INPUT_KEYBRD_T False 0) s =
      Inr (case key_report k of (down, c) \<Rightarrow> INPUT_KEYBRD_T down c, t)" "dev t = e" "am_keyboard cfg t"
    using keyboard_step [OF Suc.prems(1) q] by blast
  with Suc.IH [OF t(3)] ks show ?case
    by (cases "key_report k") auto
qed simp

text \<open>Key events that SDL reports, for keys the emulator knows, go into the queue.\<close>

definition known_keys :: "(u8 \<times> bool) list \<Rightarrow> dev_state \<Rightarrow> bool" where
  "known_keys evs d \<longleftrightarrow> (\<forall>(k, down) \<in> set evs. 0 < keymap d k \<and> keymap d k < 0x8000)"

lemma key_enqueue_keymap: "key_enqueue x d = Inr e \<Longrightarrow> keymap e = keymap d \<and>
   i8042_data_port_base e = i8042_data_port_base d"
  by (auto simp: key_enqueue_def Let_def result_simps)

lemma handle_key_events:
  assumes "HAS_KEYBOARD dc" "state (nemu_state s) = NEMU_RUNNING" "known_keys evs (dev s)"
    and "foldR key_enqueue (map (\<lambda>(k, down). key_code (keymap (dev s) k) down) evs) (dev s) = Inr d"
  shows "handle_events dc (map (\<lambda>(k, down). SDL_KEY k down) evs) s = Inr (s\<lparr>dev := d\<rparr>)"
  using assms
proof (induction evs arbitrary: s)
  case (Cons ev evs)
  obtain k down where ev: "ev = (k, down)" by (cases ev)
  obtain e where e: "key_enqueue (key_code (keymap (dev s) k) down) (dev s) = Inr e"
    "foldR key_enqueue (map (\<lambda>(k, down). key_code (keymap (dev s) k) down) evs) e = Inr d"
    using Cons.prems(4) by (auto simp: ev result_simps)
  have km0: "0 < keymap (dev s) k" "known_keys evs (dev s)"
    using Cons.prems(3) by (auto simp: ev known_keys_def)
  have "send_key k down s = Inr (s\<lparr>dev := e\<rparr>)"
  proof -
    have "keymap (dev s) k \<noteq> 0" using km0(1) by (simp only: word_gt_0)
    then show ?thesis
      unfolding send_key_def key_code_def [symmetric] e(1) using Cons.prems(2) by simp
  qed
  moreover have "handle_events dc (map (\<lambda>(k, down). SDL_KEY k down) evs) (s\<lparr>dev := e\<rparr>) =
      Inr (s\<lparr>dev := e, dev := d\<rparr>)"
  proof (rule Cons.IH)
    have km: "keymap (dev (s\<lparr>dev := e\<rparr>)) = keymap (dev s)"
      using key_enqueue_keymap [OF e(1)] by simp
    show "known_keys evs (dev (s\<lparr>dev := e\<rparr>))"
      using km0(2) by (simp only: known_keys_def km)
    show "foldR key_enqueue (map (\<lambda>(k, down). key_code (keymap (dev (s\<lparr>dev := e\<rparr>)) k) down) evs)
        (dev (s\<lparr>dev := e\<rparr>)) = Inr d"
      unfolding km using e(2) by simp
  qed (use Cons.prems in simp_all)
  ultimately show ?case
    using Cons.prems(1) by (simp add: ev)
qed simp

lemma key_report_code:
  assumes "0 < k" "k < 0x8000"
  shows "key_report (key_code k down) = (down, uint k)"
proof -
  define M where "M = (0x8000 :: u32)"
  have m: "bit M n = (n = 15)" for n
    using bit_push_bit_iff [of 15 "1 :: u32" n] by (auto simp: M_def bit_1_iff)
  have "k AND mask 15 = k" using assms(2) by (intro less_mask_eq) simp
  then have hi: "\<not> bit k 15" by (metis bit_and_iff bit_mask_iff less_irrefl)
  have "(k OR M) XOR M = k" "k AND M = 0"
    using hi by (auto intro!: bit_word_eqI simp: bit_or_iff bit_xor_iff bit_and_iff m)
  moreover have "bit ((k OR M) AND M) 15"
    by (simp add: bit_or_iff bit_and_iff m)
  then have "(k OR M) AND M \<noteq> 0" by auto
  moreover have "uint k < 0x8000" using assms(2) by (simp add: word_less_def)
  then have "sint k = uint k"
    using order_trans [OF _ uint_ge_0 [of k], of "- 2147483648"]
    by (auto simp: sint_uint intro!: signed_take_bit_int_eq_self)
  ultimately show ?thesis
    unfolding M_def by (simp add: key_report_def key_code_def KEYDOWN_MASK_def)
qed


section \<open>Drawing\<close>

text \<open>The emulator shows a frame buffer of \<open>W\<close> by \<open>H\<close> words, one per pixel.\<close>

definition vmem_region :: "nat \<Rightarrow> nat \<Rightarrow> nat \<Rightarrow> plain_region" where
  "vmem_region W H F = Some (VMEM_ADDR, 4 * (W * H), F)"

definition am_screen_at :: "config \<Rightarrow> system \<Rightarrow> nat \<Rightarrow> nat \<Rightarrow> nat \<Rightarrow> nat \<Rightarrow> bool" where
  "am_screen_at cfg s W H V F \<longleftrightarrow>
     vgactl_port_base (dev s) = Some V \<and> vmem (dev s) = Some F \<and>
     dev_region cfg s VGACTL_ADDR 8 V None \<and> dev_region cfg s VMEM_ADDR (4 * (W * H)) F None \<and>
     (V + 8 \<le> F \<or> F + 4 * (W * H) \<le> V) \<and>
     drop_bit 16 (load_le (hget (harr s)) (hrange (A_io, V) 4)) = of_nat W"

definition am_screen :: "config \<Rightarrow> system \<Rightarrow> nat \<Rightarrow> nat \<Rightarrow> bool" where
  "am_screen cfg s W H \<longleftrightarrow> (\<exists>V F. am_screen_at cfg s W H V F)"

definition screen_pixel :: "system \<Rightarrow> nat \<Rightarrow> nat \<Rightarrow> nat \<Rightarrow> u32" where
  "screen_pixel s W i j =
     load_le (hget (harr s)) (hrange (A_io, the (vmem (dev s)) + 4 * (W * i + j)) 4)"

definition inside :: "fbdraw \<Rightarrow> nat \<Rightarrow> nat \<Rightarrow> bool" where
  "inside ctl i j \<longleftrightarrow> fb_y ctl \<le> int i \<and> int i < fb_y ctl + fb_h ctl \<and>
     fb_x ctl \<le> int j \<and> int j < fb_x ctl + fb_w ctl"

definition source_index :: "fbdraw \<Rightarrow> nat \<Rightarrow> nat \<Rightarrow> nat" where
  "source_index ctl i j = nat ((int i - fb_y ctl) * fb_w ctl + (int j - fb_x ctl))"

lemma screen_index:
  fixes i j :: nat
  assumes "i < H" "j < W"
  shows "4 * (W * i + j) + 4 \<le> 4 * (W * H)"
proof -
  have "W * i + j < W * (i + 1)" using assms(2) by simp
  also have "\<dots> \<le> W * H" using assms(1) by (intro mult_le_mono2) simp
  finally have "W * i + j + 1 \<le> W * H" by simp
  then have "4 * (W * i + j + 1) \<le> 4 * (W * H)" by (rule mult_le_mono2)
  then show ?thesis by (simp add: algebra_simps)
qed

lemma screen_index_inj:
  assumes "j < W" "j' < W" "W * i + j = W * i' + (j' :: nat)"
  shows "i = i' \<and> j = j'"
proof -
  have "(W * i + j) div W = i" "(W * i' + j') div W = i'" using assms(1,2) by simp_all
  with assms(3) show ?thesis by simp
qed

definition pixel_addr :: "nat \<Rightarrow> nat \<Rightarrow> nat \<Rightarrow> u32" where
  "pixel_addr W i j = VMEM_ADDR + of_nat (4 * (W * i + j))"

lemma pixel_addr_unat:
  assumes "dev_region cfg s VMEM_ADDR (4 * (W * H)) F None" "i < H" "j < W"
  shows "unat (pixel_addr W i j) = unat VMEM_ADDR + 4 * (W * i + j)"
  using dev_region_addr(1) [OF assms(1), of "4 * (W * i + j)"] screen_index [OF assms(2,3)]
  by (simp add: pixel_addr_def)

lemma pixel_addr_inj:
  assumes r: "dev_region cfg s VMEM_ADDR (4 * (W * H)) F None"
    and "i < H" "j < W" "i' < H" "j' < W" and eq: "pixel_addr W i j = pixel_addr W i' j'"
  shows "i = i' \<and> j = j'"
proof -
  have "W * i + j = W * i' + j'"
    using arg_cong [OF eq, of unat]
    unfolding pixel_addr_unat [OF r assms(2,3)] pixel_addr_unat [OF r assms(4,5)] by simp
  then show ?thesis using screen_index_inj assms by blast
qed

lemma pixel_word:
  assumes r: "dev_region cfg s VMEM_ADDR (4 * (W * H)) F None" and ij: "i < H" "j < W"
  shows "word_ptr cfg (vmem_region W H F) (pixel_addr W i j) = Some (A_io, F + 4 * (W * i + j))"
    and "\<not> readable_memory cfg (pixel_addr W i j)"
    and "word_writable cfg (vmem_region W H F) (pixel_addr W i j)"
proof -
  let ?k = "4 * (W * i + j)"
  have k: "?k < 4 * (W * H)" "?k + 4 \<le> 4 * (W * H)" using screen_index [OF ij] by auto
  show *: "\<not> readable_memory cfg (pixel_addr W i j)"
    using dev_region_off_memory [OF r k(1)] by (simp add: pixel_addr_def)
  have "unat (pixel_addr W i j) = 4 * (0x28400000 + (W * i + j))"
    using pixel_addr_unat [OF r ij] by simp
  then have "4 dvd unat (pixel_addr W i j)" by (metis dvd_triv_left)
  then show "word_ptr cfg (vmem_region W H F) (pixel_addr W i j) = Some (A_io, F + ?k)"
    using dev_region_addr [OF r k(1)] k(2) *
    by (simp add: word_ptr_def vmem_region_def pixel_addr_def)
  with * show "word_writable cfg (vmem_region W H F) (pixel_addr W i j)"
    by (simp add: word_writable_def)
qed

lemma memory_word_region:
  "word_readable cfg None a \<Longrightarrow> word_ptr cfg fb a = word_ptr cfg None a \<and> readable_memory cfg a"
  by (auto simp: word_readable_def word_ptr_def split: if_splits sum.splits)

text \<open>The rectangle lies on the screen, and its pixels are words of guest memory.\<close>

definition drawable :: "config \<Rightarrow> nat \<Rightarrow> nat \<Rightarrow> fbdraw \<Rightarrow> bool" where
  "drawable cfg W H ctl \<longleftrightarrow>
     0 \<le> fb_x ctl \<and> 0 \<le> fb_y ctl \<and> 0 \<le> fb_w ctl \<and> 0 \<le> fb_h ctl \<and>
     fb_x ctl + fb_w ctl \<le> int W \<and> fb_y ctl + fb_h ctl \<le> int H \<and>
     (\<forall>k < nat (fb_w ctl * fb_h ctl). word_readable cfg None (fb_pixels ctl + 4 * of_nat k))"

lemma rect_index:
  assumes "drawable cfg W H ctl" "fb_y ctl \<le> i" "i < fb_y ctl + fb_h ctl"
    "fb_x ctl \<le> j" "j < fb_x ctl + fb_w ctl"
  shows "0 \<le> i" "0 \<le> j" "nat i < H" "nat j < W"
    "0 \<le> (i - fb_y ctl) * fb_w ctl + (j - fb_x ctl)"
    "(i - fb_y ctl) * fb_w ctl + (j - fb_x ctl) < fb_w ctl * fb_h ctl"
    "fb_w ctl * fb_h ctl \<le> int (W * H)"
proof -
  show "0 \<le> i" "0 \<le> j" "nat i < H" "nat j < W"
    "0 \<le> (i - fb_y ctl) * fb_w ctl + (j - fb_x ctl)"
    using assms by (auto simp: drawable_def)
  have "(i - fb_y ctl) * fb_w ctl + (j - fb_x ctl) < (i - fb_y ctl + 1) * fb_w ctl"
    using assms(5) by (simp add: algebra_simps)
  also have "\<dots> \<le> fb_h ctl * fb_w ctl"
    using assms(1,3) by (intro mult_right_mono) (auto simp: drawable_def)
  finally show "(i - fb_y ctl) * fb_w ctl + (j - fb_x ctl) < fb_w ctl * fb_h ctl"
    by (simp add: mult.commute)
  show "fb_w ctl * fb_h ctl \<le> int (W * H)"
    unfolding of_nat_mult using assms(1) by (intro mult_mono) (auto simp: drawable_def)
qed

definition pixel_move :: "nat \<Rightarrow> fbdraw \<Rightarrow> int \<times> int \<Rightarrow> u32 \<times> u32" where
  "pixel_move W ctl = (\<lambda>(i, j). (pixel_addr W (nat i) (nat j),
     fb_pixels ctl + 4 * of_nat (source_index ctl (nat i) (nat j))))"

definition rectangle :: "fbdraw \<Rightarrow> (int \<times> int) list" where
  "rectangle ctl = List.product [fb_y ctl..fb_y ctl + fb_h ctl - 1] [fb_x ctl..fb_x ctl + fb_w ctl - 1]"

lemma set_rectangle: "(i, j) \<in> set (rectangle ctl) \<longleftrightarrow>
    fb_y ctl \<le> i \<and> i < fb_y ctl + fb_h ctl \<and> fb_x ctl \<le> j \<and> j < fb_x ctl + fb_w ctl"
  by (auto simp: rectangle_def)

lemma draw_pixel_move:
  assumes d: "drawable cfg W H ctl" and ij: "(i, j) \<in> set (rectangle ctl)" and "W * H < 2 ^ 31"
  shows "draw_pixel cfg ctl (of_nat W) (i, j) s =
    (case pixel_move W ctl (i, j) of (d, a) \<Rightarrow> bindR (inl cfg a s) (\<lambda>(w, t). outl cfg d w t))"
proof -
  let ?k = "(i - fb_y ctl) * fb_w ctl + (j - fb_x ctl)"
  note r = rect_index [OF d, of i j]
  have k: "0 \<le> ?k" "0 \<le> i" "0 \<le> j" and kb: "?k < int (W * H)"
    using r ij by (auto simp: set_rectangle)
  have "int (W * H) < 2 ^ 31"
    using assms(3) by (metis of_nat_less_iff of_nat_numeral of_nat_power)
  with kb have "?k < 2 ^ 31" by (rule less_trans)
  then have "c_int ?k = Inr ?k" using k(1) by (simp add: c_int_def)
  moreover have "(of_int ?k :: u32) = of_nat (source_index ctl (nat i) (nat j))"
    using k by (simp add: source_index_def)
  moreover have "VMEM_ADDR + 4 * (of_nat W * of_int i + of_int j) = pixel_addr W (nat i) (nat j)"
    using k(2,3) by (simp add: pixel_addr_def)
  ultimately show ?thesis
    by (simp add: draw_pixel_def pixel_move_def)
qed

lemma foldR_map_cong:
  "(\<And>x s. x \<in> set xs \<Longrightarrow> f x s = g (h x) s) \<Longrightarrow> foldR f xs s = foldR g (map h xs) s"
  by (induction xs arbitrary: s) (auto intro!: bindR_cong)

lemma memory_word_at: "word_readable cfg None a \<Longrightarrow> word_at cfg fb s a = word_at cfg None s a"
  using memory_word_region [of cfg a fb] unfolding word_at_def by simp

lemma pixel_move_word:
  assumes d: "drawable cfg W H ctl" and "(i, j) \<in> set (rectangle ctl)"
  shows "word_readable cfg None (snd (pixel_move W ctl (i, j)))"
proof -
  have "source_index ctl (nat i) (nat j) < nat (fb_w ctl * fb_h ctl)"
    using rect_index [OF d, of i j] assms(2) by (simp add: set_rectangle source_index_def)
  with d show ?thesis by (simp add: drawable_def pixel_move_def)
qed

lemma draw_rectangle:
  assumes f: "plain_frame cfg (vmem_region W H F) s0 s" and d: "drawable cfg W H ctl"
  shows "\<exists>t. foldR (draw_pixel cfg ctl (of_nat W)) (rectangle ctl) s = Inr t \<and>
    plain_frame cfg (vmem_region W H F) s0 t \<and>
    (\<forall>i < H. \<forall>j < W. word_at cfg (vmem_region W H F) t (pixel_addr W i j) =
      (if inside ctl i j then word_at cfg None s (fb_pixels ctl + 4 * of_nat (source_index ctl i j))
       else word_at cfg (vmem_region W H F) s (pixel_addr W i j)))"
proof -
  let ?fb = "vmem_region W H F" and ?R = "rectangle ctl" and ?m = "pixel_move W ctl"
  have r: "dev_region cfg s VMEM_ADDR (4 * (W * H)) F None"
    using plain_region_ok f unfolding vmem_region_def by blast
  have io: "F + 4 * (W * H) \<le> IO_SPACE_MAX" using r by (simp add: dev_region_def)
  then have "W * H < 2 ^ 31" by (simp add: IO_SPACE_MAX_def)
  note step = draw_pixel_move [OF d _ this]
  have inR: "nat i < H \<and> nat j < W \<and> 0 \<le> i \<and> 0 \<le> j" if "(i, j) \<in> set ?R" for i j
    using rect_index [OF d, of i j] that by (auto simp: set_rectangle)
  have wr: "word_writable cfg ?fb (fst (?m x)) \<and> word_readable cfg ?fb (snd (?m x)) \<and>
      \<not> readable_memory cfg (fst (?m x)) \<and> readable_memory cfg (snd (?m x))" if "x \<in> set ?R" for x
  proof -
    obtain i j where x: "x = (i, j)" by (cases x)
    have "word_readable cfg None (snd (?m x))" using pixel_move_word [OF d] that by (simp add: x)
    then have "word_readable cfg ?fb (snd (?m x)) \<and> readable_memory cfg (snd (?m x))"
      using memory_word_region [of cfg _ ?fb] unfolding word_readable_def by auto
    with inR pixel_word [OF r, of "nat i" "nat j"] that show ?thesis
      by (simp add: x pixel_move_def)
  qed
  have inj: "inj_on (fst \<circ> ?m) (set ?R)"
  proof (rule inj_onI, clarsimp simp: pixel_move_def)
    fix i j i' j' assume R: "(i, j) \<in> set ?R" "(i', j') \<in> set ?R"
      and eq: "pixel_addr W (nat i) (nat j) = pixel_addr W (nat i') (nat j')"
    have "nat i = nat i' \<and> nat j = nat j'"
      using pixel_addr_inj [OF r _ _ _ _ eq] inR [OF R(1)] inR [OF R(2)] by blast
    then show "i = i' \<and> j = j'" using inR [OF R(1)] inR [OF R(2)] by auto
  qed
  have dist: "distinct (map fst (map ?m ?R))"
    using inj by (simp add: distinct_map rectangle_def distinct_product)
  have "fst (?m x) \<noteq> snd (?m y)" if "x \<in> set ?R" "y \<in> set ?R" for x y
    using wr [OF that(1)] wr [OF that(2)] by metis
  then have disj: "fst ` set (map ?m ?R) \<inter> snd ` set (map ?m ?R) = {}"
    by (auto simp: image_iff)
  have "word_writable cfg ?fb (fst y) \<and> word_readable cfg ?fb (snd y)"
    if "y \<in> set (map ?m ?R)" for y
    using that wr by (simp only: set_map) blast
  then have "\<forall>(a, b) \<in> set (map ?m ?R). word_writable cfg ?fb a \<and> word_readable cfg ?fb b"
    unfolding split_beta by blast
  from guest.copy_all [OF f this dist disj] obtain t where
    t: "foldR (\<lambda>(d, a) s. bindR (inl cfg a s) (\<lambda>(w, t). outl cfg d w t)) (map ?m ?R) s = Inr t"
      "plain_frame cfg ?fb s0 t" "\<forall>(a, b) \<in> set (map ?m ?R). word_at cfg ?fb t a = word_at cfg ?fb s b"
      "\<forall>b. word_readable cfg ?fb b \<longrightarrow> b \<notin> fst ` set (map ?m ?R) \<longrightarrow>
        word_at cfg ?fb t b = word_at cfg ?fb s b"
    by blast
  have "foldR (draw_pixel cfg ctl (of_nat W)) ?R s = Inr t"
    unfolding t(1) [symmetric]
    by (rule foldR_map_cong) (simp only: split_paired_all step split_beta)
  moreover have "word_at cfg ?fb t (pixel_addr W i j) = (if inside ctl i j
      then word_at cfg None s (fb_pixels ctl + 4 * of_nat (source_index ctl i j))
      else word_at cfg ?fb s (pixel_addr W i j))" if ij: "i < H" "j < W" for i j
  proof (cases "inside ctl i j")
    case True
    then have R: "(int i, int j) \<in> set ?R" by (simp add: inside_def set_rectangle)
    then have "?m (int i, int j) \<in> set (map ?m ?R)" by simp
    with t(3) have "word_at cfg ?fb t (pixel_addr W i j) =
        word_at cfg ?fb s (snd (?m (int i, int j)))"
      by (fastforce simp: pixel_move_def)
    with True memory_word_at [OF pixel_move_word [OF d R]] show ?thesis
      by (simp add: pixel_move_def)
  next
    case False
    have "pixel_addr W i j \<noteq> fst (?m (a, b))" if R: "(a, b) \<in> set ?R" for a b
    proof
      assume "pixel_addr W i j = fst (?m (a, b))"
      then have eq: "pixel_addr W i j = pixel_addr W (nat a) (nat b)"
        by (simp add: pixel_move_def)
      then have "i = nat a \<and> j = nat b"
        using pixel_addr_inj [OF r ij _ _ eq] inR [OF R] by blast
      then have "a = int i" "b = int j" using inR [OF R] by auto
      with R False show False by (simp add: inside_def set_rectangle)
    qed
    then have "pixel_addr W i j \<notin> fst ` set (map ?m ?R)" by (auto simp: image_iff)
    with t(4) False pixel_word [OF r ij] show ?thesis
      by (simp add: word_readable_def)
  qed
  ultimately show ?thesis using t(2) by blast
qed

lemma screen_pixel_word:
  assumes "am_screen_at cfg s W H V F" "i < H" "j < W" "vmem (dev t) = vmem (dev s)"
  shows "screen_pixel t W i j = word_at cfg (vmem_region W H F) t (pixel_addr W i j)"
  using pixel_word(1) [of cfg s W H F i j] assms
  by (simp add: am_screen_at_def screen_pixel_def word_at_def)

lemma screen_setup:
  assumes "am_screen_at cfg s W H V F"
  shows "inl cfg VGACTL_ADDR s = Inr (load_le (hget (harr s)) (hrange (A_io, V) 4), difftest_skip_ref cfg s)"
    and "plain_frame cfg (vmem_region W H F) s s" and "0 < W" "H < 2 ^ 31" "W < 2 ^ 31"
proof -
  have r: "dev_region cfg s VGACTL_ADDR 8 V None" "dev_region cfg s VMEM_ADDR (4 * (W * H)) F None"
    using assms by (simp_all add: am_screen_at_def)
  show "inl cfg VGACTL_ADDR s = Inr (load_le (hget (harr s)) (hrange (A_io, V) 4), difftest_skip_ref cfg s)"
    using dev_read [OF r(1), of 0 4] by (simp add: inl_def invoke_callback_def)
  show "plain_frame cfg (vmem_region W H F) s s"
    using r(2) by (simp add: plain_frame_def vmem_region_def)
  have WH: "0 < W * H" "W * H < 2 ^ 31" using r(2) by (auto simp: dev_region_def IO_SPACE_MAX_def)
  then show "0 < W" by simp
  have "H \<le> W * H" "W \<le> W * H" using WH(1) by simp_all
  with WH(2) show "H < 2 ^ 31" "W < 2 ^ 31" using le_less_trans by blast+
qed

lemma screen_frame:
  assumes sc: "am_screen_at cfg s W H V F" and f: "plain_frame cfg (vmem_region W H F) s t"
  shows "am_screen_at cfg t W H V F"
proof -
  have eq: "harr t A_io i = harr s A_io i" if "i < F \<or> F + 4 * (W * H) \<le> i" for i
    using f that by (auto simp: plain_frame_def vmem_region_def)
  have apart: "V + 8 \<le> F \<or> F + 4 * (W * H) \<le> V" using sc by (simp add: am_screen_at_def)
  have "load_le (hget (harr t)) (hrange (A_io, V) 4) = load_le (hget (harr s)) (hrange (A_io, V) 4)"
  proof (rule load_le_cong)
    fix q assume "q \<in> set (hrange (A_io, V) 4)"
    then obtain i where "q = (A_io, V + i)" "i < 4" by (auto simp: hrange.simps)
    with eq [of "V + i"] apart show "hget (harr t) q = hget (harr s) q" by auto
  qed
  with sc f dev_region_frame [of t s cfg] plain_frame_maps [OF f] show ?thesis
    by (simp add: am_screen_at_def plain_frame_def)
qed

text \<open>Raising the sync register: the next poll of the emulator shows the frame.\<close>

lemma screen_sync:
  assumes sc: "am_screen_at cfg s W H V F"
  shows "\<exists>t u. outl cfg (VGACTL_ADDR + 4) 1 s = Inr t \<and> am_screen_at cfg t W H V F \<and>
    (\<forall>i < H. \<forall>j < W. screen_pixel t W i j = screen_pixel s W i j) \<and>
    vga_update_screen cfg t = Inr u \<and> frames (dev u) = Suc (frames (dev s)) \<and>
    dev t = dev s \<and> io_frame (V + 4) 4 s t"
proof -
  have r: "dev_region cfg s VGACTL_ADDR 8 V None" and apart: "V + 8 \<le> F \<or> F + 4 * (W * H) \<le> V"
    and b: "vgactl_port_base (dev s) = Some V" using sc by (simp_all add: am_screen_at_def)
  let ?h = "store_le hput (hrange (A_io, V + 4) 4) 1 (harr s)"
  let ?t = "(difftest_skip_ref cfg s)\<lparr>harr := ?h\<rparr>"
  have t: "outl cfg (VGACTL_ADDR + 4) 1 s = Inr ?t"
    using dev_write [OF r, of 4 4] by (simp add: outl_def invoke_callback_def)
  have keep: "load_le (hget ?h) (hrange (A_io, q) 4) = load_le (hget (harr s)) (hrange (A_io, q) 4)"
    if "q + 4 \<le> V + 4 \<or> V + 8 \<le> q" for q
    using that host.load_store_disjoint [of "hrange (A_io, V + 4) 4" "hrange (A_io, q) 4" 1 "harr s"]
      hrange_disjoint [of q 4 "V + 4" A_io 4] hrange_disjoint [of "V + 4" 4 q A_io 4]
    by (auto simp: Int_commute)
  have sc': "am_screen_at cfg ?t W H V F"
    using sc keep [of V] dev_region_frame [of ?t s cfg] by (simp add: am_screen_at_def)
  have "screen_pixel ?t W i j = screen_pixel s W i j" if "i < H" "j < W" for i j
    using keep [of "F + 4 * (W * i + j)"] apart screen_index [OF that] sc
    by (auto simp: screen_pixel_def am_screen_at_def)
  moreover have "\<exists>u. vga_update_screen cfg ?t = Inr u \<and> frames (dev u) = Suc (frames (dev s))"
    using r b by (simp add: vga_update_screen_def reg_load_io reg_store_io dev_region_def
        update_screen_def host.load_store)
  moreover have "dev ?t = dev s" "io_frame (V + 4) 4 s ?t" by (auto simp: io_frame_def io_frame_store)
  ultimately show ?thesis using t sc' by blast
qed

lemma comprehension_product: "concat (map (\<lambda>i. map (\<lambda>j. (i, j)) ys) xs) = List.product xs ys"
  by (induction xs) auto

text \<open>Drawing, up to raising the sync register.\<close>

lemma fbdraw_run:
  assumes scr: "am_screen_at cfg s W H V F" and d: "drawable cfg W H ctl"
  shows "\<exists>t. ioe_write cfg (ioe_init lut) 11 (GPU_FBDRAW_T ctl) s =
      bindR (if fb_sync ctl then outl cfg (VGACTL_ADDR + 4) 1 t else Inr t) (\<lambda>u. Inr (GPU_FBDRAW_T ctl, u)) \<and>
    plain_frame cfg (vmem_region W H F) s t \<and> am_screen_at cfg t W H V F \<and>
    (\<forall>i < H. \<forall>j < W. screen_pixel t W i j =
      (if inside ctl i j then word_at cfg None s (fb_pixels ctl + 4 * of_nat (source_index ctl i j))
       else screen_pixel s W i j))"
proof -
  note ini = screen_setup [OF scr]
  let ?s = "difftest_skip_ref cfg s" and ?fb = "vmem_region W H F"
  obtain t where t: "foldR (draw_pixel cfg ctl (of_nat W)) (rectangle ctl) ?s = Inr t"
    "plain_frame cfg ?fb s t" "\<forall>i < H. \<forall>j < W. word_at cfg ?fb t (pixel_addr W i j) =
      (if inside ctl i j then word_at cfg None ?s (fb_pixels ctl + 4 * of_nat (source_index ctl i j))
       else word_at cfg ?fb ?s (pixel_addr W i j))"
    using draw_rectangle [of cfg W H F s ?s ctl] ini(2) d by auto
  have same: "word_at cfg fb ?s = word_at cfg fb s" for fb by (rule word_at_cong) simp
  have scr': "am_screen_at cfg t W H V F" using screen_frame [OF scr t(2)] .
  have dev: "dev t = dev s" using t(2) by (simp add: plain_frame_def)
  have px: "screen_pixel t W i j = (if inside ctl i j
      then word_at cfg None s (fb_pixels ctl + 4 * of_nat (source_index ctl i j)) else screen_pixel s W i j)"
    if "i < H" "j < W" for i j
    using t(3) that screen_pixel_word [OF scr that, of t] screen_pixel_word [OF scr that, of s] dev
    by (simp add: same)
  have W: "drop_bit 16 (load_le (hget (harr s)) (hrange (A_io, V) 4)) = of_nat W"
    using scr by (simp add: am_screen_at_def)
  have fits: "c_int (fb_y ctl + fb_h ctl) = Inr (fb_y ctl + fb_h ctl)"
      "c_int (fb_x ctl + fb_w ctl) = Inr (fb_x ctl + fb_w ctl)"
    using d ini(4,5) by (auto simp: c_int_def drawable_def)
  show ?thesis
  proof (cases "\<not> fb_sync ctl \<and> fb_w ctl = 0 \<and> fb_h ctl = 0")
    case True
    then have "am_gpu_fbdraw cfg ctl s = Inr s" by (simp add: am_gpu_fbdraw_def)
    with True scr ini(2) show ?thesis
      by (intro exI [of _ s])
        (auto simp: ioe_write_def ioe_read_def ioe_init_def lut_def gpu_fbdraw_handler_def inside_def)
  next
    case False
    have "foldR (draw_pixel cfg ctl (of_nat W)) (List.product [fb_y ctl..fb_y ctl + fb_h ctl - 1]
        [fb_x ctl..(if fb_y ctl < fb_y ctl + fb_h ctl then fb_x ctl + fb_w ctl else fb_x ctl) - 1]) ?s = Inr t"
      using t(1) by (auto simp: rectangle_def)
    then have "am_gpu_fbdraw cfg ctl s = (if fb_sync ctl then outl cfg (VGACTL_ADDR + 4) 1 t else Inr t)"
      using False fits ini(1) W
      by (auto simp: am_gpu_fbdraw_def Let_def comprehension_product split: if_split_asm)
    then have "ioe_write cfg (ioe_init lut) 11 (GPU_FBDRAW_T ctl) s =
        bindR (if fb_sync ctl then outl cfg (VGACTL_ADDR + 4) 1 t else Inr t) (\<lambda>u. Inr (GPU_FBDRAW_T ctl, u))"
      by (simp add: ioe_write_def ioe_read_def ioe_init_def lut_def gpu_fbdraw_handler_def)
    with t(2) scr' px show ?thesis by blast
  qed
qed

text \<open>C25: A rectangle drawn through the frame-buffer register covers exactly its pixels: each
  takes the colour of its word in the program's buffer, every other pixel keeps its colour,
  and with the sync flag the emulator's next poll shows the frame.\<close>

theorem am_fbdraw_paints_rectangle:
  assumes sc: "am_screen cfg s W H" and d: "drawable cfg W H ctl"
  shows "\<exists>t. ioe_write cfg (ioe_init lut) 11 (GPU_FBDRAW_T ctl) s = Inr (GPU_FBDRAW_T ctl, t) \<and>
    am_screen cfg t W H \<and>
    (\<forall>i < H. \<forall>j < W. screen_pixel t W i j =
      (if inside ctl i j then word_at cfg None s (fb_pixels ctl + 4 * of_nat (source_index ctl i j))
       else screen_pixel s W i j)) \<and>
    (fb_sync ctl \<longrightarrow> (\<exists>u. vga_update_screen cfg t = Inr u \<and>
      frames (dev u) = Suc (frames (dev s))))"
proof -
  obtain V F where scr: "am_screen_at cfg s W H V F" using sc by (auto simp: am_screen_def)
  obtain t where t: "ioe_write cfg (ioe_init lut) 11 (GPU_FBDRAW_T ctl) s =
      bindR (if fb_sync ctl then outl cfg (VGACTL_ADDR + 4) 1 t else Inr t) (\<lambda>u. Inr (GPU_FBDRAW_T ctl, u))"
    "plain_frame cfg (vmem_region W H F) s t" "am_screen_at cfg t W H V F"
    "\<forall>i < H. \<forall>j < W. screen_pixel t W i j = (if inside ctl i j
      then word_at cfg None s (fb_pixels ctl + 4 * of_nat (source_index ctl i j)) else screen_pixel s W i j)"
    using fbdraw_run [OF scr d] by blast
  obtain u v where u: "outl cfg (VGACTL_ADDR + 4) 1 t = Inr u" "am_screen_at cfg u W H V F"
    "\<forall>i < H. \<forall>j < W. screen_pixel u W i j = screen_pixel t W i j"
    "vga_update_screen cfg u = Inr v" "frames (dev v) = Suc (frames (dev t))"
    using screen_sync [OF t(3)] by blast
  have dev: "dev t = dev s" using t(2) by (simp add: plain_frame_def)
  show ?thesis
    using t(1,3,4) u dev by (intro exI [of _ "if fb_sync ctl then u else t"]) (auto simp: am_screen_def)
qed

section \<open>Serial port\<close>

definition am_serial :: "config \<Rightarrow> system \<Rightarrow> bool" where
  "am_serial cfg s \<longleftrightarrow> (\<exists>p. serial_base (dev s) = Some p \<and> dev_region cfg s SERIAL_ADDR 8 p (Some Serial_io))"

lemma load_le_byte: "load_le (hget (store_le hput (hrange (A_io, p) (Suc 0)) (ucast (c :: u8)) h))
    (hrange (A_io, p) (Suc 0)) = ucast c"
proof -
  have "take_bit 8 (ucast c :: u32) = ucast c"
    by (rule bit_word_eqI) (auto simp: bit_take_bit_iff bit_ucast_iff dest: bit_imp_le_length)
  then show ?thesis by (simp add: host.load_store)
qed

lemma byte_of_ucast: "(ucast (ucast c :: u32) :: u8) = c"
  by (rule bit_word_eqI) (auto simp: bit_ucast_iff)

lemma putch_step:
  assumes "am_serial cfg s"
  shows "\<exists>t. putch cfg c s = Inr t \<and> host_stderr (dev t) = host_stderr (dev s) @ [c] \<and> am_serial cfg t"
proof -
  obtain p where p: "serial_base (dev s) = Some p" and r: "dev_region cfg s SERIAL_ADDR 8 p (Some Serial_io)"
    using assms by (auto simp: am_serial_def)
  let ?s = "(difftest_skip_ref cfg s)\<lparr>harr := store_le hput (hrange (A_io, p) (Suc 0)) (ucast c) (harr s)\<rparr>"
  have sp: "p < IO_SPACE_MAX" using r by (simp add: dev_region_def)
  have "putch cfg c s = Inr (serial_putc c ?s)"
    using dev_write [OF r, of 0 1 "ucast c"] p sp byte_of_ucast [of c]
    by (simp add: putch_def outb_def invoke_callback_def serial_io_handler_def reg_load_io load_le_byte)
  moreover have "am_serial cfg (serial_putc c ?s)"
    using p r dev_region_frame [of "serial_putc c ?s" s cfg] by (simp add: am_serial_def serial_putc_def)
  ultimately show ?thesis by (simp add: serial_putc_def)
qed

lemma putch_string:
  "am_serial cfg s \<Longrightarrow> \<exists>t. foldR (putch cfg) cs s = Inr t \<and>
   host_stderr (dev t) = host_stderr (dev s) @ cs \<and> am_serial cfg t"
proof (induction cs arbitrary: s)
  case (Cons c cs)
  obtain t where t: "putch cfg c s = Inr t" "host_stderr (dev t) = host_stderr (dev s) @ [c]"
    "am_serial cfg t" using putch_step [OF Cons.prems] by blast
  with Cons.IH [OF t(3)] show ?case by auto
qed simp

section \<open>The register table\<close>

text \<open>The buffer that belongs to a register, by its number in \<open>amdev.h\<close>.\<close>

fun buf_register :: "am_buf \<Rightarrow> nat" where
  "buf_register (UART_CONFIG_T p) = 1"
| "buf_register (UART_TX_T c) = 2"
| "buf_register (UART_RX_T c) = 3"
| "buf_register (TIMER_CONFIG_T p h) = 4"
| "buf_register (TIMER_RTC_T a b c d e f) = 5"
| "buf_register (TIMER_UPTIME_T u) = 6"
| "buf_register (INPUT_CONFIG_T p) = 7"
| "buf_register (INPUT_KEYBRD_T k c) = 8"
| "buf_register (GPU_CONFIG_T p a w h v) = 9"
| "buf_register (GPU_STATUS_T r) = 10"
| "buf_register (GPU_FBDRAW_T c) = 11"
| "buf_register (AUDIO_CONFIG_T p b) = 14"
| "buf_register (AUDIO_CTRL_T f c n) = 15"
| "buf_register (AUDIO_STATUS_T n) = 16"
| "buf_register (AUDIO_PLAY_T a b) = 17"
| "buf_register (DISK_CONFIG_T p a b) = 18"
| "buf_register (DISK_STATUS_T r) = 19"
| "buf_register (DISK_BLKIO_T w b n c) = 20"
| "buf_register (NET_CONFIG_T p) = 21"

lemma lut_entries:
  assumes "reg < 128"
  shows "ioe_init lut ! reg = (case lut ! reg of None \<Rightarrow> Some H_fail | Some h \<Rightarrow> Some h)" "length (ioe_init lut) = 128"
proof -
  have l: "length lut = 128" by (simp add: lut_def)
  then show "length (ioe_init lut) = 128" by (simp add: ioe_init_def)
  show "ioe_init lut ! reg = (case lut ! reg of None \<Rightarrow> Some H_fail | Some h \<Rightarrow> Some h)"
    using assms l by (simp add: ioe_init_def)
qed

lemma run_handler_register:
  "run_handler cfg h buf s = Inr (buf', t) \<Longrightarrow> lut ! buf_register buf = Some h \<Longrightarrow> buf_register buf' = buf_register buf"
  by (cases buf; cases h)
    (auto simp: lut_def am_timer_rtc_def am_timer_uptime_def am_input_keybrd_def am_gpu_config_def
      gpu_fbdraw_handler_def am_gpu_status_def am_audio_config_def am_audio_status_def am_disk_config_def
      am_no_op_def result_simps nth_Cons split: if_splits)

text \<open>C39: After \<open>ioe_init\<close> every register number below 128 has a driver or the one that panics: a
  register of the table gives back a buffer of its own type, any other one stops the program
  with the panic of \<open>fail\<close>.\<close>

theorem ioe_register_types:
  assumes "reg < 128"
  shows "if lut ! reg = None then ioe_read cfg (ioe_init lut) (int reg) buf s = Inl (Panicked ''access nonexist register'')
    else (\<forall>buf' t. buf_register buf = reg \<longrightarrow> ioe_read cfg (ioe_init lut) (int reg) buf s = Inr (buf', t) \<longrightarrow>
      buf_register buf' = reg)"
proof (cases "lut ! reg")
  case None
  with assms lut_entries [OF assms] show ?thesis by (simp add: ioe_read_def)
next
  case (Some h)
  with assms lut_entries [OF assms] run_handler_register [of cfg h buf s] show ?thesis
    by (auto simp: ioe_read_def)
qed

lemma ioe_register_types_witness:
  "ioe_read native_config (ioe_init lut) 2 (UART_CONFIG_T True) (system0 (\<lambda>_. 0)) =
     Inl (Panicked ''access nonexist register'') \<and>
   (\<exists>b t. ioe_read native_config (ioe_init lut) 16 (AUDIO_STATUS_T 7) (system0 (\<lambda>_. 0)) = Inr (b, t) \<and>
     buf_register b = 16)"
proof -
  have "ioe_init lut ! 16 = Some H_audio_status" "length (ioe_init lut) = 128"
    using lut_entries [of 16] by (simp_all add: lut_def)
  then have "ioe_read native_config (ioe_init lut) (int 16) (AUDIO_STATUS_T 7) (system0 (\<lambda>_. 0)) =
      Inr (AUDIO_STATUS_T 0, system0 (\<lambda>_. 0))"
    by (simp add: ioe_read_def am_audio_status_def)
  with ioe_register_types [of 2 native_config "UART_CONFIG_T True" "system0 (\<lambda>_. 0)"]
    ioe_register_types [of 16 native_config "AUDIO_STATUS_T 7" "system0 (\<lambda>_. 0)"]
  show ?thesis by (auto simp: lut_def)
qed

section \<open>The native machine\<close>

lemma native_off_memory:
  "0xa0000000 \<le> a \<Longrightarrow> \<not> readable_memory native_config a \<and> \<not> writable_memory native_config a"
proof -
  assume a: "0xa0000000 \<le> a"
  then have "0x80000000 \<le> a" by (rule order_trans [rotated]) simp
  with a have "0x8000000 \<le> a - 0x80000000"
    by (simp add: word_le_nat_alt unat_sub)
  then show ?thesis
    by (simp add: readable_memory_def writable_memory_def in_pmem_def native_config_def not_less)
qed

lemma native_bases:
  "\<exists>t. init_device native_config (native_dev_config sc) (system0 clk) = Inr t \<and>
     map (\<lambda>m. (map_low m, map_high m, map_space m, map_callback m)) (mmio_maps t) =
       [(SERIAL_ADDR, 0xa00003ff, 0, Some Serial_io), (RTC_ADDR, 0xa000004f, 0x1000, Some Rtc_io),
        (VGACTL_ADDR, 0xa0000107, 0x2000, None), (VMEM_ADDR, 0xa10752ff, 0x3000, None),
        (KBD_ADDR, 0xa0000063, 0x79000, Some I8042_io), (0xa0000200, 0xa0000217, 0x7a000, Some Audio_io),
        (0xa1200000, 0xa120ffff, 0x7b000, None)] \<and>
     serial_base (dev t) = Some 0 \<and> rtc_port_base (dev t) = Some 0x1000 \<and>
     vgactl_port_base (dev t) = Some 0x2000 \<and> vmem (dev t) = Some 0x3000 \<and>
     i8042_data_port_base (dev t) = Some 0x79000 \<and> key_f (dev t) = 0 \<and> key_r (dev t) = 0 \<and>
     keymap (dev t) = init_keymap_from sc nemu_keys 1 (\<lambda>_. 0) \<and> boot_time (dev t) = 0 \<and>
     host_clock (dev t) = clk \<and> clock_reads (dev t) = 0 \<and> host_stderr (dev t) = [] \<and>
     load_le (hget (harr t)) (hrange (A_io, 0x2000) 4) = push_bit 16 400 OR 300"
  apply (simp add: init_device_defs native_defs new_space_eval Let_def in_pmem_def NR_MAP_def
      IO_SPACE_MAX_def reg_store_io MAX_HANDLER_def assertR_def)
  apply (subst host.load_store_disjoint)
   apply (auto simp: hrange.simps) []
  apply (simp add: hrange.simps upt_rec)
  done

lemma native_dev_region:
  assumes "maps_ok (mmio_maps t)"
    and "(lo, lo + of_nat (n - 1), sp, c) \<in>
      set (map (\<lambda>m. (map_low m, map_high m, map_space m, map_callback m)) (mmio_maps t))"
    and "0xa0000000 \<le> lo" "0 < n" "sp + n \<le> IO_SPACE_MAX" "unat lo + n \<le> 2 ^ 32"
  shows "dev_region native_config t lo n sp c"
proof -
  have "\<exists>m \<in> set (mmio_maps t). map_low m = lo \<and> map_high m = lo + of_nat (n - 1) \<and>
      map_space m = sp \<and> map_callback m = c"
    using assms(2) by auto
  moreover have "\<not> readable_memory native_config a \<and> \<not> writable_memory native_config a" if "lo \<le> a" for a
    using native_off_memory order_trans [OF assms(3) that] by blast
  ultimately show ?thesis
    using assms by (simp add: dev_region_def) (simp add: native_config_def)
qed

lemma native_machine:
  "\<exists>t. init_device native_config (native_dev_config sc) (system0 clk) = Inr t \<and>
     am_clock native_config t \<and> am_keyboard native_config t \<and> am_screen native_config t 400 300 \<and>
     am_serial native_config t \<and> key_items (dev t) = [] \<and> host_stderr (dev t) = [] \<and>
     keymap (dev t) = init_keymap_from sc nemu_keys 1 (\<lambda>_. 0) \<and> host_clock (dev t) = clk \<and>
     boot_known (dev t)"
proof -
  obtain t where t: "init_device native_config (native_dev_config sc) (system0 clk) = Inr t"
    and m: "map (\<lambda>m. (map_low m, map_high m, map_space m, map_callback m)) (mmio_maps t) =
       [(SERIAL_ADDR, 0xa00003ff, 0, Some Serial_io), (RTC_ADDR, 0xa000004f, 0x1000, Some Rtc_io),
        (VGACTL_ADDR, 0xa0000107, 0x2000, None), (VMEM_ADDR, 0xa10752ff, 0x3000, None),
        (KBD_ADDR, 0xa0000063, 0x79000, Some I8042_io), (0xa0000200, 0xa0000217, 0x7a000, Some Audio_io),
        (0xa1200000, 0xa120ffff, 0x7b000, None)]"
    and b: "serial_base (dev t) = Some 0" "rtc_port_base (dev t) = Some 0x1000"
      "vgactl_port_base (dev t) = Some 0x2000" "vmem (dev t) = Some 0x3000"
      "i8042_data_port_base (dev t) = Some 0x79000" "key_f (dev t) = 0" "key_r (dev t) = 0"
      "boot_time (dev t) = 0"
    and rest: "keymap (dev t) = init_keymap_from sc nemu_keys 1 (\<lambda>_. 0)" "host_clock (dev t) = clk"
      "host_stderr (dev t) = []" "load_le (hget (harr t)) (hrange (A_io, 0x2000) 4) = push_bit 16 400 OR 300"
    using native_bases [of sc clk] by metis
  have ok: "maps_ok (mmio_maps t)"
    using init_device_maps_ok [OF t] by (simp add: system0_def maps_ok_def)
  note reg = native_dev_region [OF ok, unfolded m]
  have "am_clock native_config t"
    using reg [of RTC_ADDR 8 "0x1000" "Some Rtc_io"] b by (simp add: am_clock_def IO_SPACE_MAX_def)
  moreover have "am_serial native_config t"
    using reg [of SERIAL_ADDR 8 0 "Some Serial_io"] b by (simp add: am_serial_def IO_SPACE_MAX_def)
  moreover have "am_keyboard native_config t"
    using reg [of KBD_ADDR 4 "0x79000" "Some I8042_io"] b
    by (simp add: am_keyboard_def key_ok_def KEY_QUEUE_LEN_def IO_SPACE_MAX_def)
  moreover have "key_items (dev t) = []"
    using b by (simp add: key_items_def key_count_def)
  moreover have "am_screen_at native_config t 400 300 0x2000 0x3000"
    using reg [of VGACTL_ADDR 8 "0x2000" None] reg [of VMEM_ADDR 480000 "0x3000" None] b rest(4)
    by (simp add: am_screen_at_def IO_SPACE_MAX_def)
  then have "am_screen native_config t 400 300" by (auto simp: am_screen_def)
  moreover have "boot_known (dev t)" using b by (simp add: boot_known_def)
  ultimately show ?thesis using t rest by blast
qed

lemma am_uptime_never_goes_back_witness:
  "\<exists>t us u. init_device native_config (native_dev_config (\<lambda>_. 0))
       (system0 (\<lambda>i. if i < 3 then 100 else 250)) = Inr t \<and>
     uptimes native_config 3 t = Inr (us, u) \<and> length us = 3 \<and> sorted us"
proof -
  let ?clk = "\<lambda>i :: nat. if i < 3 then 100 else 250 :: u64"
  obtain t where t: "init_device native_config (native_dev_config (\<lambda>_. 0)) (system0 ?clk) = Inr t"
    "am_clock native_config t" "host_clock (dev t) = ?clk" "boot_known (dev t)"
    using native_machine [of "\<lambda>_. 0" ?clk] by blast
  have "clock_forward (host_clock (dev t))" unfolding t(3) by (simp add: clock_forward_def)
  with t am_uptime_never_goes_back [of native_config t 3] show ?thesis by blast
qed

definition one_key :: "string \<Rightarrow> u8" where
  "one_key k = (if k = ''A'' then 4 else 0)"

lemma one_key_code: "init_keymap_from one_key nemu_keys (Suc 0) (\<lambda>_. 0) 4 = 43"
  by (simp add: nemu_keys_def one_key_def)


definition two_pixels :: fbdraw where
  "two_pixels = \<lparr>fb_x = 10, fb_y = 20, fb_pixels = 0x80001000, fb_w = 2, fb_h = 1, fb_sync = True\<rparr>"

lemma am_fbdraw_paints_rectangle_witness:
  "\<exists>t u v. init_device native_config (native_dev_config (\<lambda>_. 0)) (system0 (\<lambda>_. 1)) = Inr t \<and>
     ioe_write native_config (ioe_init lut) 11 (GPU_FBDRAW_T two_pixels) t =
       Inr (GPU_FBDRAW_T two_pixels, u) \<and>
     screen_pixel u 400 20 11 = word_at native_config None t 0x80001004 \<and>
     screen_pixel u 400 20 12 = screen_pixel t 400 20 12 \<and> vga_update_screen native_config u = Inr v"
proof -
  obtain t where t: "init_device native_config (native_dev_config (\<lambda>_. 0)) (system0 (\<lambda>_. 1)) = Inr t"
    "am_screen native_config t 400 300" using native_machine [of "\<lambda>_. 0" "\<lambda>_. 1"] by blast
  have "word_readable native_config None (0x80001000 + 4 * of_nat k)" if "k < 2" for k
  proof -
    have "k = 0 \<or> k = 1" using that by linarith
    moreover have "word_readable native_config None 0x80001000" "word_readable native_config None 0x80001004"
      by (simp_all add: word_readable_def word_ptr_def readable_memory_def guest_to_host_def in_pmem_def
          native_config_def)
    ultimately show ?thesis by auto
  qed
  then have "drawable native_config 400 300 two_pixels"
    by (simp add: drawable_def two_pixels_def)
  from am_fbdraw_paints_rectangle [OF t(2) this] t(1) show ?thesis
    by (fastforce simp: two_pixels_def inside_def source_index_def)
qed

end
