(* ===== verification/Am_Cte.thy ===== *)
theory Am_Cte
  imports Am_Bus Riscv_Properties
begin

text \<open>
  Traps and contexts of the bare-metal runtime: \<open>abstract-machine/am/src/riscv/nemu/cte.c\<close>
  and \<open>trap.S\<close> with \<open>struct Context\<close> of \<open>include/arch/riscv.h\<close>. The trap code is the list of
  machine words the assembler makes of \<open>trap.S\<close>, run by the emulator's interpreter on
  guest memory; \<open>NR_REGS\<close> is 32, or 16 in an RV32E build.
\<close>

section \<open>arch/riscv.h and am.h\<close>

definition off_gpr :: "nat \<Rightarrow> u32" where
  "off_gpr i = of_nat (4 * i)"

definition off_mcause :: "config \<Rightarrow> u32" where
  "off_mcause cfg = of_nat (4 * reg_num cfg)"

definition off_mstatus :: "config \<Rightarrow> u32" where
  "off_mstatus cfg = of_nat (4 * (reg_num cfg + 1))"

definition off_mepc :: "config \<Rightarrow> u32" where
  "off_mepc cfg = of_nat (4 * (reg_num cfg + 2))"

definition off_np :: "config \<Rightarrow> u32" where
  "off_np cfg = of_nat (4 * (reg_num cfg + 4))"

definition sizeof_Context :: "config \<Rightarrow> u32" where
  "sizeof_Context cfg = of_nat (4 * (reg_num cfg + 5))"

definition GPR1 :: "config \<Rightarrow> nat" where
  "GPR1 cfg = (if CONFIG_RVE cfg then 15 else 17)"

datatype am_event = EVENT_NULL | EVENT_YIELD | EVENT_SYSCALL | EVENT_PAGEFAULT | EVENT_ERROR
  | EVENT_IRQ_TIMER | EVENT_IRQ_IODEV

record Event =
  ev_event :: am_event
  ev_cause :: u32
  ev_ref :: u32
  ev_msg :: u32

section \<open>cte.c\<close>

text \<open>The user's handler returns the context to resume and may change the machine.\<close>

type_synonym user_handler = "Event \<Rightarrow> u32 \<Rightarrow> system \<Rightarrow> (u32 \<times> system) result"

definition am_irq_handle :: "config \<Rightarrow> user_handler option \<Rightarrow> u32 \<Rightarrow> system \<Rightarrow> (u32 \<times> system) result" where
  "am_irq_handle cfg user c s =
     (case user of
        None \<Rightarrow> Inr (c, s)
      | Some h \<Rightarrow>
          bindR (inl cfg (c + off_mcause cfg) s) (\<lambda>(mcause, s).
          bindR (if mcause = 0x8 \<or> mcause = 0x9 \<or> mcause = 0xb then
                   bindR (inl cfg (c + off_mepc cfg) s) (\<lambda>(mepc, s).
                   bindR (outl cfg (c + off_mepc cfg) (mepc + 4) s) (\<lambda>s.
                   bindR (inl cfg (c + off_gpr (GPR1 cfg)) s) (\<lambda>(gpr1, s).
                   Inr (if gpr1 = - 1 then EVENT_YIELD else EVENT_SYSCALL, s))))
                 else if mcause = 0x80000007 then Inr (EVENT_IRQ_TIMER, s)
                 else Inr (EVENT_ERROR, s)) (\<lambda>(e, s).
          bindR (h \<lparr>ev_event = e, ev_cause = 0, ev_ref = 0, ev_msg = 0\<rparr> c s) (\<lambda>(c', s).
          bindR (assertR (c' \<noteq> 0) ''c != NULL'') (\<lambda>_. Inr (c', s))))))"

text \<open>The handler variable is returned with the machine.\<close>

definition cte_init :: "u32 \<Rightarrow> user_handler \<Rightarrow> system \<Rightarrow> user_handler option \<times> system" where
  "cte_init asm_trap handler s =
     (Some handler, set_csrs ((sr (cpu s))(CSR_MTVEC := asm_trap, CSR_MSTATUS := 0x1800)) s)"

definition kcontext :: "config \<Rightarrow> u32 \<Rightarrow> u32 \<Rightarrow> u32 \<Rightarrow> u32 \<Rightarrow> system \<Rightarrow> (u32 \<times> system) result" where
  "kcontext cfg kstack_start kstack_end entry arg s =
     (let p = kstack_end - sizeof_Context cfg in
      bindR (outl cfg (p + off_mepc cfg) entry s) (\<lambda>s.
      bindR (outl cfg (p + off_gpr 10) arg s) (\<lambda>s.
      bindR (outl cfg (p + off_mstatus cfg) 0x1800 s) (\<lambda>s.
      bindR (outl cfg (p + off_np cfg) 3 s) (\<lambda>s. Inr (p, s))))))"

definition ienabled :: bool where
  "ienabled = False"

section \<open>trap.S\<close>

text \<open>The instructions the file uses, in the assembler's encoding.\<close>

definition asm_addi :: "nat \<Rightarrow> nat \<Rightarrow> u32 \<Rightarrow> u32" where
  "asm_addi rd rs imm = i_inst 0x13 0 (of_nat rd) (of_nat rs) imm"

definition asm_sw :: "nat \<Rightarrow> u32 \<Rightarrow> nat \<Rightarrow> u32" where
  "asm_sw r off base = s_inst 2 (of_nat base) (of_nat r) off"

definition asm_lw :: "nat \<Rightarrow> u32 \<Rightarrow> nat \<Rightarrow> u32" where
  "asm_lw r off base = i_inst 0x03 2 (of_nat r) (of_nat base) off"

definition asm_csrr :: "nat \<Rightarrow> u32 \<Rightarrow> u32" where
  "asm_csrr rd csr = i_inst 0x73 2 (of_nat rd) 0 csr"

definition asm_csrw :: "u32 \<Rightarrow> nat \<Rightarrow> u32" where
  "asm_csrw csr rs = i_inst 0x73 1 0 (of_nat rs) csr"

definition trap_regs :: "config \<Rightarrow> nat list" where
  "trap_regs cfg = 1 # [3..<reg_num cfg]"

definition context_size :: "config \<Rightarrow> u32" where
  "context_size cfg = of_nat (4 * (reg_num cfg + 3))"

definition trap_save :: "config \<Rightarrow> u32 list" where
  "trap_save cfg =
     asm_addi 2 2 (- context_size cfg) # map (\<lambda>r. asm_sw r (off_gpr r) 2) (trap_regs cfg) @
     [asm_csrr 5 0x342, asm_csrr 6 0x300, asm_csrr 7 0x341,
      asm_sw 5 (off_mcause cfg) 2, asm_sw 6 (off_mstatus cfg) 2, asm_sw 7 (off_mepc cfg) 2,
      asm_addi 10 2 0]"

definition trap_restore :: "config \<Rightarrow> u32 list" where
  "trap_restore cfg =
     [asm_addi 2 10 0, asm_lw 6 (off_mstatus cfg) 2, asm_lw 7 (off_mepc cfg) 2,
      asm_csrw 0x300 6, asm_csrw 0x341 7] @
     map (\<lambda>r. asm_lw r (off_gpr r) 2) (trap_regs cfg) @ [asm_addi 2 2 (context_size cfg), MRET]"

text \<open>
  The \<open>call\<close> in the middle leaves the returned context in \<open>a0\<close>; what it leaves in the other
  registers is the machine state the handler returns.
\<close>

definition am_asm_trap :: "config \<Rightarrow> user_handler option \<Rightarrow> vaddr_t \<Rightarrow> system \<Rightarrow> (vaddr_t \<times> system) result" where
  "am_asm_trap cfg user p s =
     bindR (run_seq cfg (trap_save cfg) p s) (\<lambda>(p, s).
     bindR (am_irq_handle cfg user (gpr (cpu s) 10) s) (\<lambda>(c, s).
     run_seq cfg (trap_restore cfg) (p + 8) (set_reg 10 c s)))"

text \<open>\<open>yield\<close>: \<open>li a7, -1\<close> (\<open>a5\<close> on RV32E) and \<open>ecall\<close>, then the trap code at \<open>mtvec\<close>.\<close>

definition yield_code :: "config \<Rightarrow> u32 list" where
  "yield_code cfg = [asm_addi (GPR1 cfg) 0 (- 1), ECALL]"

definition yield :: "config \<Rightarrow> user_handler option \<Rightarrow> vaddr_t \<Rightarrow> system \<Rightarrow> (vaddr_t \<times> system) result" where
  "yield cfg user p s = bindR (run_seq cfg (yield_code cfg) p s) (\<lambda>(p, s). am_asm_trap cfg user p s)"

section \<open>Running the instructions\<close>

lemma reg_num_cases: "reg_num cfg = 16 \<or> reg_num cfg = 32"
  by (simp add: reg_num_def)

lemma reg_ok_nat: "r < reg_num cfg \<Longrightarrow> reg_ok cfg (of_nat r) \<and> unat (of_nat r :: u32) = r"
  using reg_num_cases [of cfg] by (auto simp: reg_ok_def unat_of_nat_u32)

lemma zero_x0_id: "gpr (cpu s) 0 = 0 \<Longrightarrow> zero_x0 s = s"
  by (simp add: zero_x0_def fun_upd_idem)

lemma run_addi:
  assumes "rd < reg_num cfg" "rs < reg_num cfg"
  shows "run_seq cfg (asm_addi rd rs imm # is) p s =
    run_seq cfg is (p + 4) (set_reg rd (gpr (cpu s) rs + signed_take_bit 11 imm) s)"
proof -
  let ?i = "asm_addi rd rs imm"
  have r: "reg_ok cfg (of_nat rd)" "reg_ok cfg (of_nat rs)" "unat (of_nat rd :: u32) = rd"
    "unat (of_nat rs :: u32) = rs" using reg_ok_nat assms by auto
  have d: "rv32_decode ?i = I_addi" using r by (simp add: asm_addi_def decode_simps)
  have o: "decode_operand cfg ?i (rv32_format (rv32_decode ?i)) (cpu s) = Inr
     \<lparr>op_rd = rd, op_rs1 = rs, op_src1 = gpr (cpu s) rs, op_src2 = 0, op_imm = signed_take_bit 11 imm\<rparr>"
    unfolding d using r by (simp add: rv32_format_def asm_addi_def operand_simps(1))
  show ?thesis
    using run_R [OF o, of p "gpr (cpu s) rs + signed_take_bit 11 imm" "is"] assms
    by (simp add: d exec_inst_def)
qed

lemma run_csrr:
  assumes rd: "rd < reg_num cfg" and csr: "csr \<in> {0x300, 0x341, 0x342}"
  shows "run_seq cfg (asm_csrr rd csr # is) p s =
    run_seq cfg is (p + 4) (set_reg rd (sr (cpu s) (unat csr)) s)"
proof -
  let ?i = "asm_csrr rd csr"
  have r: "reg_ok cfg (of_nat rd)" "reg_ok cfg 0" "unat (of_nat rd :: u32) = rd"
    using reg_ok_nat rd reg_num_cases [of cfg] by (auto simp: reg_ok_def)
  have d: "rv32_decode ?i = I_csrrs"
    using r inst_op_f3(1) [of cfg "of_nat rd" 0 2 "0x73" csr]
    by (simp add: asm_csrr_def rv32_decode_def Let_def pick_Cons)
  let ?ops = "\<lparr>op_rd = rd, op_rs1 = 0, op_src1 = gpr (cpu s) 0, op_src2 = 0, op_imm = signed_take_bit 11 csr\<rparr>"
  have o: "decode_operand cfg ?i (rv32_format (rv32_decode ?i)) (cpu s) = Inr ?ops"
    unfolding d using r by (simp add: rv32_format_def asm_csrr_def operand_simps(1))
  have k: "unat ((ucast (signed_take_bit 11 csr) :: u16) AND 0xfff) = unat csr"
    "check_csrs_idx (signed_take_bit 11 csr) = unat csr"
    using csr unfolding check_csrs_idx_def csr_imm by auto
  have "unat csr \<in> set known_csrs" "unat csr \<notin> set diff_skip_csrs"
    using csr by (auto simp: known_csrs_def diff_skip_csrs_def)
  then have "csr_valid cfg (ucast (signed_take_bit 11 csr)) ds = (True, ds)" for ds
    using k(1) by (simp add: csr_valid_def check_csr_exist_def Let_def split: prod.splits)
  then show ?thesis
    using run_R [OF o, of p "sr (cpu s) (unat csr)" "is"] rd
    by (simp add: d exec_inst_def csr_op_def k(2) R_set_ok bindR_assoc)
qed

lemma run_csrw:
  assumes rs: "rs < reg_num cfg" and csr: "csr \<in> {0x300, 0x341}"
  shows "run_seq cfg (asm_csrw csr rs # is) p s =
    run_seq cfg is (p + 4) (zero_x0 (set_csrs ((sr (cpu s))(unat csr := gpr (cpu s) rs)) s))"
proof -
  let ?i = "asm_csrw csr rs"
  have r: "reg_ok cfg (of_nat rs)" "reg_ok cfg 0" "unat (of_nat rs :: u32) = rs" "0 < reg_num cfg"
    using reg_ok_nat rs reg_num_cases [of cfg] by (auto simp: reg_ok_def)
  have d: "rv32_decode ?i = I_csrrw"
    using r inst_op_f3(1) [of cfg 0 "of_nat rs" 1 "0x73" csr]
    by (simp add: asm_csrw_def rv32_decode_def Let_def pick_Cons)
  let ?ops = "\<lparr>op_rd = 0, op_rs1 = rs, op_src1 = gpr (cpu s) rs, op_src2 = 0, op_imm = signed_take_bit 11 csr\<rparr>"
  have o: "decode_operand cfg ?i (rv32_format (rv32_decode ?i)) (cpu s) = Inr ?ops"
    unfolding d using r by (simp add: rv32_format_def asm_csrw_def operand_simps(1))
  have k: "unat ((ucast (signed_take_bit 11 csr) :: u16) AND 0xfff) = unat csr"
    "check_csrs_idx (signed_take_bit 11 csr) = unat csr"
    using csr unfolding check_csrs_idx_def csr_imm by auto
  have "unat csr \<in> set known_csrs" "unat csr \<notin> set diff_skip_csrs"
    using csr by (auto simp: known_csrs_def diff_skip_csrs_def)
  then have v: "csr_valid cfg (ucast (signed_take_bit 11 csr)) ds = (True, ds)" for ds
    using k(1) by (simp add: csr_valid_def check_csr_exist_def Let_def split: prod.splits)
  let ?d = "\<lparr>d_pc = p, d_snpc = p + 4, d_dnpc = p + 4, d_inst = ?i\<rparr>"
  let ?c = "(cpu s)\<lparr>gpr := (gpr (cpu s))(0 := sr (cpu s) (unat csr)),
    sr := (sr (cpu s))(unat csr := gpr (cpu s) rs)\<rparr>"
  have "exec_inst cfg (rv32_decode ?i) ?ops (?d, s) = Inr (?d, s\<lparr>cpu := ?c\<rparr>)"
    unfolding d using r(4) by (simp add: exec_inst_def csr_op_def v k(2) R_set_ok Let_def)
  from run_cons [OF o this, of "is"] show ?thesis
    by (simp add: zero_x0_def set_csrs_def)
qed

lemma run_sw:
  assumes "r < reg_num cfg" "b < reg_num cfg"
    and "outl cfg (gpr (cpu s) b + signed_take_bit 11 off) (gpr (cpu s) r) s = Inr t"
  shows "run_seq cfg (asm_sw r off b # is) p s = run_seq cfg is (p + 4) (zero_x0 t)"
  unfolding asm_sw_def
  by (rule run_store) (use assms reg_ok_nat in \<open>auto simp: outl_def vaddr_write_def\<close>)

lemma run_lw:
  assumes "r < reg_num cfg" "b < reg_num cfg"
    and "inl cfg (gpr (cpu s) b + signed_take_bit 11 off) s = Inr (v, t)"
  shows "run_seq cfg (asm_lw r off b # is) p s = run_seq cfg is (p + 4) (set_reg r v t)"
  unfolding asm_lw_def
  using run_load [of cfg "of_nat r" "of_nat b" 2 4 s off v t "is" p] assms reg_ok_nat
  by (simp add: inl_def vaddr_read_def loaded_def)

lemma run_mret_last: "run_seq cfg [MRET] p s = Inr (sr (cpu s) CSR_MEPC,
    zero_x0 (set_csrs ((sr (cpu s))(CSR_MSTATUS :=
      ((sr (cpu s) CSR_MSTATUS AND NOT (push_bit 3 1)) OR
       push_bit 3 (drop_bit 7 (sr (cpu s) CSR_MSTATUS) AND 1)) OR push_bit 7 1)) s))"
  using run_mret [of cfg "[]" p s] by (simp add: Let_def)

lemma small_offset:
  assumes "n < 2048"
  shows "signed_take_bit 11 (of_nat n :: u32) = of_nat n"
proof -
  have "take_bit 11 (of_nat n :: u32) = of_nat (take_bit 11 n)" by (simp add: take_bit_of_nat)
  also have "take_bit 11 n = n" using assms by (simp add: take_bit_nat_eq_self)
  finally have hi: "bit (of_nat n :: u32) k \<Longrightarrow> k < 11" for k by (rule bit_small)
  show ?thesis
    by (rule bit_word_eqI) (auto simp: bit_signed_take_bit_iff min_def not_le dest: hi)
qed

lemma neg_context_size: "signed_take_bit 11 (- context_size cfg) = - context_size cfg"
  using reg_num_cases [of cfg] by (auto simp: context_size_def)

section \<open>Frames\<close>

text \<open>Equal but for the registers and guest memory.\<close>

definition ram_frame :: "config \<Rightarrow> system \<Rightarrow> system \<Rightarrow> bool" where
  "ram_frame cfg s t \<longleftrightarrow> plain_frame cfg None (s\<lparr>cpu := cpu t\<rparr>) t"

lemma ram_frame_refl [simp]: "ram_frame cfg s s"
  by (simp add: ram_frame_def plain_frame_def mem_frame_def)

lemma ram_frame_trans: "ram_frame cfg s t \<Longrightarrow> ram_frame cfg t u \<Longrightarrow> ram_frame cfg s u"
  by (simp add: ram_frame_def plain_frame_def mem_frame_def)

lemma ram_frame_cpu [simp]: "ram_frame cfg s (t\<lparr>cpu := c\<rparr>) = ram_frame cfg s t"
  by (simp add: ram_frame_def plain_frame_def mem_frame_def)

lemma ram_frame_regs [simp]:
  "ram_frame cfg s (set_reg r v t) = ram_frame cfg s t" "ram_frame cfg s (zero_x0 t) = ram_frame cfg s t"
  "ram_frame cfg s (set_csrs f t) = ram_frame cfg s t"
  by (simp_all add: set_reg_def zero_x0_def set_csrs_def)

lemma word_at_regs [simp]:
  "word_at cfg fb (set_reg r v t) = word_at cfg fb t" "word_at cfg fb (zero_x0 t) = word_at cfg fb t"
  "word_at cfg fb (set_csrs f t) = word_at cfg fb t"
  by (rule word_at_cong, simp add: set_reg_def zero_x0_def set_csrs_def)+

lemma set_reg_cpu [simp]:
  "sr (cpu (set_reg r v s)) = sr (cpu s)" "sr (cpu (zero_x0 s)) = sr (cpu s)"
  "gpr (cpu (zero_x0 s)) = (gpr (cpu s))(0 := 0)"
  "gpr (cpu (set_csrs f s)) = gpr (cpu s)" "sr (cpu (set_csrs f s)) = f"
  by (simp_all add: set_reg_def zero_x0_def set_csrs_def)

lemma plain_ram: "plain_frame cfg None s t \<Longrightarrow> ram_frame cfg s t \<and> cpu t = cpu s"
  by (simp add: ram_frame_def plain_frame_def mem_frame_def)

section \<open>Runs of stores and loads\<close>

lemma outl_cpu: "outl cfg a v s = Inr t \<Longrightarrow> cpu t = cpu s"
  using paddr_write_frame by (auto simp: outl_def vaddr_write_def mem_frame_def)

lemma run_sws:
  assumes "gpr (cpu s) 0 = 0" "b < reg_num cfg" "\<forall>(r, off) \<in> set rs. r < reg_num cfg"
    and "foldR (\<lambda>(a, v). outl cfg a v)
      (map (\<lambda>(r, off). (gpr (cpu s) b + signed_take_bit 11 off, gpr (cpu s) r)) rs) s = Inr t"
  shows "run_seq cfg (map (\<lambda>(r, off). asm_sw r off b) rs @ is) p s =
    run_seq cfg is (p + 4 * of_nat (length rs)) t \<and> cpu t = cpu s"
  using assms
proof (induction rs arbitrary: s p)
  case (Cons x rs)
  obtain r off where x: "x = (r, off)" by (cases x)
  obtain u where u: "outl cfg (gpr (cpu s) b + signed_take_bit 11 off) (gpr (cpu s) r) s = Inr u"
    "foldR (\<lambda>(a, v). outl cfg a v)
      (map (\<lambda>(r, off). (gpr (cpu s) b + signed_take_bit 11 off, gpr (cpu s) r)) rs) u = Inr t"
    using Cons.prems(4) by (auto simp: x result_simps)
  have cpu: "cpu u = cpu s" using u(1) by (rule outl_cpu)
  have "run_seq cfg (map (\<lambda>(r, off). asm_sw r off b) (x # rs) @ is) p s =
      run_seq cfg (map (\<lambda>(r, off). asm_sw r off b) rs @ is) (p + 4) u"
    using run_sw [OF _ _ u(1)] zero_x0_id [of u] Cons.prems(1-3) cpu
    by (simp add: x del: run_seq.simps)
  with Cons.IH [of u "p + 4"] u(2) Cons.prems(1-3) cpu show ?case
    by (simp add: algebra_simps)
qed simp

text \<open>Loads of registers other than the base.\<close>

lemma run_lws:
  assumes "b < reg_num cfg" "b \<noteq> 0" "\<forall>(r, off) \<in> set rs. r < reg_num cfg \<and> r \<noteq> b \<and> r \<noteq> 0 \<and>
      word_readable cfg None (gpr (cpu s) b + signed_take_bit 11 off)" "distinct (map fst rs)"
  shows "\<exists>t. run_seq cfg (map (\<lambda>(r, off). asm_lw r off b) rs @ is) p s =
      run_seq cfg is (p + 4 * of_nat (length rs)) t \<and> ram_frame cfg s t \<and> harr t = harr s \<and>
      sr (cpu t) = sr (cpu s) \<and> gpr (cpu t) b = gpr (cpu s) b \<and> (gpr (cpu s) 0 = 0 \<longrightarrow> gpr (cpu t) 0 = 0) \<and>
      (\<forall>(r, off) \<in> set rs. gpr (cpu t) r = word_at cfg None s (gpr (cpu s) b + signed_take_bit 11 off)) \<and>
      (\<forall>r. r \<noteq> 0 \<longrightarrow> r \<notin> fst ` set rs \<longrightarrow> gpr (cpu t) r = gpr (cpu s) r)"
  using assms
proof (induction rs arbitrary: s p)
  case (Cons x rs)
  obtain r off where x: "x = (r, off)" by (cases x)
  let ?a = "gpr (cpu s) b + signed_take_bit 11 off"
  have "plain_frame cfg None s s" by (simp add: plain_frame_def)
  then obtain u where u: "inl cfg ?a s = Inr (word_at cfg None s ?a, u)" "plain_frame cfg None s u"
    "harr u = harr s"
    using read_word [of cfg None s s ?a] Cons.prems(3) by (auto simp: x)
  let ?u = "set_reg r (word_at cfg None s ?a) u"
  have cpu: "cpu u = cpu s" "ram_frame cfg s ?u" using plain_ram [OF u(2)] by simp_all
  have rb: "gpr (cpu ?u) b = gpr (cpu s) b" and hu: "harr ?u = harr s"
    using Cons.prems(2,3) cpu(1) u(3) by (auto simp: x set_reg_def)
  have w: "word_at cfg None ?u = word_at cfg None s" using hu by (rule word_at_cong)
  obtain t where t: "run_seq cfg (map (\<lambda>(r, off). asm_lw r off b) rs @ is) (p + 4) ?u =
      run_seq cfg is (p + 4 + 4 * of_nat (length rs)) t" "ram_frame cfg ?u t" "harr t = harr ?u"
    "sr (cpu t) = sr (cpu ?u)" "gpr (cpu t) b = gpr (cpu ?u) b"
    "gpr (cpu ?u) 0 = 0 \<longrightarrow> gpr (cpu t) 0 = 0"
    "\<forall>(r, off) \<in> set rs. gpr (cpu t) r = word_at cfg None ?u (gpr (cpu ?u) b + signed_take_bit 11 off)"
    "\<forall>r. r \<noteq> 0 \<longrightarrow> r \<notin> fst ` set rs \<longrightarrow> gpr (cpu t) r = gpr (cpu ?u) r"
    using Cons.IH [of ?u "p + 4"] Cons.prems unfolding rb by (auto simp: x)
  have run: "run_seq cfg (map (\<lambda>(r, off). asm_lw r off b) (x # rs) @ is) p s =
      run_seq cfg is (p + 4 * of_nat (length (x # rs))) t"
    using run_lw [OF _ _ u(1), of r] Cons.prems(1,3) t(1)
    by (simp add: x algebra_simps del: run_seq.simps)
  have "gpr (cpu t) r = word_at cfg None s ?a"
    using t(8) Cons.prems(3,4) by (auto simp: x)
  then have "\<forall>(r, off) \<in> set (x # rs). gpr (cpu t) r =
      word_at cfg None s (gpr (cpu s) b + signed_take_bit 11 off)"
    using t(7) unfolding rb w by (simp add: x)
  moreover have "\<forall>r. r \<noteq> 0 \<longrightarrow> r \<notin> fst ` set (x # rs) \<longrightarrow> gpr (cpu t) r = gpr (cpu s) r"
    using t(8) cpu(1) by (simp add: x)
  ultimately show ?case
    using run t(2-6) rb hu cpu ram_frame_trans [OF cpu(2) t(2)] by (intro exI [of _ t]) simp
next
  case Nil
  then show ?case by (intro exI [of _ s]) simp
qed

section \<open>Saving and restoring a context\<close>

text \<open>The words of the context at \<open>c\<close> lie in writable memory.\<close>

definition context_ok :: "config \<Rightarrow> u32 \<Rightarrow> bool" where
  "context_ok cfg c \<longleftrightarrow> (\<forall>i < reg_num cfg + 5. word_writable cfg None (c + of_nat (4 * i)))"

definition context_words :: "config \<Rightarrow> u32 \<Rightarrow> u32 set" where
  "context_words cfg c = (\<lambda>i. c + of_nat (4 * i)) ` {..<reg_num cfg + 5}"

definition saved_offsets :: "config \<Rightarrow> (nat \<times> u32) list" where
  "saved_offsets cfg = map (\<lambda>r. (r, off_gpr r)) (trap_regs cfg)"

definition trap_offsets :: "config \<Rightarrow> (nat \<times> u32) list" where
  "trap_offsets cfg = [(5, off_mcause cfg), (6, off_mstatus cfg), (7, off_mepc cfg)]"

lemma trap_regs_bound: "r \<in> set (trap_regs cfg) \<Longrightarrow> r < reg_num cfg \<and> r \<noteq> 0 \<and> r \<noteq> 2"
  using reg_num_cases [of cfg] by (auto simp: trap_regs_def)

lemma in_trap_regs: "r < reg_num cfg \<Longrightarrow> r \<noteq> 0 \<Longrightarrow> r \<noteq> 2 \<Longrightarrow> r \<in> set (trap_regs cfg)"
  by (auto simp: trap_regs_def)

text \<open>Every saved offset is \<open>4 i\<close> for a field number \<open>i\<close>, a different one for each field.\<close>

lemma field_offset:
  assumes "(r, off) \<in> set (saved_offsets cfg) \<union> set (trap_offsets cfg)"
  shows "\<exists>i < reg_num cfg + 3. off = of_nat (4 * i) \<and> signed_take_bit 11 off = off \<and> r < reg_num cfg \<and> r \<noteq> 0 \<and> r \<noteq> 2"
proof -
  have *: "signed_take_bit 11 (of_nat (4 * i) :: u32) = of_nat (4 * i)" if "i < reg_num cfg + 3" for i
    using that reg_num_cases [of cfg] by (intro small_offset) auto
  from assms consider "r \<in> set (trap_regs cfg)" "off = of_nat (4 * r)" | "r \<in> {5, 6, 7}"
      "off \<in> (\<lambda>i. of_nat (4 * i)) ` {reg_num cfg, reg_num cfg + 1, reg_num cfg + 2}"
    by (auto simp: saved_offsets_def trap_offsets_def off_gpr_def off_mcause_def off_mstatus_def off_mepc_def)
  then show ?thesis
  proof cases
    case 1
    then show ?thesis
      using trap_regs_bound [of r cfg] * [of r] by (intro exI [of _ r]) auto
  next
    case 2
    from 2(2) obtain i where "off = of_nat (4 * i)" "i \<in> {reg_num cfg, reg_num cfg + 1, reg_num cfg + 2}"
      by (rule imageE)
    moreover from this(2) have "i < reg_num cfg + 3" by auto
    moreover have "r < reg_num cfg \<and> r \<noteq> 0 \<and> r \<noteq> 2" using 2(1) reg_num_cases [of cfg] by auto
    ultimately show ?thesis using * by blast
  qed
qed

lemma field_inj:
  "i < 64 \<Longrightarrow> j < 64 \<Longrightarrow> c + of_nat (4 * i) = c + of_nat (4 * j) \<Longrightarrow> i = (j :: nat)" for c :: u32
  using of_nat_u32_inj [of "4 * i" "4 * j"] by simp

lemma saved_distinct:
  "distinct (map (\<lambda>(r, off). c + off) (saved_offsets cfg))"
  "distinct (map (\<lambda>(r, off). c + off) (trap_offsets cfg))"
  "distinct (map fst (saved_offsets cfg))"
  "r \<in> set (trap_regs cfg) \<Longrightarrow> c + off_gpr r \<notin> (\<lambda>(r, off). c + off) ` set (trap_offsets cfg)"
proof -
  have R: "r < 64 \<and> r < reg_num cfg" if "r \<in> set (trap_regs cfg)" for r
    using trap_regs_bound [OF that] reg_num_cases [of cfg] by auto
  have d: "distinct (trap_regs cfg)" by (simp add: trap_regs_def)
  show "distinct (map fst (saved_offsets cfg))" using d by (simp add: saved_offsets_def comp_def)
  have "inj_on (\<lambda>r. c + off_gpr r) (set (trap_regs cfg))"
    by (rule inj_onI) (use R field_inj in \<open>auto simp: off_gpr_def\<close>)
  with d show "distinct (map (\<lambda>(r, off). c + off) (saved_offsets cfg))"
    by (simp add: saved_offsets_def comp_def distinct_map)
  have N: "reg_num cfg + 2 < 64" using reg_num_cases [of cfg] by auto
  show "distinct (map (\<lambda>(r, off). c + off) (trap_offsets cfg))"
    using N field_inj [of "reg_num cfg" "reg_num cfg + 1" c] field_inj [of "reg_num cfg" "reg_num cfg + 2" c]
      field_inj [of "reg_num cfg + 1" "reg_num cfg + 2" c]
    unfolding trap_offsets_def off_mcause_def off_mstatus_def off_mepc_def by fastforce
  assume r: "r \<in> set (trap_regs cfg)"
  show "c + off_gpr r \<notin> (\<lambda>(r, off). c + off) ` set (trap_offsets cfg)"
    using N R [OF r] field_inj [of r "reg_num cfg" c] field_inj [of r "reg_num cfg + 1" c]
      field_inj [of r "reg_num cfg + 2" c]
    unfolding trap_offsets_def off_mcause_def off_mstatus_def off_mepc_def off_gpr_def by fastforce
qed

text \<open>Storing registers at the fields of a context.\<close>

lemma run_field_stores:
  assumes x0: "gpr (cpu s) 0 = 0" and ok: "context_ok cfg c" and b: "gpr (cpu s) 2 = c"
    and rs: "set rs \<subseteq> set (saved_offsets cfg) \<union> set (trap_offsets cfg)"
    and d: "distinct (map (\<lambda>(r, off). c + off) rs)"
  shows "\<exists>t. run_seq cfg (map (\<lambda>(r, off). asm_sw r off 2) rs @ is) p s =
      run_seq cfg is (p + 4 * of_nat (length rs)) t \<and> cpu t = cpu s \<and> ram_frame cfg s t \<and>
      (\<forall>(r, off) \<in> set rs. word_at cfg None t (c + off) = gpr (cpu s) r) \<and>
      (\<forall>a. word_readable cfg None a \<longrightarrow> a \<notin> (\<lambda>(r, off). c + off) ` set rs \<longrightarrow>
        word_at cfg None t a = word_at cfg None s a)"
proof -
  have f: "\<exists>i < reg_num cfg + 3. off = of_nat (4 * i)" "signed_take_bit 11 off = off"
      "r < reg_num cfg" if "(r, off) \<in> set rs" for r off
    using field_offset [of r off cfg] rs that by blast+
  let ?avs = "map (\<lambda>(r, off). (c + off, gpr (cpu s) r)) rs"
  have m: "map fst ?avs = map (\<lambda>(r, off). c + off) rs" by (simp add: comp_def split_beta)
  have "word_writable cfg None (c + off)" if "(r, off) \<in> set rs" for r off
    using ok f(1) [OF that] by (fastforce simp: context_ok_def)
  then have w: "\<forall>(a, v) \<in> set ?avs. word_writable cfg None a" by auto
  have "plain_frame cfg None s s" by (simp add: plain_frame_def)
  from guest.write_all [OF this w] d m obtain t where
    t: "foldR (\<lambda>(a, v). outl cfg a v) ?avs s = Inr t" "plain_frame cfg None s t"
      "\<forall>(a, v) \<in> set ?avs. word_at cfg None t a = v"
      "\<forall>a. word_readable cfg None a \<longrightarrow> a \<notin> fst ` set ?avs \<longrightarrow> word_at cfg None t a = word_at cfg None s a"
    by metis
  have eq: "map (\<lambda>(r, off). (gpr (cpu s) 2 + signed_take_bit 11 off, gpr (cpu s) r)) rs = ?avs"
    using b f(2) by auto
  have "foldR (\<lambda>(a, v). outl cfg a v)
      (map (\<lambda>(r, off). (gpr (cpu s) 2 + signed_take_bit 11 off, gpr (cpu s) r)) rs) s = Inr t"
    unfolding eq by (rule t(1))
  moreover have "2 < reg_num cfg" "\<forall>(r, off) \<in> set rs. r < reg_num cfg"
    using f(3) reg_num_cases [of cfg] by auto
  ultimately have "run_seq cfg (map (\<lambda>(r, off). asm_sw r off 2) rs @ is) p s =
      run_seq cfg is (p + 4 * of_nat (length rs)) t \<and> cpu t = cpu s"
    using run_sws [OF x0] by blast
  moreover have "fst ` set ?avs = (\<lambda>(r, off). c + off) ` set rs" by force
  moreover have "\<forall>(r, off) \<in> set rs. word_at cfg None t (c + off) = gpr (cpu s) r" using t(3) by auto
  ultimately show ?thesis using t(4) plain_ram [OF t(2)] by auto
qed

text \<open>The machine after the first half of \<open>trap.S\<close>.\<close>

definition saved :: "config \<Rightarrow> system \<Rightarrow> u32 \<Rightarrow> system \<Rightarrow> bool" where
  "saved cfg s c t \<longleftrightarrow>
     (\<forall>r \<in> set (trap_regs cfg). word_at cfg None t (c + off_gpr r) = gpr (cpu s) r) \<and>
     word_at cfg None t (c + off_mcause cfg) = sr (cpu s) CSR_MCAUSE \<and>
     word_at cfg None t (c + off_mstatus cfg) = sr (cpu s) CSR_MSTATUS \<and>
     word_at cfg None t (c + off_mepc cfg) = sr (cpu s) CSR_MEPC \<and>
     (\<forall>a. word_readable cfg None a \<longrightarrow> a \<notin> context_words cfg c \<longrightarrow>
        word_at cfg None t a = word_at cfg None s a)"

lemma trap_save_code:
  "trap_save cfg = asm_addi 2 2 (- context_size cfg) #
     map (\<lambda>(r, off). asm_sw r off 2) (saved_offsets cfg) @
     asm_csrr 5 0x342 # asm_csrr 6 0x300 # asm_csrr 7 0x341 #
     map (\<lambda>(r, off). asm_sw r off 2) (trap_offsets cfg) @ [asm_addi 10 2 0]"
  by (simp add: trap_save_def saved_offsets_def trap_offsets_def comp_def)

lemma field_in_context:
  "(r, off) \<in> set (saved_offsets cfg) \<union> set (trap_offsets cfg) \<Longrightarrow> c + off \<in> context_words cfg c"
  using field_offset [of r off cfg] by (fastforce simp: context_words_def)

lemma trap_save_run:
  assumes x0: "gpr (cpu s) 0 = 0" and c: "c = gpr (cpu s) 2 - context_size cfg" and ok: "context_ok cfg c"
  shows "\<exists>t q. run_seq cfg (trap_save cfg) p s = Inr (q, t) \<and> gpr (cpu t) 10 = c \<and> gpr (cpu t) 0 = 0 \<and>
    ram_frame cfg s t \<and> saved cfg s c t \<and> sr (cpu t) = sr (cpu s)"
proof -
  have n: "2 < reg_num cfg" "5 < reg_num cfg" "6 < reg_num cfg" "7 < reg_num cfg" "10 < reg_num cfg"
    using reg_num_cases [of cfg] by auto
  let ?s = "set_reg 2 c s"
  let ?code2 = "asm_csrr 5 0x342 # asm_csrr 6 0x300 # asm_csrr 7 0x341 #
     map (\<lambda>(r, off). asm_sw r off 2) (trap_offsets cfg) @ [asm_addi 10 2 0]"
  obtain t where t: "run_seq cfg (map (\<lambda>(r, off). asm_sw r off 2) (saved_offsets cfg) @ ?code2) (p + 4) ?s =
      run_seq cfg ?code2 (p + 4 + 4 * of_nat (length (saved_offsets cfg))) t" "cpu t = cpu ?s"
      "ram_frame cfg ?s t" "\<forall>(r, off) \<in> set (saved_offsets cfg). word_at cfg None t (c + off) = gpr (cpu ?s) r"
      "\<forall>a. word_readable cfg None a \<longrightarrow> a \<notin> (\<lambda>(r, off). c + off) ` set (saved_offsets cfg) \<longrightarrow>
        word_at cfg None t a = word_at cfg None ?s a"
    using run_field_stores [of ?s cfg c "saved_offsets cfg" ?code2 "p + 4"] ok saved_distinct(1) by auto
  let ?t = "set_reg 7 (sr (cpu s) CSR_MEPC) (set_reg 6 (sr (cpu s) CSR_MSTATUS)
    (set_reg 5 (sr (cpu s) CSR_MCAUSE) t))"
  let ?q = "p + 4 + 4 * of_nat (length (saved_offsets cfg)) + 4 + 4 + 4"
  obtain u where u: "run_seq cfg (map (\<lambda>(r, off). asm_sw r off 2) (trap_offsets cfg) @ [asm_addi 10 2 0]) ?q ?t =
      run_seq cfg [asm_addi 10 2 0] (?q + 4 * of_nat (length (trap_offsets cfg))) u" "cpu u = cpu ?t"
      "ram_frame cfg ?t u" "\<forall>(r, off) \<in> set (trap_offsets cfg). word_at cfg None u (c + off) = gpr (cpu ?t) r"
      "\<forall>a. word_readable cfg None a \<longrightarrow> a \<notin> (\<lambda>(r, off). c + off) ` set (trap_offsets cfg) \<longrightarrow>
        word_at cfg None u a = word_at cfg None ?t a"
    using run_field_stores [of ?t cfg c "trap_offsets cfg" "[asm_addi 10 2 0]" ?q] ok saved_distinct(2) t(2)
    by auto
  let ?r = "?q + 4 * of_nat (length (trap_offsets cfg)) + 4" and ?u = "set_reg 10 (gpr (cpu u) 2) u"
  have "run_seq cfg (trap_save cfg) p s =
      run_seq cfg (map (\<lambda>(r, off). asm_sw r off 2) (saved_offsets cfg) @ ?code2) (p + 4) ?s"
    unfolding trap_save_code run_addi [OF n(1,1)] neg_context_size c by simp
  also have "\<dots> = run_seq cfg (map (\<lambda>(r, off). asm_sw r off 2) (trap_offsets cfg) @ [asm_addi 10 2 0]) ?q ?t"
    unfolding t(1)
    by (subst run_csrr, use n in simp, simp)+ (simp add: t(2))
  also have "\<dots> = Inr (?r, ?u)"
    unfolding u(1) run_addi [OF n(5,1)] by simp
  finally have run: "run_seq cfg (trap_save cfg) p s = Inr (?r, ?u)" .
  have g: "gpr (cpu ?u) 10 = c" "gpr (cpu ?u) 0 = 0" "sr (cpu ?u) = sr (cpu s)"
    using u(2) t(2) x0 by simp_all
  have fr: "ram_frame cfg s ?u"
    using ram_frame_trans [OF _ ram_frame_trans [OF t(3)], of s u] u(3)
    by (metis ram_frame_refl ram_frame_regs(1) ram_frame_trans)
  have w: "word_at cfg None ?u (c + off_gpr r) = gpr (cpu s) r" if r: "r \<in> set (trap_regs cfg)" for r
  proof -
    have m: "(r, off_gpr r) \<in> set (saved_offsets cfg)" using r by (simp add: saved_offsets_def)
    have rd: "word_readable cfg None (c + off_gpr r)"
      using field_offset [of r "off_gpr r" cfg] m ok guest.write_read
      by (fastforce simp: context_ok_def)
    have "word_at cfg None t (c + off_gpr r) = gpr (cpu s) r"
      using t(4) m trap_regs_bound [OF r] by auto
    with u(5) rd saved_distinct(4) [OF r, of c] show ?thesis by simp
  qed
  have w2: "word_at cfg None ?u (c + off_mcause cfg) = sr (cpu s) CSR_MCAUSE"
    "word_at cfg None ?u (c + off_mstatus cfg) = sr (cpu s) CSR_MSTATUS"
    "word_at cfg None ?u (c + off_mepc cfg) = sr (cpu s) CSR_MEPC"
    using u(4) by (simp_all add: trap_offsets_def)
  have "word_at cfg None ?u a = word_at cfg None s a"
    if "word_readable cfg None a" "a \<notin> context_words cfg c" for a
  proof -
    have "a \<notin> (\<lambda>(r, off). c + off) ` set (saved_offsets cfg)"
      "a \<notin> (\<lambda>(r, off). c + off) ` set (trap_offsets cfg)"
      using that(2) field_in_context [of _ _ cfg c] by auto
    with t(5) u(5) that(1) show ?thesis by simp
  qed
  with w w2 have "saved cfg s c ?u" by (simp add: saved_def)
  with run g fr show ?thesis by blast
qed

definition mret_mstatus :: "word_t \<Rightarrow> word_t" where
  "mret_mstatus m = ((m AND NOT (push_bit 3 1)) OR push_bit 3 (drop_bit 7 m AND 1)) OR push_bit 7 1"

text \<open>The CPU of the machine \<open>t\<close> resumes the context that is stored at \<open>c\<close> in \<open>s\<close>.\<close>

definition resumes :: "config \<Rightarrow> system \<Rightarrow> u32 \<Rightarrow> CPU_state \<Rightarrow> bool" where
  "resumes cfg s c k \<longleftrightarrow>
     gpr k 0 = 0 \<and> gpr k 2 = c + context_size cfg \<and>
     (\<forall>r \<in> set (trap_regs cfg). gpr k r = word_at cfg None s (c + off_gpr r)) \<and>
     sr k CSR_MSTATUS = mret_mstatus (word_at cfg None s (c + off_mstatus cfg))"

lemma trap_restore_code:
  "trap_restore cfg = asm_addi 2 10 0 #
     map (\<lambda>(r, off). asm_lw r off 2) [(6, off_mstatus cfg), (7, off_mepc cfg)] @
     asm_csrw 0x300 6 # asm_csrw 0x341 7 #
     map (\<lambda>(r, off). asm_lw r off 2) (saved_offsets cfg) @ [asm_addi 2 2 (context_size cfg), MRET]"
  by (simp add: trap_restore_def saved_offsets_def comp_def)

lemma trap_restore_run:
  assumes c: "gpr (cpu s) 10 = c" and x0: "gpr (cpu s) 0 = 0"
    and rd: "\<And>i. i < reg_num cfg + 3 \<Longrightarrow> word_readable cfg None (c + of_nat (4 * i))"
  shows "\<exists>t. run_seq cfg (trap_restore cfg) p s = Inr (word_at cfg None s (c + off_mepc cfg), t) \<and>
    ram_frame cfg s t \<and> harr t = harr s \<and> resumes cfg s c (cpu t)"
proof -
  have n: "2 < reg_num cfg" "6 < reg_num cfg" "7 < reg_num cfg" "10 < reg_num cfg"
    using reg_num_cases [of cfg] by auto
  let ?s = "set_reg 2 c s" and ?l = "[(6 :: nat, off_mstatus cfg), (7, off_mepc cfg)]"
  have ld: "r < reg_num cfg \<and> r \<noteq> 2 \<and> r \<noteq> 0 \<and> word_readable cfg None (c + signed_take_bit 11 off)"
      "signed_take_bit 11 off = off"
    if "(r, off) \<in> set (saved_offsets cfg) \<union> set (trap_offsets cfg)" for r off
    using field_offset [OF that] rd by auto
  have l: "\<forall>(r, off) \<in> set ?l. r < reg_num cfg \<and> r \<noteq> 2 \<and> r \<noteq> 0 \<and>
      word_readable cfg None (gpr (cpu ?s) 2 + signed_take_bit 11 off)"
    "signed_take_bit 11 (off_mstatus cfg) = off_mstatus cfg" "signed_take_bit 11 (off_mepc cfg) = off_mepc cfg"
    using ld [of 6 "off_mstatus cfg"] ld [of 7 "off_mepc cfg"] by (simp_all add: trap_offsets_def)
  let ?code2 = "map (\<lambda>(r, off). asm_lw r off 2) (saved_offsets cfg) @ [asm_addi 2 2 (context_size cfg), MRET]"
  let ?code1 = "asm_csrw 0x300 6 # asm_csrw 0x341 7 # ?code2"
  obtain t where t: "run_seq cfg (map (\<lambda>(r, off). asm_lw r off 2) ?l @ ?code1) (p + 4) ?s =
      run_seq cfg ?code1 (p + 4 + 4 * of_nat (length ?l)) t" "ram_frame cfg ?s t" "harr t = harr ?s"
      "sr (cpu t) = sr (cpu ?s)" "gpr (cpu t) 2 = gpr (cpu ?s) 2" "gpr (cpu t) 0 = 0"
      "gpr (cpu t) 6 = word_at cfg None ?s (c + off_mstatus cfg)"
      "gpr (cpu t) 7 = word_at cfg None ?s (c + off_mepc cfg)"
    using run_lws [OF n(1) _ l(1), of ?code1 "p + 4"] x0 l(2,3) by auto
  let ?m = "word_at cfg None s (c + off_mstatus cfg)" and ?e = "word_at cfg None s (c + off_mepc cfg)"
  let ?c1 = "(sr (cpu s))(0x300 := ?m)" let ?c2 = "?c1(0x341 := ?e)"
  let ?t = "zero_x0 (set_csrs ?c2 (zero_x0 (set_csrs ?c1 t)))"
  let ?q = "p + 4 + 4 * of_nat (length ?l) + 4 + 4"
  have l2: "\<forall>(r, off) \<in> set (saved_offsets cfg). r < reg_num cfg \<and> r \<noteq> 2 \<and> r \<noteq> 0 \<and>
      word_readable cfg None (gpr (cpu ?t) 2 + signed_take_bit 11 off)"
    using ld(1) t(5) by (auto simp: saved_offsets_def)
  obtain u where u: "run_seq cfg ?code2 ?q ?t =
      run_seq cfg [asm_addi 2 2 (context_size cfg), MRET] (?q + 4 * of_nat (length (saved_offsets cfg))) u"
      "ram_frame cfg ?t u" "harr u = harr ?t" "sr (cpu u) = sr (cpu ?t)" "gpr (cpu u) 2 = gpr (cpu ?t) 2"
      "gpr (cpu u) 0 = 0" "\<forall>(r, off) \<in> set (saved_offsets cfg). gpr (cpu u) r =
        word_at cfg None ?t (gpr (cpu ?t) 2 + signed_take_bit 11 off)"
    using run_lws [OF n(1) _ l2 saved_distinct(3), of "[asm_addi 2 2 (context_size cfg), MRET]" ?q] by auto
  have cs: "signed_take_bit 11 (context_size cfg) = context_size cfg"
    using reg_num_cases [of cfg] unfolding context_size_def by (intro small_offset) auto
  let ?v = "set_reg 2 (gpr (cpu u) 2 + context_size cfg) u"
  let ?w = "zero_x0 (set_csrs ((sr (cpu u))(0x300 := mret_mstatus (sr (cpu u) 0x300))) ?v)"
  have "run_seq cfg (trap_restore cfg) p s = run_seq cfg (map (\<lambda>(r, off). asm_lw r off 2) ?l @ ?code1) (p + 4) ?s"
    unfolding trap_restore_code run_addi [OF n(1,4)] by (simp add: c)
  also have "\<dots> = run_seq cfg ?code2 ?q ?t"
    unfolding t(1)
    by (subst run_csrw, use n in simp, simp)+ (simp add: t(4,7,8))
  also have "\<dots> = Inr (sr (cpu u) CSR_MEPC, ?w)"
    unfolding u(1) run_addi [OF n(1,1)] cs run_mret_last by (simp add: mret_mstatus_def)
  also have "sr (cpu u) CSR_MEPC = ?e" using u(4) by simp
  finally have run: "run_seq cfg (trap_restore cfg) p s = Inr (?e, ?w)" .
  have "ram_frame cfg s t" "ram_frame cfg t u"
    using ram_frame_trans [of cfg s ?s t] t(2) ram_frame_trans [of cfg t ?t u] u(2) by simp_all
  then have "ram_frame cfg s ?w" using ram_frame_trans by simp
  moreover have h: "harr ?w = harr s"
    using t(3) u(3) by (simp add: set_reg_def zero_x0_def set_csrs_def)
  moreover have w: "word_at cfg None t = word_at cfg None s"
    using t(3) by (intro word_at_cong) (simp add: set_reg_def zero_x0_def)
  have "gpr (cpu ?w) r = word_at cfg None s (c + off_gpr r)" if r: "r \<in> set (trap_regs cfg)" for r
  proof -
    have m: "(r, off_gpr r) \<in> set (saved_offsets cfg)" using r by (simp add: saved_offsets_def)
    then have "gpr (cpu u) r = word_at cfg None s (c + off_gpr r)"
      using u(7) ld(2) [of r "off_gpr r"] t(5) w by fastforce
    with trap_regs_bound [OF r] show ?thesis by simp
  qed
  then have "resumes cfg s c (cpu ?w)"
    using u(4-6) t(5) by (simp add: resumes_def)
  ultimately show ?thesis using run by blast
qed

end
