(* ===== verification/Am_Cte_Properties.thy ===== *)
theory Am_Cte_Properties
  imports Am_Cte
begin

text \<open>
  What \<open>trap.S\<close> and \<open>cte.c\<close> guarantee when the emulator runs them: a thread that yields
  finds all its registers again when it is resumed, and a context made by \<open>kcontext\<close> starts
  at its entry with its argument.
\<close>

section \<open>The handler of a trap\<close>

definition event_of :: "am_event \<Rightarrow> Event" where
  "event_of e = \<lparr>ev_event = e, ev_cause = 0, ev_ref = 0, ev_msg = 0\<rparr>"

lemma context_fields:
  assumes "context_ok cfg c"
  shows "word_writable cfg None (c + off_mcause cfg)" "word_writable cfg None (c + off_mstatus cfg)"
    "word_writable cfg None (c + off_mepc cfg)" "word_writable cfg None (c + off_np cfg)"
    "r < reg_num cfg \<Longrightarrow> word_writable cfg None (c + off_gpr r)"
proof -
  have w: "word_writable cfg None (c + of_nat (4 * i))" if "i < reg_num cfg + 5" for i
    using assms that by (simp only: context_ok_def)
  show "word_writable cfg None (c + off_mcause cfg)" "word_writable cfg None (c + off_mstatus cfg)"
    "word_writable cfg None (c + off_mepc cfg)" "word_writable cfg None (c + off_np cfg)"
    "r < reg_num cfg \<Longrightarrow> word_writable cfg None (c + off_gpr r)"
    unfolding off_mcause_def off_mstatus_def off_mepc_def off_np_def off_gpr_def by (rule w; simp)+
qed

lemma GPR1_saved: "GPR1 cfg \<in> set (trap_regs cfg)" "GPR1 cfg < reg_num cfg" "GPR1 cfg \<noteq> 0" "GPR1 cfg \<noteq> 2"
  by (auto simp: GPR1_def trap_regs_def reg_num_def)

lemma irq_ecall:
  assumes ok: "context_ok cfg c" and mcause: "word_at cfg None s (c + off_mcause cfg) = 0xb"
    and e: "e = (if word_at cfg None s (c + off_gpr (GPR1 cfg)) = - 1 then EVENT_YIELD else EVENT_SYSCALL)"
  shows "\<exists>u. am_irq_handle cfg (Some h) c s = bindR (h (event_of e) c u) (\<lambda>(c', s).
      bindR (assertR (c' \<noteq> 0) ''c != NULL'') (\<lambda>_. Inr (c', s))) \<and> plain_frame cfg None s u \<and>
    word_at cfg None u (c + off_mepc cfg) = word_at cfg None s (c + off_mepc cfg) + 4 \<and>
    (\<forall>a. word_readable cfg None a \<longrightarrow> a \<noteq> c + off_mepc cfg \<longrightarrow> word_at cfg None u a = word_at cfg None s a)"
proof -
  let ?W = "word_at cfg None"
  note w = context_fields [OF ok]
  have s: "plain_frame cfg None s s" by (simp add: plain_frame_def)
  obtain s1 where s1: "inl cfg (c + off_mcause cfg) s = Inr (?W s (c + off_mcause cfg), s1)"
    "plain_frame cfg None s s1" "?W s1 = ?W s"
    using guest.rd_word [OF s] w(1) guest.write_read by blast
  obtain s2 where s2: "inl cfg (c + off_mepc cfg) s1 = Inr (?W s1 (c + off_mepc cfg), s2)"
    "plain_frame cfg None s s2" "?W s2 = ?W s1"
    using guest.rd_word [OF s1(2)] w(3) guest.write_read by blast
  obtain s3 where s3: "outl cfg (c + off_mepc cfg) (?W s1 (c + off_mepc cfg) + 4) s2 = Inr s3"
    "plain_frame cfg None s s3" "?W s3 (c + off_mepc cfg) = ?W s1 (c + off_mepc cfg) + 4"
    "\<forall>b. word_readable cfg None b \<longrightarrow> b \<noteq> c + off_mepc cfg \<longrightarrow> ?W s3 b = ?W s2 b"
    using guest.wr_word [OF s2(2) w(3)] by blast
  have g: "word_readable cfg None (c + off_gpr (GPR1 cfg))"
    using w(5) [OF GPR1_saved(2)] guest.write_read by blast
  obtain s4 where s4: "inl cfg (c + off_gpr (GPR1 cfg)) s3 = Inr (?W s3 (c + off_gpr (GPR1 cfg)), s4)"
    "plain_frame cfg None s s4" "?W s4 = ?W s3"
    using guest.rd_word [OF s3(2) g] by blast
  have "c + off_gpr (GPR1 cfg) \<noteq> c + off_mepc cfg"
  proof
    assume "c + off_gpr (GPR1 cfg) = c + off_mepc cfg"
    moreover have "GPR1 cfg < 64" "reg_num cfg + 2 < 64"
      using GPR1_saved(2) [of cfg] reg_num_cases [of cfg] by auto
    ultimately have "GPR1 cfg = reg_num cfg + 2"
      unfolding off_gpr_def off_mepc_def by (intro field_inj)
    then show False using GPR1_saved(2) [of cfg] by simp
  qed
  then have "?W s3 (c + off_gpr (GPR1 cfg)) = ?W s (c + off_gpr (GPR1 cfg))"
    using s3(4) g s2(3) s1(3) by simp
  then have "am_irq_handle cfg (Some h) c s = bindR (h (event_of e) c s4) (\<lambda>(c', s).
      bindR (assertR (c' \<noteq> 0) ''c != NULL'') (\<lambda>_. Inr (c', s)))"
    using s1(1) s2(1) s3(1) s4(1) mcause by (simp add: am_irq_handle_def e event_of_def)
  with s4 s3 s2 s1 show ?thesis by (intro exI [of _ s4]) auto
qed

section \<open>From yield to the resumed context\<close>

lemma yield_code_run:
  assumes "gpr (cpu s) 0 = 0"
  shows "run_seq cfg (yield_code cfg) p s = Inr (sr (cpu s) CSR_MTVEC,
    set_csrs ((sr (cpu s))(CSR_MTVAL := 0, CSR_MEPC := p + 4, CSR_MCAUSE := 0xb,
      CSR_MSTATUS := (sr (cpu s) CSR_MSTATUS AND NOT 0x88) OR push_bit 4 (sr (cpu s) CSR_MSTATUS AND 8) OR 0x1800))
      (set_reg (GPR1 cfg) (- 1) s))"
proof -
  have n: "0 < reg_num cfg" by (simp add: reg_num_def)
  have m: "signed_take_bit 11 (- 1 :: u32) = - 1" by simp
  show ?thesis
    unfolding yield_code_def run_addi [OF GPR1_saved(2) n] m assms run_ecall
    by (simp add: zero_x0_id assms)
qed

text \<open>
  The state in which the user's handler runs: the yielding thread's context is stored below
  its stack pointer, its resumption address behind the \<open>ecall\<close>.
\<close>

definition yielded :: "config \<Rightarrow> vaddr_t \<Rightarrow> system \<Rightarrow> u32 \<Rightarrow> system \<Rightarrow> bool" where
  "yielded cfg p s c u \<longleftrightarrow>
     (\<forall>r \<in> set (trap_regs cfg). word_at cfg None u (c + off_gpr r) =
        (if r = GPR1 cfg then - 1 else gpr (cpu s) r)) \<and>
     word_at cfg None u (c + off_mstatus cfg) =
       (sr (cpu s) CSR_MSTATUS AND NOT 0x88) OR push_bit 4 (sr (cpu s) CSR_MSTATUS AND 8) OR 0x1800 \<and>
     word_at cfg None u (c + off_mepc cfg) = p + 8 \<and>
     (\<forall>a. word_readable cfg None a \<longrightarrow> a \<notin> context_words cfg c \<longrightarrow>
        word_at cfg None u a = word_at cfg None s a) \<and> ram_frame cfg s u"

lemma context_words_readable: "context_ok cfg c \<Longrightarrow> a \<in> context_words cfg c \<Longrightarrow> word_readable cfg None a"
  using guest.write_read by (auto simp: context_ok_def context_words_def)

lemma field_words: "r < reg_num cfg \<Longrightarrow> c + off_gpr r \<in> context_words cfg c"
  "c + off_mepc cfg \<in> context_words cfg c" "c + off_mstatus cfg \<in> context_words cfg c"
  unfolding context_words_def off_gpr_def off_mepc_def off_mstatus_def by (rule imageI, simp)+

lemma yield_to_handler:
  assumes x0: "gpr (cpu s) 0 = 0" and c: "c = gpr (cpu s) 2 - context_size cfg" and ok: "context_ok cfg c"
  shows "\<exists>u q. yielded cfg p s c u \<and> yield cfg (Some h) p s =
    bindR (h (event_of EVENT_YIELD) c u) (\<lambda>(c', v). bindR (assertR (c' \<noteq> 0) ''c != NULL'') (\<lambda>_.
      run_seq cfg (trap_restore cfg) q (set_reg 10 c' v)))"
proof -
  let ?W = "word_at cfg None" and ?g = "GPR1 cfg"
  let ?m = "(sr (cpu s) CSR_MSTATUS AND NOT 0x88) OR push_bit 4 (sr (cpu s) CSR_MSTATUS AND 8) OR 0x1800"
  let ?s = "set_csrs ((sr (cpu s))(CSR_MTVAL := 0, CSR_MEPC := p + 4, CSR_MCAUSE := 0xb,
    CSR_MSTATUS := ?m)) (set_reg ?g (- 1) s)"
  have regs: "gpr (cpu ?s) r = (if r = ?g then - 1 else gpr (cpu s) r)" if "r \<noteq> 0" for r
    using that by simp
  have c': "c = gpr (cpu ?s) 2 - context_size cfg" and x0': "gpr (cpu ?s) 0 = 0"
    using c GPR1_saved(4) [of cfg] by simp_all
  obtain t q where t: "run_seq cfg (trap_save cfg) (sr (cpu s) CSR_MTVEC) ?s = Inr (q, t)"
    "gpr (cpu t) 10 = c" "gpr (cpu t) 0 = 0" "ram_frame cfg ?s t" "saved cfg ?s c t"
    using trap_save_run [OF x0' c' ok] by blast
  have w: "\<And>r. r \<in> set (trap_regs cfg) \<Longrightarrow> ?W t (c + off_gpr r) = gpr (cpu ?s) r"
    "?W t (c + off_mcause cfg) = 0xb" "?W t (c + off_mstatus cfg) = ?m" "?W t (c + off_mepc cfg) = p + 4"
    "\<And>a. word_readable cfg None a \<Longrightarrow> a \<notin> context_words cfg c \<Longrightarrow> ?W t a = ?W s a"
    using t(5) by (simp_all add: saved_def)
  have "EVENT_YIELD = (if ?W t (c + off_gpr ?g) = - 1 then EVENT_YIELD else EVENT_SYSCALL)"
    using w(1) [OF GPR1_saved(1)] regs [OF GPR1_saved(3)] by simp
  from irq_ecall [OF ok w(2) this] obtain u where
    u: "am_irq_handle cfg (Some h) c t = bindR (h (event_of EVENT_YIELD) c u) (\<lambda>(c', s).
      bindR (assertR (c' \<noteq> 0) ''c != NULL'') (\<lambda>_. Inr (c', s)))" "plain_frame cfg None t u"
      "?W u (c + off_mepc cfg) = ?W t (c + off_mepc cfg) + 4"
      "\<forall>a. word_readable cfg None a \<longrightarrow> a \<noteq> c + off_mepc cfg \<longrightarrow> ?W u a = ?W t a" by blast
  have run: "yield cfg (Some h) p s =
    bindR (h (event_of EVENT_YIELD) c u) (\<lambda>(c', v). bindR (assertR (c' \<noteq> 0) ''c != NULL'') (\<lambda>_.
      run_seq cfg (trap_restore cfg) (q + 8) (set_reg 10 c' v)))"
    unfolding yield_def yield_code_run [OF x0] am_asm_trap_def bindR.simps prod.case t(1,2) u(1)
    by (auto simp: bindR_assoc intro!: bindR_cong)
  have ne: "c + off_gpr r \<noteq> c + off_mepc cfg" if "r \<in> set (trap_regs cfg)" for r
    using saved_distinct(4) [OF that, of c] by (simp add: trap_offsets_def)
  have mst: "c + off_mstatus cfg \<noteq> c + off_mepc cfg"
    using saved_distinct(2) [of c cfg] by (simp add: trap_offsets_def)
  have "yielded cfg p s c u"
    unfolding yielded_def
  proof (intro conjI ballI allI impI)
    fix r assume r: "r \<in> set (trap_regs cfg)"
    have "word_readable cfg None (c + off_gpr r)"
      using trap_regs_bound [OF r] context_words_readable [OF ok] field_words(1) by blast
    with u(4) ne [OF r] w(1) [OF r] regs trap_regs_bound [OF r]
    show "?W u (c + off_gpr r) = (if r = ?g then - 1 else gpr (cpu s) r)" by simp
  next
    have "word_readable cfg None (c + off_mstatus cfg)"
      using context_words_readable [OF ok] field_words(3) by blast
    with u(4) mst w(3) show "?W u (c + off_mstatus cfg) = ?m" by simp
  next
    show "?W u (c + off_mepc cfg) = p + 8" using u(3) w(4) by simp
  next
    fix a assume a: "word_readable cfg None a" "a \<notin> context_words cfg c"
    then have "a \<noteq> c + off_mepc cfg" using field_words(2) by blast
    with a u(4) w(5) show "?W u a = ?W s a" by simp
  next
    show "ram_frame cfg s u"
      using ram_frame_trans [of cfg s ?s t] ram_frame_trans [of cfg s t u] t(4) plain_ram [OF u(2)] by simp
  qed
  with run show ?thesis by blast
qed

lemma context_readable: "context_ok cfg k \<Longrightarrow> i < reg_num cfg + 3 \<Longrightarrow> word_readable cfg None (k + of_nat (4 * i))"
  by (rule context_words_readable) (auto simp: context_words_def)

lemma yield_switches:
  assumes x0: "gpr (cpu s) 0 = 0" and c: "c = gpr (cpu s) 2 - context_size cfg" and ok: "context_ok cfg c"
    and h: "\<And>u. yielded cfg p s c u \<Longrightarrow> \<exists>k v. h (event_of EVENT_YIELD) c u = Inr (k, v) \<and> k \<noteq> 0 \<and>
      context_ok cfg k \<and> Q u k v"
  shows "\<exists>u k v t. yielded cfg p s c u \<and> h (event_of EVENT_YIELD) c u = Inr (k, v) \<and> Q u k v \<and>
    yield cfg (Some h) p s = Inr (word_at cfg None v (k + off_mepc cfg), t) \<and>
    ram_frame cfg v t \<and> harr t = harr v \<and> resumes cfg v k (cpu t)"
proof -
  obtain u q where u: "yielded cfg p s c u" "yield cfg (Some h) p s =
    bindR (h (event_of EVENT_YIELD) c u) (\<lambda>(c', v). bindR (assertR (c' \<noteq> 0) ''c != NULL'') (\<lambda>_.
      run_seq cfg (trap_restore cfg) q (set_reg 10 c' v)))"
    using yield_to_handler [OF x0 c ok, of p h] by blast
  obtain k v where k: "h (event_of EVENT_YIELD) c u = Inr (k, v)" "k \<noteq> 0" "context_ok cfg k" "Q u k v"
    using h [OF u(1)] by blast
  have "gpr (cpu (set_reg 10 k v)) 10 = k" "gpr (cpu (set_reg 10 k v)) 0 = 0" by simp_all
  from trap_restore_run [OF this context_readable [OF k(3)], of q] obtain t where t:
    "run_seq cfg (trap_restore cfg) q (set_reg 10 k v) =
       Inr (word_at cfg None (set_reg 10 k v) (k + off_mepc cfg), t)"
    "ram_frame cfg (set_reg 10 k v) t" "harr t = harr (set_reg 10 k v)" "resumes cfg (set_reg 10 k v) k (cpu t)"
    by blast
  have "harr t = harr v" using t(3) by (simp add: set_reg_def zero_x0_def)
  moreover have "resumes cfg v k (cpu t)" using t(4) by (simp add: resumes_def)
  moreover have "ram_frame cfg v t" using ram_frame_trans [of cfg v "set_reg 10 k v" t] t(2) by simp
  moreover have "yield cfg (Some h) p s = Inr (word_at cfg None v (k + off_mepc cfg), t)"
    unfolding u(2) using k(1,2) t(1) by (simp add: assertR_def)
  ultimately show ?thesis using u(1) k(1,4) by blast
qed

section \<open>Properties\<close>

lemma mret_mstatus_trap:
  "mret_mstatus ((m AND NOT 0x88) OR push_bit 4 (m AND 8) OR 0x1800) = m OR 0x1880"
  unfolding mret_mstatus_def by (rule mstatus_trap_mret)

lemma saved_words:
  "context_ok cfg c \<Longrightarrow> r < reg_num cfg \<Longrightarrow> c + off_gpr r \<in> context_words cfg c \<and> word_readable cfg None (c + off_gpr r)"
  using field_words(1) context_words_readable by blast

text \<open>C19: A thread that yields is resumed behind the \<open>ecall\<close> with all its registers, but for
  the one that carries the number of the call, when the user's handler returns the context it
  was given and leaves its words as they are. \<open>mstatus\<close> keeps its bits and has MPIE and MPP
  set.\<close>

theorem yield_resumes_caller:
  assumes x0: "gpr (cpu s) 0 = 0" and c: "c = gpr (cpu s) 2 - context_size cfg" "c \<noteq> 0"
    and ok: "context_ok cfg c"
    and h: "\<And>u. \<exists>v. h \<lparr>ev_event = EVENT_YIELD, ev_cause = 0, ev_ref = 0, ev_msg = 0\<rparr> c u = Inr (c, v) \<and>
      (\<forall>a \<in> context_words cfg c. word_at cfg None v a = word_at cfg None u a)"
  shows "\<exists>t. yield cfg (Some h) p s = Inr (p + 8, t) \<and>
    (\<forall>r < reg_num cfg. gpr (cpu t) r = (if r = GPR1 cfg then - 1 else gpr (cpu s) r)) \<and>
    sr (cpu t) CSR_MSTATUS = sr (cpu s) CSR_MSTATUS OR 0x1880"
proof -
  have h': "\<exists>k v. h (event_of EVENT_YIELD) c u = Inr (k, v) \<and> k \<noteq> 0 \<and> context_ok cfg k \<and>
      (k = c \<and> (\<forall>a \<in> context_words cfg c. word_at cfg None v a = word_at cfg None u a))" for u
    using h [of u] c(2) ok unfolding event_of_def by blast
  obtain u k v t where u: "yielded cfg p s c u" and k: "k = c"
      "\<forall>a \<in> context_words cfg c. word_at cfg None v a = word_at cfg None u a"
    and t: "yield cfg (Some h) p s = Inr (word_at cfg None v (k + off_mepc cfg), t)"
      "resumes cfg v k (cpu t)"
    using yield_switches [OF x0 c(1) ok, where h = h and p = p and Q = "\<lambda>u k v. k = c \<and>
      (\<forall>a \<in> context_words cfg c. word_at cfg None v a = word_at cfg None u a)"] h' by blast
  have w: "word_at cfg None v (c + off_mepc cfg) = p + 8"
    "word_at cfg None v (c + off_mstatus cfg) =
      (sr (cpu s) CSR_MSTATUS AND NOT 0x88) OR push_bit 4 (sr (cpu s) CSR_MSTATUS AND 8) OR 0x1800"
    using u k(2) field_words(2,3) by (simp_all add: yielded_def)
  have "gpr (cpu t) r = (if r = GPR1 cfg then - 1 else gpr (cpu s) r)" if r: "r < reg_num cfg" for r
  proof (cases "r = 0 \<or> r = 2")
    case True
    with t(2) k(1) c(1) x0 GPR1_saved(3,4) [of cfg] show ?thesis by (auto simp: resumes_def)
  next
    case False
    with r have m: "r \<in> set (trap_regs cfg)" by (intro in_trap_regs) auto
    with t(2) k(1) have "gpr (cpu t) r = word_at cfg None v (c + off_gpr r)" by (simp add: resumes_def)
    also have "\<dots> = word_at cfg None u (c + off_gpr r)" using k(2) field_words(1) [OF r] by blast
    also have "\<dots> = (if r = GPR1 cfg then - 1 else gpr (cpu s) r)" using u m by (simp add: yielded_def)
    finally show ?thesis .
  qed
  moreover have "sr (cpu t) CSR_MSTATUS = sr (cpu s) CSR_MSTATUS OR 0x1880"
    using t(2) k(1) unfolding resumes_def by (simp only: w(2) mret_mstatus_trap)
  ultimately show ?thesis using t(1) k(1) w(1) by auto
qed

text \<open>The words \<open>kcontext\<close> writes; its other words are those of the stack before.\<close>

definition fresh_context :: "config \<Rightarrow> system \<Rightarrow> u32 \<Rightarrow> u32 \<Rightarrow> u32 \<Rightarrow> bool" where
  "fresh_context cfg s k entry arg \<longleftrightarrow>
     word_at cfg None s (k + off_mepc cfg) = entry \<and> word_at cfg None s (k + off_gpr 10) = arg \<and>
     word_at cfg None s (k + off_mstatus cfg) = 0x1800"

lemma kcontext_fields_distinct:
  "distinct [k + off_mepc cfg, k + off_gpr 10, k + off_mstatus cfg, k + off_np cfg]"
proof -
  have N: "reg_num cfg + 4 < 64" "10 < reg_num cfg" using reg_num_cases [of cfg] by auto
  have *: "i \<noteq> j \<Longrightarrow> i < 64 \<Longrightarrow> j < 64 \<Longrightarrow> k + of_nat (4 * i) \<noteq> k + of_nat (4 * j)" for i j
    using field_inj by blast
  show ?thesis
    unfolding distinct.simps list.set off_mepc_def off_gpr_def off_mstatus_def off_np_def
    using *[of "reg_num cfg + 2" 10] *[of "reg_num cfg + 2" "reg_num cfg + 1"]
      *[of "reg_num cfg + 2" "reg_num cfg + 4"] *[of 10 "reg_num cfg + 1"] *[of 10 "reg_num cfg + 4"]
      *[of "reg_num cfg + 1" "reg_num cfg + 4"] N by simp
qed

lemma kcontext_run:
  assumes k: "k = en - sizeof_Context cfg" and ok: "context_ok cfg k"
  shows "\<exists>t. kcontext cfg st en entry arg s = Inr (k, t) \<and> plain_frame cfg None s t \<and>
    fresh_context cfg t k entry arg \<and>
    (\<forall>a. word_readable cfg None a \<longrightarrow> a \<notin> context_words cfg k \<longrightarrow> word_at cfg None t a = word_at cfg None s a)"
proof -
  let ?avs = "[(k + off_mepc cfg, entry), (k + off_gpr 10, arg), (k + off_mstatus cfg, 0x1800), (k + off_np cfg, 3)]"
  have N: "10 < reg_num cfg" using reg_num_cases [of cfg] by auto
  note w = context_fields [OF ok]
  have "plain_frame cfg None s s" by (simp add: plain_frame_def)
  moreover have "\<forall>(a, v) \<in> set ?avs. word_writable cfg None a" using w N by simp
  moreover have "distinct (map fst ?avs)" using kcontext_fields_distinct by simp
  ultimately obtain t where t: "foldR (\<lambda>(a, v). outl cfg a v) ?avs s = Inr t" "plain_frame cfg None s t"
    "\<forall>(a, v) \<in> set ?avs. word_at cfg None t a = v"
    "\<forall>b. word_readable cfg None b \<longrightarrow> b \<notin> fst ` set ?avs \<longrightarrow> word_at cfg None t b = word_at cfg None s b"
    using guest.write_all by blast
  have np: "k + off_np cfg \<in> context_words cfg k"
    unfolding context_words_def off_np_def by (rule imageI) simp
  have "kcontext cfg st en entry arg s = Inr (k, t)"
    using t(1) by (auto simp: kcontext_def Let_def k [symmetric] result_simps)
  moreover have "fresh_context cfg t k entry arg" using t(3) by (simp add: fresh_context_def)
  moreover have "fst ` set ?avs \<subseteq> context_words cfg k"
    using field_words(1) [OF N, of k] field_words(2,3) [of k cfg] np by simp
  ultimately show ?thesis using t(2,4) by blast
qed

lemma context_span: "k + context_size cfg = en - 8" if "k = en - sizeof_Context cfg"
  using that reg_num_cases [of cfg] by (auto simp: context_size_def sizeof_Context_def)

lemma resumes_fresh:
  assumes "resumes cfg s k m" "fresh_context cfg s k entry arg"
  shows "gpr m 10 = arg \<and> sr m CSR_MSTATUS = 0x1880"
proof -
  have "10 \<in> set (trap_regs cfg)" using reg_num_cases [of cfg] by (intro in_trap_regs) auto
  with assms show ?thesis by (auto simp: resumes_def fresh_context_def mret_mstatus_def)
qed

text \<open>The words of a context lie between its address and the end of its structure.\<close>

lemma context_words_span:
  assumes a: "a \<in> context_words cfg k" and hi: "unat k + 4 * (reg_num cfg + 5) \<le> hi" "hi < 2 ^ 32"
  shows "unat k \<le> unat a" "unat a + 4 \<le> hi"
proof -
  obtain i where i: "i < reg_num cfg + 5" "a = k + of_nat (4 * i)"
    using a unfolding context_words_def by blast
  have "unat (of_nat (4 * i) :: u32) = 4 * i"
    using i(1) reg_num_cases [of cfg] by (intro unat_of_nat_u32) auto
  then have "unat a = unat k + 4 * i"
    unfolding i(2) using hi i(1) by (subst unat_add_lem [THEN iffD1]) auto
  with i hi show "unat k \<le> unat a" "unat a + 4 \<le> hi" by auto
qed

text \<open>Contexts in the RAM of the native build.\<close>

lemma native_writable:
  assumes "4 dvd unat a" "0x80000000 \<le> unat a" "unat a + 4 \<le> 0x88000000"
  shows "word_writable native_config None a"
proof -
  have m: "unat (a - 0x80000000) = unat a - 0x80000000"
    by (subst unat_sub) (use assms in \<open>auto simp: word_le_nat_alt\<close>)
  have i: "in_pmem native_config a"
    unfolding in_pmem_def using m assms by (simp add: native_config_def word_less_nat_alt)
  with m assms show ?thesis
    by (auto simp: word_writable_def word_ptr_def readable_memory_def writable_memory_def
        guest_to_host_def native_config_def in_pmem_def)
qed

lemma native_context:
  assumes "4 dvd unat k" "0x80000000 \<le> unat k" "unat k + 148 \<le> 0x88000000"
  shows "context_ok native_config k"
  unfolding context_ok_def
proof (intro allI impI)
  fix i assume "i < reg_num native_config + 5"
  then have i: "i < 37" by (simp add: reg_num_def native_config_def)
  have "unat (of_nat (4 * i) :: u32) = 4 * i" using i by (intro unat_of_nat_u32) auto
  then have "unat (k + of_nat (4 * i)) = unat k + 4 * i"
    using i assms by (subst unat_add_lem [THEN iffD1]) auto
  with assms i show "word_writable native_config None (k + of_nat (4 * i))"
    by (intro native_writable) (auto simp: dvd_add)
qed

lemma yield_resumes_caller_witness:
  "\<exists>t. yield native_config (Some (\<lambda>e c u. Inr (c, u))) 0x80000010
      ((system0 (\<lambda>_. 0))\<lparr>cpu := cpu0\<lparr>gpr := (\<lambda>r. if r = 2 then 0x80001000 else of_nat r)\<rparr>\<rparr>) =
      Inr (0x80000018, t) \<and> gpr (cpu t) 2 = 0x80001000 \<and> gpr (cpu t) 10 = 10 \<and> gpr (cpu t) 17 = - 1"
proof -
  let ?s = "(system0 (\<lambda>_. 0))\<lparr>cpu := cpu0\<lparr>gpr := (\<lambda>r. if r = 2 then 0x80001000 else of_nat r)\<rparr>\<rparr>"
  let ?c = "0x80001000 - 140 :: u32"
  have n: "reg_num native_config = 32" "GPR1 native_config = 17" "context_size native_config = 140"
    by (simp_all add: reg_num_def native_config_def GPR1_def context_size_def)
  have "context_ok native_config ?c" by (rule native_context) simp_all
  moreover have "gpr (cpu ?s) 0 = 0" "?c = gpr (cpu ?s) 2 - context_size native_config" by (simp_all add: n)
  ultimately obtain t where
    "yield native_config (Some (\<lambda>e c u. Inr (c, u))) 0x80000010 ?s = Inr (0x80000010 + 8, t)"
    "\<forall>r < 32. gpr (cpu t) r = (if r = 17 then - 1 else gpr (cpu ?s) r)"
    using yield_resumes_caller [where s = ?s and c = ?c and cfg = native_config and h = "\<lambda>e c u. Inr (c, u)" and p = "0x80000010"]
    unfolding n by auto
  then show ?thesis by simp
qed

end
