(* ===== verification/Yield_Os.thy ===== *)
theory Yield_Os
  imports Am_Cte_Properties
begin

text \<open>
  \<open>am-kernels/kernels/yield-os/yield-os.c\<close>: two threads that yield to each other. The control
  blocks and the variable \<open>current\<close> are words of guest memory; where the linker puts them is a
  parameter. The abstract scheduler is a pair of threads that change places.
\<close>

section \<open>yield-os.c\<close>

record yos_layout =
  pcb_addr :: u32
  pcb_boot_addr :: u32
  current_addr :: u32
  f_addr :: u32

definition STACK_SIZE :: nat where
  "STACK_SIZE = 4096 * 8"

text \<open>\<open>&pcb[i]\<close>; the pointer \<open>cp\<close> is the first word of the union.\<close>

definition pcb_at :: "yos_layout \<Rightarrow> nat \<Rightarrow> u32" where
  "pcb_at L i = pcb_addr L + of_nat (STACK_SIZE * i)"

definition schedule :: "config \<Rightarrow> yos_layout \<Rightarrow> user_handler" where
  "schedule cfg L ev prev s =
     bindR (inl cfg (current_addr L) s) (\<lambda>(current, s).
     bindR (outl cfg current prev s) (\<lambda>s.
     bindR (inl cfg (current_addr L) s) (\<lambda>(current, s).
     bindR (outl cfg (current_addr L) (if current = pcb_at L 0 then pcb_at L 1 else pcb_at L 0) s) (\<lambda>s.
     bindR (inl cfg (current_addr L) s) (\<lambda>(current, s).
     inl cfg current s)))))"

definition f_char :: "u32 \<Rightarrow> u8" where
  "f_char arg = map of_char ''?AB'' ! (if arg > 2 then 0 else unat arg)"

text \<open>\<open>main\<close>, whose call of \<open>yield\<close> is at \<open>p\<close>; the address at which the machine goes on is returned.\<close>

definition yos_main :: "config \<Rightarrow> yos_layout \<Rightarrow> u32 \<Rightarrow> vaddr_t \<Rightarrow> system \<Rightarrow> (vaddr_t \<times> system) result" where
  "yos_main cfg L asm_trap p s =
     (case cte_init asm_trap (schedule cfg L) s of (user, s) \<Rightarrow>
      bindR (kcontext cfg (pcb_at L 0) (pcb_at L 1) (f_addr L) 1 s) (\<lambda>(cp, s).
      bindR (outl cfg (pcb_at L 0) cp s) (\<lambda>s.
      bindR (kcontext cfg (pcb_at L 1) (pcb_at L 2) (f_addr L) 2 s) (\<lambda>(cp, s).
      bindR (outl cfg (pcb_at L 1) cp s) (\<lambda>s.
      yield cfg user p s)))))"

section \<open>The abstract scheduler\<close>

record thread =
  th_pc :: u32
  th_regs :: "nat \<Rightarrow> u32"
  th_mstatus :: u32

text \<open>The first thread runs, the second waits. A yield parks the first one behind its \<open>ecall\<close>.\<close>

definition round_robin :: "config \<Rightarrow> thread \<times> thread \<Rightarrow> thread \<times> thread" where
  "round_robin cfg = (\<lambda>(run, wait). (wait,
     \<lparr>th_pc = th_pc run + 8, th_regs = (th_regs run)(GPR1 cfg := - 1),
      th_mstatus = th_mstatus run OR 0x1880\<rparr>))"

section \<open>The relation between the machine and the scheduler\<close>

definition layout_ok :: "config \<Rightarrow> yos_layout \<Rightarrow> bool" where
  "layout_ok cfg L \<longleftrightarrow>
     unat (pcb_addr L) + 2 * STACK_SIZE < 2 ^ 32 \<and> pcb_addr L \<noteq> 0 \<and>
     (\<forall>a \<in> {pcb_at L 0, pcb_at L 1, pcb_boot_addr L, current_addr L}. word_writable cfg None a) \<and>
     (\<forall>a \<in> {pcb_boot_addr L, current_addr L}. a < pcb_addr L \<or> pcb_at L 2 \<le> a) \<and>
     pcb_boot_addr L \<noteq> current_addr L"

text \<open>A context at \<open>k\<close> lies in the stack of thread \<open>i\<close>, above the word \<open>cp\<close>.\<close>

definition in_stack :: "config \<Rightarrow> yos_layout \<Rightarrow> nat \<Rightarrow> u32 \<Rightarrow> bool" where
  "in_stack cfg L i k \<longleftrightarrow> context_ok cfg k \<and> unat (pcb_at L i) + 4 \<le> unat k \<and>
     unat k + 4 * (reg_num cfg + 5) \<le> unat (pcb_at L (i + 1))"

definition runs :: "config \<Rightarrow> thread \<Rightarrow> vaddr_t \<Rightarrow> system \<Rightarrow> bool" where
  "runs cfg th p s \<longleftrightarrow> p = th_pc th \<and> (\<forall>r < reg_num cfg. gpr (cpu s) r = th_regs th r) \<and>
     sr (cpu s) CSR_MSTATUS = th_mstatus th"

definition waits :: "config \<Rightarrow> thread \<Rightarrow> u32 \<Rightarrow> system \<Rightarrow> bool" where
  "waits cfg th k s \<longleftrightarrow> word_at cfg None s (k + off_mepc cfg) = th_pc th \<and>
     (\<forall>r \<in> set (trap_regs cfg). word_at cfg None s (k + off_gpr r) = th_regs th r) \<and>
     mret_mstatus (word_at cfg None s (k + off_mstatus cfg)) = th_mstatus th"

definition yos_rel :: "config \<Rightarrow> yos_layout \<Rightarrow> nat \<Rightarrow> thread \<times> thread \<Rightarrow> vaddr_t \<Rightarrow> system \<Rightarrow> bool" where
  "yos_rel cfg L i = (\<lambda>(run, wait) p s. i < 2 \<and> runs cfg run p s \<and>
     word_at cfg None s (current_addr L) = pcb_at L i \<and>
     word_at cfg None s (pcb_at L (1 - i)) = th_regs wait 2 - context_size cfg \<and>
     waits cfg wait (th_regs wait 2 - context_size cfg) s \<and>
     in_stack cfg L i (th_regs run 2 - context_size cfg) \<and>
     in_stack cfg L (1 - i) (th_regs wait 2 - context_size cfg) \<and>
     th_regs run 0 = 0 \<and> th_regs wait 0 = 0)"

section \<open>One call of the scheduler\<close>

lemma pcb_addresses:
  assumes "layout_ok cfg L" "i \<le> 2"
  shows "unat (pcb_at L i) = unat (pcb_addr L) + STACK_SIZE * i"
proof -
  have "unat (of_nat (STACK_SIZE * i) :: u32) = STACK_SIZE * i"
    using assms(2) by (intro unat_of_nat_u32) (simp add: STACK_SIZE_def)
  then show ?thesis
    unfolding pcb_at_def using assms
    by (subst unat_add_lem [THEN iffD1]) (auto simp: layout_ok_def STACK_SIZE_def)
qed

lemma schedule_run:
  assumes ok: "layout_ok cfg L" and cur: "word_at cfg None s (current_addr L) = c"
    and c: "c \<in> {pcb_at L 0, pcb_at L 1, pcb_boot_addr L}"
    and n: "n = (if c = pcb_at L 0 then pcb_at L 1 else pcb_at L 0)"
  shows "\<exists>t. schedule cfg L ev prev s = Inr (word_at cfg None s n, t) \<and> plain_frame cfg None s t \<and>
    word_at cfg None t (current_addr L) = n \<and> word_at cfg None t c = prev \<and>
    (\<forall>a. word_readable cfg None a \<longrightarrow> a \<noteq> c \<longrightarrow> a \<noteq> current_addr L \<longrightarrow>
      word_at cfg None t a = word_at cfg None s a)"
proof -
  let ?W = "word_at cfg None" and ?a = "current_addr L"
  have w: "word_writable cfg None ?a" "word_writable cfg None c" "word_writable cfg None n"
    using ok c n by (auto simp: layout_ok_def)
  note r = w [THEN guest.write_read]
  have d: "pcb_at L 0 \<noteq> pcb_at L 1" "pcb_at L 0 \<noteq> ?a" "pcb_at L 1 \<noteq> ?a" "pcb_boot_addr L \<noteq> ?a"
    "pcb_boot_addr L \<noteq> pcb_at L 0" "pcb_boot_addr L \<noteq> pcb_at L 1"
    using ok pcb_addresses [OF ok, of 0] pcb_addresses [OF ok, of 1] pcb_addresses [OF ok, of 2]
    by (auto simp: layout_ok_def STACK_SIZE_def word_le_nat_alt word_less_nat_alt)
  have s: "plain_frame cfg None s s" by (simp add: plain_frame_def)
  obtain s1 where s1: "inl cfg ?a s = Inr (?W s ?a, s1)" "plain_frame cfg None s s1" "?W s1 = ?W s"
    using guest.rd_word [OF s r(1)] by blast
  obtain s2 where s2: "outl cfg c prev s1 = Inr s2" "plain_frame cfg None s s2" "?W s2 c = prev"
    "\<forall>b. word_readable cfg None b \<longrightarrow> b \<noteq> c \<longrightarrow> ?W s2 b = ?W s1 b"
    using guest.wr_word [OF s1(2) w(2)] by blast
  obtain s3 where s3: "inl cfg ?a s2 = Inr (?W s2 ?a, s3)" "plain_frame cfg None s s3" "?W s3 = ?W s2"
    using guest.rd_word [OF s2(2) r(1)] by blast
  obtain s4 where s4: "outl cfg ?a n s3 = Inr s4" "plain_frame cfg None s s4" "?W s4 ?a = n"
    "\<forall>b. word_readable cfg None b \<longrightarrow> b \<noteq> ?a \<longrightarrow> ?W s4 b = ?W s3 b"
    using guest.wr_word [OF s3(2) w(1)] by blast
  obtain s5 where s5: "inl cfg ?a s4 = Inr (?W s4 ?a, s5)" "plain_frame cfg None s s5" "?W s5 = ?W s4"
    using guest.rd_word [OF s4(2) r(1)] by blast
  obtain s6 where s6: "inl cfg n s5 = Inr (?W s5 n, s6)" "plain_frame cfg None s s6" "?W s6 = ?W s5"
    using guest.rd_word [OF s5(2) r(3)] by blast
  have ne: "c \<noteq> ?a" "n \<noteq> ?a" "n \<noteq> c" using c d n by auto
  have cur2: "?W s2 ?a = c" using s2(4) r(1) ne(1) s1(3) cur by simp
  have "?W s5 n = ?W s n" using s5(3) s4(4) s3(3) s2(4) s1(3) r(3) ne by simp
  then have "schedule cfg L ev prev s = Inr (?W s n, s6)"
    unfolding schedule_def s1(1) cur bindR.simps prod.case s2(1) s3(1) cur2 n [symmetric] s4(1) s5(1) s4(3) s6(1)
    by simp
  moreover have "?W s6 c = prev" using s6(3) s5(3) s4(4) s3(3) s2(3) r(2) ne(1) by simp
  ultimately show ?thesis
    using s6(2,3) s5(3) s4(3,4) s3(3) s2(4) s1(3) by (intro exI [of _ s6]) simp
qed

text \<open>Where a context does not reach.\<close>

lemma in_stack_words:
  assumes ok: "layout_ok cfg L" and i: "i < 2" and k: "in_stack cfg L i k" and a: "a \<in> context_words cfg k"
  shows "unat (pcb_at L i) + 4 \<le> unat a" "unat a + 4 \<le> unat (pcb_at L (i + 1))"
proof -
  have "unat (pcb_at L (i + 1)) < 2 ^ 32" by (rule order_less_le_trans [OF unsigned_less]) simp
  with context_words_span [OF a, of "unat (pcb_at L (i + 1))"] k
  show "unat (pcb_at L i) + 4 \<le> unat a" "unat a + 4 \<le> unat (pcb_at L (i + 1))"
    by (auto simp: in_stack_def)
qed

lemma in_stack_apart:
  assumes ok: "layout_ok cfg L" and i: "i < 2" and k: "in_stack cfg L i k" and a: "a \<in> context_words cfg k"
  shows "a \<notin> {pcb_at L 0, pcb_at L 1, pcb_boot_addr L, current_addr L}"
    and "in_stack cfg L (1 - i) k' \<Longrightarrow> a \<notin> context_words cfg k'"
proof -
  note b = pcb_addresses [OF ok, of 0] pcb_addresses [OF ok, of 1] pcb_addresses [OF ok, of 2]
  have two: "pcb_at L (Suc (Suc 0)) = pcb_at L 2" by (simp add: numeral_2_eq_2)
  note w = in_stack_words [OF ok i k a]
  have i2: "i = 0 \<or> i = 1" using i by auto
  show "a \<notin> {pcb_at L 0, pcb_at L 1, pcb_boot_addr L, current_addr L}"
    using w b i2 ok by (auto simp: two layout_ok_def STACK_SIZE_def word_le_nat_alt word_less_nat_alt)
  assume k': "in_stack cfg L (1 - i) k'"
  show "a \<notin> context_words cfg k'"
  proof
    assume "a \<in> context_words cfg k'"
    from in_stack_words [OF ok _ k' this] w b i2 show False
      by (auto simp: two STACK_SIZE_def)
  qed
qed

lemma in_stack_nonzero: "in_stack cfg L i k \<Longrightarrow> k \<noteq> 0"
  by (auto simp: in_stack_def)

lemma layout_readable:
  "layout_ok cfg L \<Longrightarrow> a \<in> {pcb_at L 0, pcb_at L 1, pcb_boot_addr L, current_addr L} \<Longrightarrow> word_readable cfg None a"
  using guest.write_read by (auto simp: layout_ok_def)

text \<open>A waiting thread is not disturbed by changes elsewhere.\<close>

lemma waits_cong:
  assumes "\<And>a. a \<in> context_words cfg k \<Longrightarrow> word_at cfg None t a = word_at cfg None s a"
  shows "waits cfg th k t = waits cfg th k s"
proof -
  have "word_at cfg None t (k + off_gpr r) = word_at cfg None s (k + off_gpr r)"
    if "r \<in> set (trap_regs cfg)" for r
    using assms field_words(1) trap_regs_bound [OF that] by blast
  with assms field_words(2,3) show ?thesis by (simp add: waits_def)
qed

lemma resumes_runs:
  assumes "resumes cfg s k m" "m = cpu t" "waits cfg th k s" "th_regs th 2 = k + context_size cfg" "th_regs th 0 = 0"
  shows "runs cfg th (word_at cfg None s (k + off_mepc cfg)) t"
proof -
  have "gpr (cpu t) r = th_regs th r" if r: "r < reg_num cfg" for r
  proof (cases "r = 0 \<or> r = 2")
    case True
    with assms show ?thesis by (auto simp: resumes_def)
  next
    case False
    then have "r \<in> set (trap_regs cfg)" using r by (intro in_trap_regs) auto
    with assms show ?thesis by (simp add: resumes_def waits_def)
  qed
  with assms show ?thesis by (simp add: runs_def resumes_def waits_def)
qed

text \<open>The context of a thread that has yielded, and the rest of memory.\<close>

lemma yielded_elsewhere:
  "yielded cfg p s c u \<Longrightarrow> word_readable cfg None a \<Longrightarrow> a \<notin> context_words cfg c \<Longrightarrow>
   word_at cfg None u a = word_at cfg None s a"
  unfolding yielded_def by blast

lemma yielded_waits:
  assumes u: "yielded cfg p s c u" and run: "runs cfg th p s"
  shows "waits cfg \<lparr>th_pc = th_pc th + 8, th_regs = (th_regs th)(GPR1 cfg := - 1),
      th_mstatus = th_mstatus th OR 0x1880\<rparr> c u"
proof -
  have "word_at cfg None u (c + off_gpr r) = ((th_regs th)(GPR1 cfg := - 1)) r"
    if "r \<in> set (trap_regs cfg)" for r
    using u run that trap_regs_bound [OF that] by (simp add: yielded_def runs_def)
  moreover have "mret_mstatus (word_at cfg None u (c + off_mstatus cfg)) = th_mstatus th OR 0x1880"
    using u run unfolding yielded_def runs_def by (simp only: mret_mstatus_trap)
  ultimately show ?thesis using u run by (simp add: waits_def yielded_def runs_def)
qed

lemma yield_round_robin:
  assumes ok: "layout_ok cfg L" and rel: "yos_rel cfg L i (run, wait) p s"
  shows "\<exists>t. yield cfg (Some (schedule cfg L)) p s = Inr (th_pc wait, t) \<and>
    yos_rel cfg L (1 - i) (round_robin cfg (run, wait)) (th_pc wait) t \<and> ram_frame cfg s t"
proof -
  let ?W = "word_at cfg None" and ?k = "th_regs wait 2 - context_size cfg"
    and ?c = "th_regs run 2 - context_size cfg" and ?cur = "current_addr L"
    and ?run = "snd (round_robin cfg (run, wait))"
  have i: "i < 2" and r: "runs cfg run p s" and w: "waits cfg wait ?k s"
    and cur: "?W s ?cur = pcb_at L i" and cp: "?W s (pcb_at L (1 - i)) = ?k"
    and sc: "in_stack cfg L i ?c" and sk: "in_stack cfg L (1 - i) ?k"
    and z: "th_regs run 0 = 0" "th_regs wait 0 = 0"
    using rel by (simp_all add: yos_rel_def)
  have g: "gpr (cpu s) 0 = 0" "gpr (cpu s) 2 = th_regs run 2"
    using r z reg_num_cases [of cfg] by (auto simp: runs_def)
  have i2: "i = 0 \<or> i = 1" and i': "1 - i < 2" using i by auto
  have pin: "pcb_at L i \<in> {pcb_at L 0, pcb_at L 1}" "pcb_at L (1 - i) \<in> {pcb_at L 0, pcb_at L 1}"
    using i2 by auto
  have d01: "pcb_at L 0 \<noteq> pcb_at L 1"
    using pcb_addresses [OF ok, of 0] pcb_addresses [OF ok, of 1] by (auto simp: STACK_SIZE_def)
  then have next_pcb: "pcb_at L (1 - i) = (if pcb_at L i = pcb_at L 0 then pcb_at L 1 else pcb_at L 0)"
    using i2 by auto
  define Q where "Q = (\<lambda>u k v. k = ?k \<and> ?W v ?cur = pcb_at L (1 - i) \<and> ?W v (pcb_at L i) = ?c \<and>
    (\<forall>a. word_readable cfg None a \<longrightarrow> a \<noteq> pcb_at L i \<longrightarrow> a \<noteq> ?cur \<longrightarrow> ?W v a = ?W u a) \<and>
    plain_frame cfg None u v)"
  have h: "\<exists>k v. schedule cfg L (event_of EVENT_YIELD) ?c u = Inr (k, v) \<and> k \<noteq> 0 \<and>
      context_ok cfg k \<and> Q u k v" if u: "yielded cfg p s ?c u" for u
  proof -
    have keep: "?W u a = ?W s a" if a: "a \<in> {pcb_at L 0, pcb_at L 1, pcb_boot_addr L, ?cur}" for a
    proof -
      have "a \<notin> context_words cfg ?c" using in_stack_apart(1) [OF ok i sc, of a] a by blast
      then show ?thesis by (rule yielded_elsewhere [OF u layout_readable [OF ok a]])
    qed
    have uc: "?W u ?cur = pcb_at L i" using keep [of ?cur] cur by simp
    have uk: "?W u (pcb_at L (1 - i)) = ?k" using keep [of "pcb_at L (1 - i)"] pin(2) unfolding cp by auto
    have pc: "pcb_at L i \<in> {pcb_at L 0, pcb_at L 1, pcb_boot_addr L}" using pin(1) by blast
    obtain v where v: "schedule cfg L (event_of EVENT_YIELD) ?c u = Inr (?k, v)"
      "?W v ?cur = pcb_at L (1 - i)" "?W v (pcb_at L i) = ?c"
      "\<forall>a. word_readable cfg None a \<longrightarrow> a \<noteq> pcb_at L i \<longrightarrow> a \<noteq> ?cur \<longrightarrow> ?W v a = ?W u a"
      "plain_frame cfg None u v"
      using schedule_run [OF ok uc pc next_pcb, of "event_of EVENT_YIELD" ?c] unfolding uk by blast
    have "Q u ?k v" unfolding Q_def using v(2-5) by blast
    moreover have "context_ok cfg ?k" using sk by (simp add: in_stack_def)
    ultimately show ?thesis using v(1) in_stack_nonzero [OF sk] by blast
  qed
  have gc: "?c = gpr (cpu s) 2 - context_size cfg" using g(2) by simp
  have "context_ok cfg ?c" using sc by (simp add: in_stack_def)
  from yield_switches [OF g(1) gc this, where Q = Q and h = "schedule cfg L" and p = p, OF h] obtain u k v t where
    u: "yielded cfg p s ?c u" and q: "Q u k v" and
    t: "yield cfg (Some (schedule cfg L)) p s = Inr (?W v (k + off_mepc cfg), t)"
      "harr t = harr v" "resumes cfg v k (cpu t)" "ram_frame cfg v t" by blast
  have k: "k = ?k" using q by (simp add: Q_def)
  have W: "?W t = ?W v" using t(2) by (rule word_at_cong)
  have same: "?W v a = ?W u a" if "in_stack cfg L j x" "j < 2" "a \<in> context_words cfg x" for a j x
  proof -
    have "a \<noteq> pcb_at L i" "a \<noteq> ?cur" using in_stack_apart(1) [OF ok that(2,1,3)] pin(1) by auto
    moreover have "word_readable cfg None a" using that(1,3) context_words_readable by (auto simp: in_stack_def)
    ultimately show ?thesis using q unfolding Q_def by blast
  qed
  have ii: "1 - (1 - i) = i" using i2 by auto
  have us: "?W u a = ?W s a" if a: "a \<in> context_words cfg ?k" for a
  proof -
    have "a \<notin> context_words cfg ?c" using in_stack_apart(2) [OF ok i' sk a, of ?c] sc unfolding ii by blast
    moreover have "word_readable cfg None a" using sk a context_words_readable by (auto simp: in_stack_def)
    ultimately show ?thesis using yielded_elsewhere [OF u] by blast
  qed
  have "waits cfg wait ?k v = waits cfg wait ?k s"
    by (rule waits_cong) (rule trans [OF same [OF sk i'] us])
  then have wv: "waits cfg wait ?k v" using w by blast
  have rt: "runs cfg wait (?W v (k + off_mepc cfg)) t"
    by (rule resumes_runs [OF t(3) refl]) (use wv k z(2) in simp_all)
  define R where "R = snd (round_robin cfg (run, wait))"
  have rr: "round_robin cfg (run, wait) = (wait, R)" by (simp add: R_def round_robin_def)
  have R: "th_regs R 2 = th_regs run 2" "th_regs R 0 = 0"
    using GPR1_saved(3,4) [of cfg] z by (simp_all add: R_def round_robin_def)
  have "waits cfg R ?c u" using yielded_waits [OF u r] by (simp add: R_def round_robin_def)
  moreover have "waits cfg R ?c t = waits cfg R ?c u"
    by (rule waits_cong) (simp only: W same [OF sc i])
  ultimately have wR: "waits cfg R ?c t" by blast
  have e: "?W v (k + off_mepc cfg) = th_pc wait" using rt by (simp add: runs_def)
  have wt: "?W t ?cur = pcb_at L (1 - i)" "?W t (pcb_at L i) = ?c" using q W by (simp_all add: Q_def)
  have "yos_rel cfg L (1 - i) (wait, R) (th_pc wait) t"
    unfolding yos_rel_def prod.case ii R
    using i' rt [unfolded e] wt wR sk sc z(2) by (intro conjI) simp_all
  moreover have "ram_frame cfg s u" "plain_frame cfg None u v" using u q by (simp_all add: yielded_def Q_def)
  then have "ram_frame cfg s t" using plain_ram t(4) ram_frame_trans by blast
  ultimately show ?thesis using t(1) e rr by simp
qed

section \<open>The start\<close>

text \<open>The threads \<open>main\<close> makes: they enter \<open>f\<close> with their argument on their own stack.\<close>

definition new_thread :: "yos_layout \<Rightarrow> u32 \<Rightarrow> thread \<Rightarrow> bool" where
  "new_thread L arg th \<longleftrightarrow> th_pc th = f_addr L \<and> th_regs th 10 = arg \<and>
     th_regs th 2 = pcb_at L (unat arg) - 8 \<and> th_mstatus th = 0x1880"

text \<open>What \<open>main\<close> needs: its own context, when it yields, meets neither the stacks nor the variables.\<close>

definition main_ok :: "config \<Rightarrow> yos_layout \<Rightarrow> system \<Rightarrow> bool" where
  "main_ok cfg L s \<longleftrightarrow> layout_ok cfg L \<and> gpr (cpu s) 0 = 0 \<and>
     word_at cfg None s (current_addr L) = pcb_boot_addr L \<and>
     in_stack cfg L 0 (pcb_at L 1 - sizeof_Context cfg) \<and> in_stack cfg L 1 (pcb_at L 2 - sizeof_Context cfg) \<and>
     (let c = gpr (cpu s) 2 - context_size cfg in context_ok cfg c \<and>
        (\<forall>a \<in> context_words cfg c. (a < pcb_addr L \<or> pcb_at L 2 \<le> a) \<and>
           a \<noteq> pcb_boot_addr L \<and> a \<noteq> current_addr L))"

lemma fresh_waits:
  assumes "fresh_context cfg s k entry arg"
  shows "\<exists>th. waits cfg th k s \<and> th_pc th = entry \<and> th_regs th 10 = arg \<and>
    th_regs th 2 = k + context_size cfg \<and> th_mstatus th = 0x1880 \<and> th_regs th 0 = 0"
proof -
  let ?th = "\<lparr>th_pc = entry, th_regs = (\<lambda>r. if r = 0 then 0 else if r = 2 then k + context_size cfg
    else word_at cfg None s (k + off_gpr r)), th_mstatus = 0x1880\<rparr>"
  have "waits cfg ?th k s"
    using assms trap_regs_bound [of _ cfg] by (auto simp: waits_def fresh_context_def mret_mstatus_def)
  moreover have "th_regs ?th 10 = arg" using assms by (simp add: fresh_context_def)
  ultimately show ?thesis by (intro exI [of _ ?th]) simp
qed

lemma fresh_cong:
  assumes "\<And>a. a \<in> context_words cfg k \<Longrightarrow> word_at cfg None t a = word_at cfg None s a"
  shows "fresh_context cfg t k entry arg = fresh_context cfg s k entry arg"
proof -
  have "10 < reg_num cfg" using reg_num_cases [of cfg] by auto
  with assms field_words show ?thesis by (simp add: fresh_context_def)
qed

text \<open>The machine when \<open>main\<close> yields: both control blocks point to fresh contexts.\<close>

lemma yos_main_boot:
  assumes ok: "main_ok cfg L s"
  shows "\<exists>t. yos_main cfg L a p s = yield cfg (Some (schedule cfg L)) p t \<and> gpr (cpu t) = gpr (cpu s) \<and>
    word_at cfg None t (current_addr L) = pcb_boot_addr L \<and>
    word_at cfg None t (pcb_at L 0) = pcb_at L 1 - sizeof_Context cfg \<and>
    word_at cfg None t (pcb_at L 1) = pcb_at L 2 - sizeof_Context cfg \<and>
    fresh_context cfg t (pcb_at L 1 - sizeof_Context cfg) (f_addr L) 1 \<and>
    fresh_context cfg t (pcb_at L 2 - sizeof_Context cfg) (f_addr L) 2 \<and> ram_frame cfg s t"
proof -
  let ?W = "word_at cfg None" and ?k0 = "pcb_at L 1 - sizeof_Context cfg" and ?k1 = "pcb_at L 2 - sizeof_Context cfg"
    and ?cur = "current_addr L"
  have lo: "layout_ok cfg L" and cur: "?W s ?cur = pcb_boot_addr L"
    and st: "in_stack cfg L 0 ?k0" "in_stack cfg L 1 ?k1"
    using ok by (auto simp: main_ok_def)
  have k: "context_ok cfg ?k0" "context_ok cfg ?k1" using st by (simp_all add: in_stack_def)
  define s1 where "s1 = snd (cte_init a (schedule cfg L) s)"
  have s1: "cte_init a (schedule cfg L) s = (Some (schedule cfg L), s1)" "gpr (cpu s1) = gpr (cpu s)" "?W s1 = ?W s"
    by (simp_all add: s1_def cte_init_def)
  obtain s2 where s2: "kcontext cfg (pcb_at L 0) (pcb_at L 1) (f_addr L) 1 s1 = Inr (?k0, s2)"
    "plain_frame cfg None s1 s2" "fresh_context cfg s2 ?k0 (f_addr L) 1"
    "\<forall>b. word_readable cfg None b \<longrightarrow> b \<notin> context_words cfg ?k0 \<longrightarrow> ?W s2 b = ?W s1 b"
    using kcontext_run [OF refl k(1)] by blast
  have wp: "word_writable cfg None (pcb_at L 0)" "word_writable cfg None (pcb_at L 1)"
    using lo by (auto simp: layout_ok_def)
  obtain s3 where s3: "outl cfg (pcb_at L 0) ?k0 s2 = Inr s3" "plain_frame cfg None s1 s3" "?W s3 (pcb_at L 0) = ?k0"
    "\<forall>b. word_readable cfg None b \<longrightarrow> b \<noteq> pcb_at L 0 \<longrightarrow> ?W s3 b = ?W s2 b"
    using guest.wr_word [OF s2(2) wp(1)] by blast
  obtain s4 where s4: "kcontext cfg (pcb_at L 1) (pcb_at L 2) (f_addr L) 2 s3 = Inr (?k1, s4)"
    "plain_frame cfg None s3 s4" "fresh_context cfg s4 ?k1 (f_addr L) 2"
    "\<forall>b. word_readable cfg None b \<longrightarrow> b \<notin> context_words cfg ?k1 \<longrightarrow> ?W s4 b = ?W s3 b"
    using kcontext_run [OF refl k(2)] by blast
  obtain s5 where s5: "outl cfg (pcb_at L 1) ?k1 s4 = Inr s5" "plain_frame cfg None s3 s5" "?W s5 (pcb_at L 1) = ?k1"
    "\<forall>b. word_readable cfg None b \<longrightarrow> b \<noteq> pcb_at L 1 \<longrightarrow> ?W s5 b = ?W s4 b"
    using guest.wr_word [OF s4(2) wp(2)] by blast
  have main: "yos_main cfg L a p s = yield cfg (Some (schedule cfg L)) p s5"
    unfolding yos_main_def s1(1) prod.case s2(1) bindR.simps s3(1) s4(1) s5(1) by simp
  have g: "gpr (cpu s5) = gpr (cpu s)" using s1(2) s3(2) s5(2) plain_ram by metis
  have ap0: "b \<notin> {pcb_at L 0, pcb_at L 1, pcb_boot_addr L, ?cur} \<and> b \<notin> context_words cfg ?k1"
    if "b \<in> context_words cfg ?k0" for b
    using in_stack_apart [OF lo _ st(1) that] st(2) by simp
  have ap1: "b \<notin> {pcb_at L 0, pcb_at L 1, pcb_boot_addr L, ?cur}" if "b \<in> context_words cfg ?k1" for b
    using in_stack_apart(1) [OF lo _ st(2) that] by simp
  note rd = layout_readable [OF lo] and rk = context_words_readable [OF k(1)] context_words_readable [OF k(2)]
  have d: "pcb_at L 0 \<noteq> pcb_at L 1" "?cur \<noteq> pcb_at L 0" "?cur \<noteq> pcb_at L 1"
    using lo pcb_addresses [OF lo, of 0] pcb_addresses [OF lo, of 1] pcb_addresses [OF lo, of 2]
    by (auto simp: layout_ok_def STACK_SIZE_def word_le_nat_alt word_less_nat_alt)
  have na: "?cur \<notin> context_words cfg ?k0" "?cur \<notin> context_words cfg ?k1" "pcb_at L 0 \<notin> context_words cfg ?k1"
    using ap0 [of ?cur] ap1 [of ?cur] ap1 [of "pcb_at L 0"] by auto
  have cur5: "?W s5 ?cur = pcb_boot_addr L"
    using s5(4) s4(4) s3(4) s2(4) rd [of ?cur] d(2,3) na(1,2) unfolding s1(3) cur [symmetric] by simp
  have "?W s5 (pcb_at L 0) = ?k0"
    using s5(4) s4(4) rd [of "pcb_at L 0"] d(1) na(3) unfolding s3(3) [symmetric] by simp
  moreover have "fresh_context cfg s5 ?k0 (f_addr L) 1"
  proof -
    have "?W s5 b = ?W s2 b" if b: "b \<in> context_words cfg ?k0" for b
    proof -
      have "b \<noteq> pcb_at L 0" "b \<noteq> pcb_at L 1" "b \<notin> context_words cfg ?k1"
        using ap0 [OF b] by auto
      with s5(4) s4(4) s3(4) rk(1) [OF b] show ?thesis by simp
    qed
    with fresh_cong [of cfg ?k0 s5 s2] s2(3) show ?thesis by blast
  qed
  moreover have "fresh_context cfg s5 ?k1 (f_addr L) 2"
  proof -
    have "?W s5 b = ?W s4 b" if b: "b \<in> context_words cfg ?k1" for b
      using s5(4) rk(2) [OF b] ap1 [OF b] by auto
    with fresh_cong [of cfg ?k1 s5 s4] s4(3) show ?thesis by blast
  qed
  moreover have "ram_frame cfg s s5"
  proof -
    have "ram_frame cfg s s1" by (simp add: s1_def cte_init_def)
    then show ?thesis using s3(2) s5(2) plain_ram ram_frame_trans by blast
  qed
  ultimately show ?thesis using main g cur5 s5(3) by blast
qed

lemma yos_main_run:
  assumes ok: "main_ok cfg L s"
  shows "\<exists>t a b. yos_main cfg L asm_trap p s = Inr (f_addr L, t) \<and>
    yos_rel cfg L 0 (a, b) (f_addr L) t \<and> new_thread L 1 a \<and> new_thread L 2 b \<and> ram_frame cfg s t"
proof -
  let ?W = "word_at cfg None" and ?k0 = "pcb_at L 1 - sizeof_Context cfg" and ?k1 = "pcb_at L 2 - sizeof_Context cfg"
    and ?cur = "current_addr L" and ?c = "gpr (cpu s) 2 - context_size cfg"
  have lo: "layout_ok cfg L" and c: "context_ok cfg ?c"
    and st: "in_stack cfg L 0 ?k0" "in_stack cfg L 1 ?k1"
    and apart: "\<And>a. a \<in> context_words cfg ?c \<Longrightarrow> (a < pcb_addr L \<or> pcb_at L 2 \<le> a) \<and> a \<noteq> pcb_boot_addr L \<and> a \<noteq> ?cur"
    using ok by (auto simp: main_ok_def Let_def)
  note b = pcb_addresses [OF lo, of 0] pcb_addresses [OF lo, of 1] pcb_addresses [OF lo, of 2]
  obtain s5 where s5: "yos_main cfg L asm_trap p s = yield cfg (Some (schedule cfg L)) p s5"
    "gpr (cpu s5) = gpr (cpu s)" "?W s5 ?cur = pcb_boot_addr L" "?W s5 (pcb_at L 0) = ?k0" "?W s5 (pcb_at L 1) = ?k1"
    "fresh_context cfg s5 ?k0 (f_addr L) 1" "fresh_context cfg s5 ?k1 (f_addr L) 2"
    "ram_frame cfg s s5"
    using yos_main_boot [OF ok, of asm_trap p] by blast
  have far: "a \<notin> context_words cfg ?c" if "pcb_addr L \<le> a" "a < pcb_at L 2" for a
    using apart [of a] that by auto
  have inside: "pcb_addr L \<le> a \<and> a < pcb_at L 2 \<and> word_readable cfg None a \<and> a \<noteq> pcb_boot_addr L \<and> a \<noteq> ?cur"
    if "i < 2" "in_stack cfg L i k" "a \<in> context_words cfg k" for a i k
  proof -
    have "word_readable cfg None a" using that(2,3) context_words_readable by (auto simp: in_stack_def)
    moreover have "unat (pcb_addr L) \<le> unat a \<and> unat a < unat (pcb_at L 2)"
      using in_stack_words [OF lo that] pcb_addresses [OF lo, of i] pcb_addresses [OF lo, of "i + 1"] b(3) that(1)
      by (auto simp: STACK_SIZE_def)
    ultimately show ?thesis
      using in_stack_apart(1) [OF lo that] by (simp add: word_le_nat_alt word_less_nat_alt)
  qed
  have boot: "pcb_boot_addr L \<noteq> pcb_at L 0" "pcb_boot_addr L \<noteq> pcb_at L 1" "?cur \<noteq> pcb_at L 0" "?cur \<noteq> pcb_at L 1"
    and in01: "pcb_addr L \<le> pcb_at L 0 \<and> pcb_at L 0 < pcb_at L 2" "pcb_addr L \<le> pcb_at L 1 \<and> pcb_at L 1 < pcb_at L 2"
    using lo b by (auto simp: layout_ok_def STACK_SIZE_def word_le_nat_alt word_less_nat_alt)
  define Q where "Q = (\<lambda>u k v. k = ?k0 \<and> ?W v ?cur = pcb_at L 0 \<and>
    (\<forall>a. word_readable cfg None a \<longrightarrow> a \<noteq> pcb_boot_addr L \<longrightarrow> a \<noteq> ?cur \<longrightarrow> ?W v a = ?W u a) \<and>
    plain_frame cfg None u v)"
  have h: "\<exists>k v. schedule cfg L (event_of EVENT_YIELD) ?c u = Inr (k, v) \<and> k \<noteq> 0 \<and>
      context_ok cfg k \<and> Q u k v" if u: "yielded cfg p s5 ?c u" for u
  proof -
    have "?cur \<notin> context_words cfg ?c" using apart by blast
    then have uc: "?W u ?cur = pcb_boot_addr L"
      using yielded_elsewhere [OF u layout_readable [OF lo, of ?cur]] s5(3) by simp
    have uk: "?W u (pcb_at L 0) = ?k0"
      using yielded_elsewhere [OF u layout_readable [OF lo, of "pcb_at L 0"] far] in01(1) s5(4) by simp
    obtain v where "schedule cfg L (event_of EVENT_YIELD) ?c u = Inr (?k0, v)" "?W v ?cur = pcb_at L 0"
      "\<forall>a. word_readable cfg None a \<longrightarrow> a \<noteq> pcb_boot_addr L \<longrightarrow> a \<noteq> ?cur \<longrightarrow> ?W v a = ?W u a"
      "plain_frame cfg None u v"
      using schedule_run [OF lo uc, of "pcb_at L 0" "event_of EVENT_YIELD" ?c] boot(1) unfolding uk by auto
    then show ?thesis
      using in_stack_nonzero [OF st(1)] st(1) unfolding Q_def in_stack_def by blast
  qed
  have "gpr (cpu s5) 0 = 0" "?c = gpr (cpu s5) 2 - context_size cfg" using ok s5(2) by (simp_all add: main_ok_def)
  from yield_switches [OF this c, where Q = Q and h = "schedule cfg L" and p = p, OF h] obtain u k v t where
    u: "yielded cfg p s5 ?c u" and q: "Q u k v" and
    t: "yield cfg (Some (schedule cfg L)) p s5 = Inr (?W v (k + off_mepc cfg), t)"
      "harr t = harr v" "resumes cfg v k (cpu t)" "ram_frame cfg v t" by blast
  have k: "k = ?k0" using q by (simp add: Q_def)
  have W: "?W t = ?W v" using t(2) by (rule word_at_cong)
  have same: "?W v a = ?W s5 a" if "i < 2" "in_stack cfg L i x" "a \<in> context_words cfg x" for a i x
  proof -
    note i = inside [OF that]
    have "?W v a = ?W u a" using q i unfolding Q_def by blast
    also have "\<dots> = ?W s5 a" using yielded_elsewhere [OF u] far i by blast
    finally show ?thesis .
  qed
  have f0: "fresh_context cfg v ?k0 (f_addr L) 1" and f1: "fresh_context cfg v ?k1 (f_addr L) 2"
    using fresh_cong [of cfg ?k0 v s5] same [OF _ st(1)] fresh_cong [of cfg ?k1 v s5] same [OF _ st(2)] s5(6,7)
    by auto
  obtain a where a: "waits cfg a ?k0 v" "th_pc a = f_addr L" "th_regs a 10 = 1"
    "th_regs a 2 = ?k0 + context_size cfg" "th_mstatus a = 0x1880" "th_regs a 0 = 0"
    using fresh_waits [OF f0] by blast
  obtain d where d: "waits cfg d ?k1 v" "th_pc d = f_addr L" "th_regs d 10 = 2"
    "th_regs d 2 = ?k1 + context_size cfg" "th_mstatus d = 0x1880" "th_regs d 0 = 0"
    using fresh_waits [OF f1] by blast
  have e: "?W v (k + off_mepc cfg) = f_addr L" using f0 k by (simp add: fresh_context_def)
  have ra: "runs cfg a (f_addr L) t"
    using resumes_runs [OF t(3) refl, of a] a k e by simp
  have "waits cfg d ?k1 t" using d(1) waits_cong [of cfg ?k1 t v d] W by simp
  moreover have "?W t ?cur = pcb_at L 0" using q W by (simp add: Q_def)
  moreover have "?W t (pcb_at L 1) = ?k1"
  proof -
    have r: "word_readable cfg None (pcb_at L 1)" using layout_readable [OF lo] by blast
    then have "?W v (pcb_at L 1) = ?W u (pcb_at L 1)" using q boot(2,4) unfolding Q_def by metis
    also have "\<dots> = ?k1" using yielded_elsewhere [OF u r far] in01(2) s5(5) by simp
    finally show ?thesis using W by simp
  qed
  ultimately have "yos_rel cfg L 0 (a, d) (f_addr L) t"
    unfolding yos_rel_def prod.case using ra a(4,6) d(4,6) st by simp
  moreover have "new_thread L 1 a" "new_thread L 2 d"
    using a d context_span [OF refl] by (simp_all add: new_thread_def)
  moreover have "ram_frame cfg s5 u" "plain_frame cfg None u v" using u q by (simp_all add: yielded_def Q_def)
  then have "ram_frame cfg s t" using s5(8) plain_ram t(4) ram_frame_trans by blast
  moreover have "yos_main cfg L asm_trap p s = Inr (f_addr L, t)" using s5(1) t(1) e by simp
  ultimately show ?thesis by blast
qed

end
