(* ===== verification/Yield_Os_Properties.thy ===== *)
theory Yield_Os_Properties
  imports Yield_Os Am_Ioe_Properties
begin

text \<open>
  The properties of yield-os: how it starts, that every yield is a step of the abstract
  scheduler, and what the two threads print.
\<close>

section \<open>Start and yield\<close>

text \<open>\<open>main\<close> leaves \<open>yield\<close> in the first thread: the machine goes on at \<open>f\<close> with argument 1 on the
  stack of \<open>pcb[0]\<close>, the second thread waits to enter \<open>f\<close> with argument 2 on its own stack, and the
  machine is in the relation that every later yield keeps. The stack pointers start 8 bytes below
  the ends of the stacks.\<close>

lemma yos_main_starts_threads:
  assumes "main_ok cfg L s"
  shows "\<exists>t a b. yos_main cfg L asm_trap p s = Inr (f_addr L, t) \<and>
    yos_rel cfg L 0 (a, b) (f_addr L) t \<and> new_thread L 1 a \<and> new_thread L 2 b"
  using yos_main_run [OF assms, of asm_trap p] by blast

text \<open>C17: One yield of the running thread is one step of the abstract scheduler: the machine
  goes on where the waiting thread stopped, with that thread's registers and status, and the
  thread that yielded waits in its own stack.\<close>

theorem yield_refines_round_robin:
  assumes ok: "layout_ok cfg L" and rel: "yos_rel cfg L i (run, wait) p s"
  shows "\<exists>t. yield cfg (Some (schedule cfg L)) p s = Inr (th_pc wait, t) \<and>
    yos_rel cfg L (1 - i) (round_robin cfg (run, wait)) (th_pc wait) t"
  using yield_round_robin [OF assms] by blast

section \<open>What the threads print\<close>

text \<open>
  The argument of \<open>f\<close> is a local variable of the thread that runs, the one whose control block
  \<open>current\<close> points to. A turn of the loop in \<open>f\<close> prints its letter, counts (which changes nothing
  else) and calls \<open>yield\<close> at \<open>y\<close>.
\<close>

definition running_arg :: "config \<Rightarrow> yos_layout \<Rightarrow> system \<Rightarrow> u32" where
  "running_arg cfg L s = (if word_at cfg None s (current_addr L) = pcb_at L 0 then 1 else 2)"

primrec f_turns :: "config \<Rightarrow> yos_layout \<Rightarrow> vaddr_t \<Rightarrow> nat \<Rightarrow> system \<Rightarrow> system result" where
  "f_turns cfg L y 0 s = Inr s"
| "f_turns cfg L y (Suc n) s =
     bindR (putch cfg (f_char (running_arg cfg L s)) s) (\<lambda>s.
     bindR (yield cfg (Some (schedule cfg L)) y s) (\<lambda>(p, s). f_turns cfg L y n s))"

lemma putch_keeps:
  assumes "am_serial cfg s" "putch cfg c s = Inr t"
  shows "cpu t = cpu s" "word_readable cfg None a \<Longrightarrow> word_at cfg None t a = word_at cfg None s a"
proof -
  obtain p where p: "serial_base (dev s) = Some p" and r: "dev_region cfg s SERIAL_ADDR 8 p (Some Serial_io)"
    using assms(1) by (auto simp: am_serial_def)
  let ?s = "(difftest_skip_ref cfg s)\<lparr>harr := store_le hput (hrange (A_io, p) (Suc 0)) (ucast c) (harr s)\<rparr>"
  have sp: "p < IO_SPACE_MAX" using r by (simp add: dev_region_def)
  have t: "t = serial_putc c ?s"
    using dev_write [OF r, of 0 1 "ucast c"] p sp byte_of_ucast [of c] assms(2)
    by (simp add: putch_def outb_def invoke_callback_def serial_io_handler_def reg_load_io load_le_byte)
  show "cpu t = cpu s" by (simp add: t serial_putc_def)
  have "harr t ar = harr s ar" if "ar \<noteq> A_io" for ar
    using that store_other_area [of "hrange (A_io, p) (Suc 0)" ar "ucast c" "harr s"] hrange_area [of _ "(A_io, p)" "Suc 0"]
    by (auto simp: t serial_putc_def)
  then show "word_readable cfg None a \<Longrightarrow> word_at cfg None t a = word_at cfg None s a"
    by (rule word_at_io)
qed

lemma yos_rel_putch:
  assumes lo: "layout_ok cfg L" and rel: "yos_rel cfg L i (run, wait) p s" and ser: "am_serial cfg s"
    and t: "putch cfg c s = Inr t"
  shows "yos_rel cfg L i (run\<lparr>th_pc := y\<rparr>, wait) y t"
proof -
  note k = putch_keeps [OF ser t]
  have i: "i < 2" using rel by (simp add: yos_rel_def)
  have sk: "in_stack cfg L (1 - i) (th_regs wait 2 - context_size cfg)" using rel by (simp add: yos_rel_def)
  then have "waits cfg wait (th_regs wait 2 - context_size cfg) t = waits cfg wait (th_regs wait 2 - context_size cfg) s"
    using context_words_readable by (intro waits_cong k(2)) (auto simp: in_stack_def)
  moreover have "word_at cfg None t a = word_at cfg None s a"
    if "a \<in> {pcb_at L 0, pcb_at L 1, current_addr L}" for a
    using k(2) layout_readable [OF lo, of a] that by blast
  then have "word_at cfg None t (current_addr L) = word_at cfg None s (current_addr L)"
    "word_at cfg None t (pcb_at L (1 - i)) = word_at cfg None s (pcb_at L (1 - i))"
    using i by (auto simp: less_2_cases_iff)
  ultimately show ?thesis using rel k(1) by (simp add: yos_rel_def runs_def)
qed

lemma am_serial_ram: "ram_frame cfg s t \<Longrightarrow> am_serial cfg s \<Longrightarrow> am_serial cfg t \<and> dev t = dev s"
  using dev_region_frame [of t s cfg] by (simp add: am_serial_def ram_frame_def plain_frame_def mem_frame_def)

text \<open>The letter of the turn of thread \<open>i\<close>.\<close>

definition letter :: "nat \<Rightarrow> u8" where
  "letter i = (if even i then of_char CHR ''A'' else of_char CHR ''B'')"

lemma turn_letter:
  assumes lo: "layout_ok cfg L" and rel: "yos_rel cfg L i th p s"
  shows "f_char (running_arg cfg L s) = letter i"
proof -
  have "pcb_at L 0 \<noteq> pcb_at L 1"
    using pcb_addresses [OF lo, of 0] pcb_addresses [OF lo, of 1] by (auto simp: STACK_SIZE_def)
  moreover have "i < 2" "word_at cfg None s (current_addr L) = pcb_at L i"
    using rel by (cases th; simp add: yos_rel_def)+
  ultimately show ?thesis
    by (auto simp: less_2_cases_iff running_arg_def f_char_def letter_def)
qed

lemma f_turns_run:
  assumes "layout_ok cfg L" "yos_rel cfg L i th p s" "am_serial cfg s"
  shows "\<exists>u. f_turns cfg L y n s = Inr u \<and>
    host_stderr (dev u) = host_stderr (dev s) @ map (\<lambda>j. letter (i + j)) [0..<n]"
  using assms(2,3)
proof (induction n arbitrary: s i th p)
  case (Suc n)
  obtain run wait where th: "th = (run, wait)" by (cases th)
  obtain t where t: "putch cfg (f_char (running_arg cfg L s)) s = Inr t"
    "host_stderr (dev t) = host_stderr (dev s) @ [letter i]" "am_serial cfg t"
    using putch_step [OF Suc.prems(2)] turn_letter [OF assms(1) Suc.prems(1)] by metis
  obtain u where u: "yield cfg (Some (schedule cfg L)) y t = Inr (th_pc wait, u)"
    "yos_rel cfg L (1 - i) (round_robin cfg (run\<lparr>th_pc := y\<rparr>, wait)) (th_pc wait) u" "ram_frame cfg t u"
    using yield_round_robin [OF assms(1) yos_rel_putch [OF assms(1) Suc.prems(1) [unfolded th] Suc.prems(2) t(1)]] by blast
  have su: "am_serial cfg u" "dev u = dev t" using am_serial_ram [OF u(3) t(3)] by simp_all
  obtain v where v: "f_turns cfg L y n u = Inr v"
    "host_stderr (dev v) = host_stderr (dev u) @ map (\<lambda>j. letter (1 - i + j)) [0..<n]"
    using Suc.IH [OF u(2) su(1)] by blast
  have i: "i = 0 \<or> i = 1" using Suc.prems(1) unfolding th yos_rel_def by auto
  have "letter (1 - i + j) = letter (i + Suc j)" for j using i by (auto simp: letter_def)
  then have "[letter i] @ map (\<lambda>j. letter (1 - i + j)) [0..<n] = map (\<lambda>j. letter (i + j)) [0..<Suc n]"
    by (simp add: upt_conv_Cons map_Suc_upt [symmetric] comp_def del: upt_Suc)
  then have "host_stderr (dev v) = host_stderr (dev s) @ map (\<lambda>j. letter (i + j)) [0..<Suc n]"
    using v(2) su(2) t(2) by simp
  with t(1) u(1) v(1) show ?case by simp
qed simp


section \<open>A machine that runs the program\<close>

definition native_layout :: yos_layout where
  "native_layout = \<lparr>pcb_addr = 0x80010000, pcb_boot_addr = 0x80030000, current_addr = 0x80030004,
     f_addr = 0x80000100\<rparr>"

text \<open>The program loaded on the machine \<open>m\<close>: \<open>current\<close> holds \<open>&pcb_boot\<close>.\<close>

definition native_start :: "system \<Rightarrow> system \<Rightarrow> bool" where
  "native_start m s \<longleftrightarrow> outl native_config 0x80030004 0x80030000
     (m\<lparr>cpu := cpu0\<lparr>gpr := (\<lambda>r. if r = 2 then 0x80100000 else 0)\<rparr>\<rparr>) = Inr s"

lemma native_pcbs: "pcb_at native_layout 0 = 0x80010000" "pcb_at native_layout 1 = 0x80018000"
  "pcb_at native_layout 2 = 0x80020000"
  by (simp_all add: pcb_at_def native_layout_def STACK_SIZE_def)

lemma native_start_ok:
  "\<exists>s. native_start m s \<and> main_ok native_config native_layout s \<and> ram_frame native_config m s"
proof -
  let ?s = "m\<lparr>cpu := cpu0\<lparr>gpr := (\<lambda>r. if r = 2 then 0x80100000 else 0)\<rparr>\<rparr>"
  have n: "reg_num native_config = 32" "context_size native_config = 140" "sizeof_Context native_config = 148"
    by (simp_all add: reg_num_def native_config_def context_size_def sizeof_Context_def)
  have w: "word_writable native_config None a"
    if "a \<in> {0x80010000, 0x80018000, 0x80030000, 0x80030004}" for a
    using that by (auto intro!: native_writable)
  have "plain_frame native_config None ?s ?s" by (simp add: plain_frame_def)
  from guest.wr_word [OF this, of "0x80030004" "0x80030000"] w obtain s where
    s: "outl native_config 0x80030004 0x80030000 ?s = Inr s" "plain_frame native_config None ?s s"
      "word_at native_config None s 0x80030004 = 0x80030000" by auto
  have g: "gpr (cpu s) 0 = 0" "gpr (cpu s) 2 = 0x80100000" using plain_ram [OF s(2)] by simp_all
  have lo: "layout_ok native_config native_layout"
    unfolding layout_ok_def native_pcbs using w by (simp add: native_layout_def STACK_SIZE_def)
  have st: "in_stack native_config native_layout 0 (0x80018000 - 148)"
    "in_stack native_config native_layout 1 (0x80020000 - 148)"
    unfolding in_stack_def one_add_one add_0 native_pcbs n
    by (intro conjI native_context; simp)+
  have c: "context_ok native_config (0x80100000 - 140)" by (rule native_context) simp_all
  have "0x80030004 < a" if "a \<in> context_words native_config (0x80100000 - 140)" for a
    using context_words_span [OF that, of "0x80100008"] n(1) by (simp add: word_less_nat_alt)
  then have "(a < 0x80010000 \<or> 0x80020000 \<le> a) \<and> a \<noteq> 0x80030000 \<and> a \<noteq> 0x80030004"
    if "a \<in> context_words native_config (0x80100000 - 140)" for a
    using that by (fastforce simp: word_less_nat_alt word_le_nat_alt)
  with c g lo st s(3) have "main_ok native_config native_layout s"
    unfolding main_ok_def Let_def native_pcbs n g by (simp add: native_layout_def)
  moreover have "ram_frame native_config m ?s" by simp
  then have "ram_frame native_config m s" using plain_ram [OF s(2)] ram_frame_trans by blast
  ultimately show ?thesis using s(1) by (auto simp: native_start_def)
qed

lemma yos_main_starts_threads_witness:
  "\<exists>s t a b. native_start (system0 (\<lambda>_. 0)) s \<and> yos_main native_config native_layout 0x80000200 0x80000300 s = Inr (0x80000100, t) \<and>
     new_thread native_layout 1 a \<and> new_thread native_layout 2 b \<and> runs native_config a 0x80000100 t"
proof -
  obtain s where s: "native_start (system0 (\<lambda>_. 0)) s" "main_ok native_config native_layout s" using native_start_ok by blast
  have f: "f_addr native_layout = 0x80000100" by (simp add: native_layout_def)
  from yos_main_starts_threads [OF s(2), of "0x80000200" "0x80000300"] s(1) show ?thesis
    unfolding f by (auto simp: yos_rel_def)
qed

lemma yield_refines_round_robin_witness:
  "\<exists>s t u b. native_start (system0 (\<lambda>_. 0)) s \<and> yos_main native_config native_layout 0x80000200 0x80000300 s = Inr (0x80000100, t) \<and>
     yield native_config (Some (schedule native_config native_layout)) 0x80000100 t = Inr (0x80000100, u) \<and>
     new_thread native_layout 2 b \<and> runs native_config b 0x80000100 u"
proof -
  obtain s where s: "native_start (system0 (\<lambda>_. 0)) s" "main_ok native_config native_layout s" using native_start_ok by blast
  have f: "f_addr native_layout = 0x80000100" by (simp add: native_layout_def)
  obtain t a b where t: "yos_main native_config native_layout 0x80000200 0x80000300 s = Inr (0x80000100, t)"
    "yos_rel native_config native_layout 0 (a, b) 0x80000100 t" "new_thread native_layout 2 b"
    using yos_main_run [OF s(2), of "0x80000200" "0x80000300"] unfolding f by blast
  have lo: "layout_ok native_config native_layout" using s(2) by (simp add: main_ok_def)
  have "th_pc b = 0x80000100" using t(3) f by (simp add: new_thread_def)
  with yield_refines_round_robin [OF lo t(2)] s(1) t(1,3) show ?thesis
    by (auto simp: yos_rel_def round_robin_def)
qed



end
