(* ===== verification/Am_Trm.thy ===== *)
theory Am_Trm
  imports Am_Cte Cpu_Exec
begin

text \<open>
  Start and end of a program on the emulator, \<open>abstract-machine/am/src/platform/nemu/trm.c\<close>:
  \<open>halt\<close> stops the machine by \<open>ebreak\<close>, with the program's exit code in \<open>a0\<close>. The SoC's
  \<open>halt\<close> is the same.
\<close>

definition EBREAK :: u32 where "EBREAK = 0x00100073"

text \<open>\<open>mv a0, rs; ebreak\<close>, where \<open>rs\<close> is the register that holds the exit code.\<close>

definition halt_code :: "nat \<Rightarrow> u32 list" where
  "halt_code rs = [asm_addi 10 rs 0, EBREAK]"

definition halt :: "config \<Rightarrow> nat \<Rightarrow> vaddr_t \<Rightarrow> system \<Rightarrow> (vaddr_t \<times> system) result" where
  "halt cfg rs p s = run_seq cfg (halt_code rs) p s"

text \<open>The program's \<open>main\<close> is an argument; it returns its result in \<open>a0\<close>. \<open>p\<close> is the place of \<open>halt\<close>.\<close>

definition nemu_trm_init ::
    "config \<Rightarrow> (system \<Rightarrow> (u32 \<times> system) result) \<Rightarrow> vaddr_t \<Rightarrow> system \<Rightarrow> (vaddr_t \<times> system) result" where
  "nemu_trm_init cfg main p s = bindR (main s) (\<lambda>(ret, s). halt cfg 10 p (set_reg 10 ret s))"

lemma run_ebreak:
  assumes "10 < reg_num cfg"
  shows "run_seq cfg (EBREAK # is) p s =
    run_seq cfg is (p + 4) (zero_x0 (set_nemu_state cfg NEMU_END p (gpr (cpu s) 10) s))"
proof -
  have d: "rv32_decode EBREAK = I_ebreak" by (simp add: EBREAK_def decode_simps)
  obtain ops where o: "decode_operand cfg EBREAK TYPE_N (cpu s) = Inr ops"
    by (simp add: decode_operand_def Let_def)
  show ?thesis
    using run_cons [of cfg EBREAK s ops p] read_gpr_ok [of 10 cfg "cpu s"] assms
    by (simp add: d rv32_format_def o exec_inst_def)
qed

text \<open>A program that returns from \<open>main\<close> ends the emulation, good exactly when it returned 0.\<close>

lemma main_result_is_exit_status:
  assumes "main s = Inr (ret, t)"
  shows "\<exists>u. nemu_trm_init cfg main p s = Inr (p + 8, u) \<and>
    nemu_state u = \<lparr>state = NEMU_END, halt_pc = p + 4, halt_ret = ret\<rparr> \<and>
    (fst (is_exit_status_bad u) \<longleftrightarrow> ret \<noteq> 0)"
proof -
  have n: "10 < reg_num cfg" using reg_num_cases [of cfg] by auto
  have r: "run_seq cfg (halt_code 10) p (set_reg 10 ret t) = Inr (p + 8,
      zero_x0 (set_nemu_state cfg NEMU_END (p + 4) ret (set_reg 10 ret t)))"
  proof -
    have "set_reg 10 ret (set_reg 10 ret t) = set_reg 10 ret t" "gpr (cpu (set_reg 10 ret t)) 10 = ret"
      by (simp_all add: set_reg_def zero_x0_def fun_upd_twist)
    then show ?thesis unfolding halt_code_def run_addi [OF n n] run_ebreak [OF n] by simp
  qed
  show ?thesis
    unfolding nemu_trm_init_def halt_def assms
    by (simp add: r) (simp add: set_nemu_state_def zero_x0_def is_exit_status_bad_def Let_def split: prod.split)
qed

end
