(* ===== verification/Soc_Boot.thy ===== *)
theory Soc_Boot
  imports Am_Ioe
begin

text \<open>
  Start-up of the runtime on the SoC, \<open>abstract-machine/am/src/riscv/ysyxsoc/trm.c\<close>: the first
  loader runs in flash and copies the second one to SRAM, which copies the program to RAM,
  clears its \<open>bss\<close>, sets the serial port up, prints the processor's identity and calls \<open>main\<close>.
  The port is the emulator's model of the UART.
\<close>

section \<open>trm.c\<close>

text \<open>
  The addresses the linker script defines. Loops whose end depends on a device or on the
  addresses take the number of rounds they may run.
\<close>

record segment =
  vma_start :: u32
  vma_end :: u32
  lma_start :: u32

record soc_link =
  ssbl_seg :: segment
  text_seg :: segment
  rodata_seg :: segment
  data_seg :: segment
  bss_start :: u32
  bss_end :: u32
  main_addr :: u32

abbreviation (input) UART16550_TX :: u32 where "UART16550_TX \<equiv> 0x10000000"
abbreviation (input) UART16550_DL1 :: u32 where "UART16550_DL1 \<equiv> 0x10000000"
abbreviation (input) UART16550_DL2 :: u32 where "UART16550_DL2 \<equiv> 0x10000001"
abbreviation (input) UART16550_LCR :: u32 where "UART16550_LCR \<equiv> 0x10000003"
abbreviation (input) UART16550_LSR :: u32 where "UART16550_LSR \<equiv> 0x10000005"

definition out_of_rounds :: "'a result" where
  "out_of_rounds = Inl (Undefined ''loop has not ended'')"

definition copy_segment_fsbl :: "config \<Rightarrow> segment \<Rightarrow> system \<Rightarrow> system result" where
  "copy_segment_fsbl cfg g s =
     (if vma_end g \<le> vma_start g then Inr s
      else foldR (\<lambda>i s. bindR (inl cfg (lma_start g + 4 * of_nat i) s) (\<lambda>(w, s).
             outl cfg (vma_start g + 4 * of_nat i) w s)) [0..<unat ((vma_end g - vma_start g) div 4)] s)"

definition copy_segment_ssbl :: "config \<Rightarrow> segment \<Rightarrow> system \<Rightarrow> system result" where
  "copy_segment_ssbl = copy_segment_fsbl"

definition soc_init_uart :: "config \<Rightarrow> u16 \<Rightarrow> system \<Rightarrow> system result" where
  "soc_init_uart cfg dv s =
     bindR (outb cfg UART16550_LCR 0x80 s) (\<lambda>s.
     bindR (outb cfg UART16550_DL2 (ucast (drop_bit 8 dv)) s) (\<lambda>s.
     bindR (outb cfg UART16550_DL1 (ucast dv) s) (\<lambda>s.
     outb cfg UART16550_LCR 0x03 s)))"

fun wait_ready :: "config \<Rightarrow> nat \<Rightarrow> system \<Rightarrow> system result" where
  "wait_ready cfg 0 s = out_of_rounds"
| "wait_ready cfg (Suc n) s =
     bindR (inb cfg UART16550_LSR s) (\<lambda>(lsr, s).
     if lsr AND push_bit 5 1 = 0 then wait_ready cfg n s else Inr s)"

definition soc_putch :: "config \<Rightarrow> nat \<Rightarrow> u8 \<Rightarrow> system \<Rightarrow> system result" where
  "soc_putch cfg n ch s = bindR (wait_ready cfg n s) (\<lambda>s. outb cfg UART16550_TX ch s)"

text \<open>The digits of a number, the last one first.\<close>

function low_digits :: "u32 \<Rightarrow> u8 list" where
  "low_digits num = (if num = 0 then [] else (ucast (num mod 10) + 48) # low_digits (num div 10))"
  by pat_completeness auto

termination low_digits
proof (relation "measure unat", simp)
  fix num :: u32 assume "num \<noteq> 0"
  then have "0 < unat num" by (simp add: word_neq_0_conv unat_gt_0)
  then show "(num div 10, num) \<in> measure unat" by (simp add: unat_div)
qed

declare low_digits.simps [simp del]

lemma low_digits_0: "low_digits 0 = []"
  by (simp add: low_digits.simps)

definition brandShow :: "config \<Rightarrow> nat \<Rightarrow> system \<Rightarrow> system result" where
  "brandShow cfg n s =
     (let mvendorid = sr (cpu s) CSR_MVENDORID; marchid = sr (cpu s) CSR_MARCHID in
      bindR (foldR (\<lambda>i. soc_putch cfg n (ucast (drop_bit (i * 8) mvendorid AND 0xff))) [3, 2, 1, 0] s) (\<lambda>s.
      let buf = (if marchid = 0 then [48] else []) @ low_digits marchid in
      bindR (if length buf \<le> 16 then Inr () else Inl (Undefined ''index outside buf'')) (\<lambda>_.
      bindR (foldR (soc_putch cfg n) (rev buf) s) (\<lambda>s.
      soc_putch cfg n 10 s))))"

fun clear_bss :: "config \<Rightarrow> nat \<Rightarrow> u32 \<Rightarrow> u32 \<Rightarrow> system \<Rightarrow> system result" where
  "clear_bss cfg 0 bss_ptr e s = out_of_rounds"
| "clear_bss cfg (Suc n) bss_ptr e s =
     (if bss_ptr < e then bindR (outl cfg bss_ptr 0 s) (clear_bss cfg n (bss_ptr + 4) e) else Inr s)"

text \<open>Up to the call of \<open>main\<close>, whose address is returned.\<close>

definition ssbl_main :: "config \<Rightarrow> soc_link \<Rightarrow> nat \<Rightarrow> system \<Rightarrow> (u32 \<times> system) result" where
  "ssbl_main cfg L n s =
     bindR (copy_segment_ssbl cfg (text_seg L) s) (\<lambda>s.
     bindR (copy_segment_ssbl cfg (rodata_seg L) s) (\<lambda>s.
     bindR (copy_segment_ssbl cfg (data_seg L) s) (\<lambda>s.
     bindR (clear_bss cfg n (bss_start L) (bss_end L) s) (\<lambda>s.
     bindR (soc_init_uart cfg 1 s) (\<lambda>s.
     bindR (brandShow cfg n s) (\<lambda>s. Inr (main_addr L, s)))))))"

definition trm_init :: "config \<Rightarrow> soc_link \<Rightarrow> nat \<Rightarrow> system \<Rightarrow> (u32 \<times> system) result" where
  "trm_init cfg L n s = bindR (copy_segment_fsbl cfg (ssbl_seg L) s) (\<lambda>s. ssbl_main cfg L n s)"

section \<open>The UART\<close>

definition am_uart :: "config \<Rightarrow> system \<Rightarrow> nat \<Rightarrow> bool" where
  "am_uart cfg s p \<longleftrightarrow> uart_port_base (dev s) = Some p \<and>
     dev_region cfg s 0x10000000 8 p (Some Uart_io)"

lemma store_byte: "store_le hput (hrange (A_io, q) (Suc 0)) v h = hput (A_io, q) (ucast v) h"
  by (simp add: hrange.simps)

lemma load_byte: "load_le (hget h) (hrange (A_io, q) (Suc 0)) = ucast (h A_io q)"
  by (simp add: hrange.simps)

lemma ucast_down: "(ucast (ucast (b :: u8) :: u32) :: u8) = b"
  by (rule bit_word_eqI) (auto simp: bit_ucast_iff)

lemma uart_write:
  assumes u: "am_uart cfg s p" and k: "k < 8"
  shows "outb cfg (0x10000000 + of_nat k) b s =
    (let t = (difftest_skip_ref cfg s)\<lparr>harr := hput (A_io, p + k) b (harr s)\<rparr> in
     Inr (if k = 0 \<and> (ucast (harr s A_io (p + 3)) :: u32) AND 0x80 = 0 then serial_putc b t else t))"
proof -
  have r: "dev_region cfg s 0x10000000 8 p (Some Uart_io)" and b: "uart_port_base (dev s) = Some p"
    using u by (simp_all add: am_uart_def)
  have io: "p + 8 \<le> IO_SPACE_MAX" using r by (simp add: dev_region_def)
  let ?t = "(difftest_skip_ref cfg s)\<lparr>harr := hput (A_io, p + k) b (harr s)\<rparr>"
  have "outb cfg (0x10000000 + of_nat k) b s = uart_io_handler cfg (of_nat k) 1 True ?t"
    using dev_write [OF r, of k 1 "ucast b"] k
    by (simp add: outb_def invoke_callback_def store_byte ucast_down)
  moreover have "(of_nat k :: u32) = 0 \<longleftrightarrow> k = 0" using k of_nat_u32_inj [of k 0] by simp
  ultimately show ?thesis
    using io b by (simp add: uart_io_handler_def reg_load_io load_byte Let_def ucast_down)
qed

text \<open>What the driver leaves alone.\<close>

definition uart_frame :: "system \<Rightarrow> system \<Rightarrow> bool" where
  "uart_frame s t \<longleftrightarrow> cpu t = cpu s \<and> mmio_maps t = mmio_maps s \<and>
     uart_port_base (dev t) = uart_port_base (dev s) \<and> (\<forall>ar. ar \<noteq> A_io \<longrightarrow> harr t ar = harr s ar)"

lemma uart_frame_refl [simp]: "uart_frame s s"
  by (simp add: uart_frame_def)

lemma uart_frame_trans: "uart_frame s t \<Longrightarrow> uart_frame t u \<Longrightarrow> uart_frame s u"
  by (simp add: uart_frame_def)

lemma uart_frame_uart: "uart_frame s t \<Longrightarrow> am_uart cfg s p \<Longrightarrow> am_uart cfg t p"
  using dev_region_frame [of t s cfg] by (simp add: uart_frame_def am_uart_def)

lemma uart_frame_word: "uart_frame s t \<Longrightarrow> word_readable cfg None a \<Longrightarrow> word_at cfg None t a = word_at cfg None s a"
  by (rule word_at_io) (auto simp: uart_frame_def)

text \<open>A write to a register other than the transmitter, or with the divisor latch open.\<close>

lemma uart_set:
  assumes u: "am_uart cfg s p" and k: "k < 8" and q: "k \<noteq> 0 \<or> harr s A_io (p + 3) = 0x80"
  shows "\<exists>t. outb cfg (0x10000000 + of_nat k) b s = Inr t \<and> uart_frame s t \<and>
    host_stderr (dev t) = host_stderr (dev s) \<and> harr t A_io = (harr s A_io)(p + k := b)"
  unfolding uart_write [OF u k]
  using q by (auto simp: Let_def uart_frame_def)

lemma soc_init_uart_run:
  assumes u: "am_uart cfg s p"
  shows "\<exists>t. soc_init_uart cfg dv s = Inr t \<and> uart_frame s t \<and>
    host_stderr (dev t) = host_stderr (dev s) \<and> harr t A_io (p + 3) = 3"
proof -
  obtain s1 where s1: "outb cfg (0x10000000 + of_nat 3) 0x80 s = Inr s1" "uart_frame s s1"
    "host_stderr (dev s1) = host_stderr (dev s)" "harr s1 A_io = (harr s A_io)(p + 3 := 0x80)"
    using uart_set [OF u, of 3 "0x80"] by auto
  note u1 = uart_frame_uart [OF s1(2) u]
  obtain s2 where s2: "outb cfg (0x10000000 + of_nat 1) (ucast (drop_bit 8 dv)) s1 = Inr s2" "uart_frame s1 s2"
    "host_stderr (dev s2) = host_stderr (dev s1)"
    "harr s2 A_io = (harr s1 A_io)(p + 1 := ucast (drop_bit 8 dv))"
    using uart_set [OF u1, of 1 "ucast (drop_bit 8 dv)"] by auto
  note u2 = uart_frame_uart [OF s2(2) u1]
  have "harr s2 A_io (p + 3) = 0x80" using s1(4) s2(4) by simp
  then obtain s3 where s3: "outb cfg (0x10000000 + of_nat 0) (ucast dv) s2 = Inr s3" "uart_frame s2 s3"
    "host_stderr (dev s3) = host_stderr (dev s2)"
    using uart_set [OF u2, of 0 "ucast dv"] by auto
  note u3 = uart_frame_uart [OF s3(2) u2]
  obtain s4 where s4: "outb cfg (0x10000000 + of_nat 3) 3 s3 = Inr s4" "uart_frame s3 s4"
    "host_stderr (dev s4) = host_stderr (dev s3)" "harr s4 A_io = (harr s3 A_io)(p + 3 := 3)"
    using uart_set [OF u3, of 3 3] by auto
  have "soc_init_uart cfg dv s = Inr s4"
    using s1(1) s2(1) s3(1) s4(1) by (simp add: soc_init_uart_def)
  moreover have "uart_frame s s4" using s1(2) s2(2) s3(2) s4(2) uart_frame_trans by blast
  ultimately show ?thesis using s1(3) s2(3) s3(3) s4(3,4) by simp
qed

text \<open>The emulator's port is always ready: one round of the wait is enough.\<close>

lemma wait_ready_run:
  assumes u: "am_uart cfg s p" and n: "0 < n"
  shows "\<exists>t. wait_ready cfg n s = Inr t \<and> uart_frame s t \<and>
    host_stderr (dev t) = host_stderr (dev s) \<and> harr t A_io = (harr s A_io)(p + 5 := 0x60)"
proof -
  obtain m where n: "n = Suc m" using n by (cases n) auto
  have r: "dev_region cfg s 0x10000000 8 p (Some Uart_io)" and b: "uart_port_base (dev s) = Some p"
    using u by (simp_all add: am_uart_def)
  have io: "p + 8 \<le> IO_SPACE_MAX" using r by (simp add: dev_region_def)
  let ?t = "(difftest_skip_ref cfg s)\<lparr>harr := hput (A_io, p + 5) 0x60 (harr s)\<rparr>"
  have "inb cfg UART16550_LSR s = Inr (0x60, ?t)"
    using dev_read [OF r, of 5 1] io b
    by (simp add: inb_def invoke_callback_def uart_io_handler_def reg_store_io store_byte load_byte
        UART_LSR_READY_def)
  then have "wait_ready cfg n s = Inr ?t" by (simp add: n)
  then show ?thesis by (auto simp: uart_frame_def)
qed

lemma soc_putch_step:
  assumes u: "am_uart cfg s p" "harr s A_io (p + 3) = 3" and n: "0 < n"
  shows "\<exists>t. soc_putch cfg n c s = Inr t \<and> uart_frame s t \<and>
    host_stderr (dev t) = host_stderr (dev s) @ [c] \<and> harr t A_io (p + 3) = 3"
proof -
  obtain s1 where s1: "wait_ready cfg n s = Inr s1" "uart_frame s s1"
    "host_stderr (dev s1) = host_stderr (dev s)" "harr s1 A_io = (harr s A_io)(p + 5 := 0x60)"
    using wait_ready_run [OF u(1) n] by blast
  have l: "harr s1 A_io (p + 3) = 3" using s1(4) u(2) by simp
  let ?t = "serial_putc c ((difftest_skip_ref cfg s1)\<lparr>harr := hput (A_io, p) c (harr s1)\<rparr>)"
  have "soc_putch cfg n c s = Inr ?t"
    using uart_write [OF uart_frame_uart [OF s1(2) u(1)], of 0 c] l s1(1) by (simp add: soc_putch_def Let_def)
  moreover have "uart_frame s1 ?t" by (simp add: uart_frame_def serial_putc_def)
  then have "uart_frame s ?t" using s1(2) uart_frame_trans by blast
  ultimately show ?thesis using s1(3) l by (auto simp: serial_putc_def)
qed

lemma soc_putch_all:
  assumes "am_uart cfg s p" "harr s A_io (p + 3) = 3" "0 < n"
  shows "\<exists>t. foldR (\<lambda>x. soc_putch cfg n (f x)) xs s = Inr t \<and> uart_frame s t \<and>
    host_stderr (dev t) = host_stderr (dev s) @ map f xs \<and> harr t A_io (p + 3) = 3"
  using assms(1,2)
proof (induction xs arbitrary: s)
  case (Cons x xs)
  obtain t where t: "soc_putch cfg n (f x) s = Inr t" "uart_frame s t"
    "host_stderr (dev t) = host_stderr (dev s) @ [f x]" "harr t A_io (p + 3) = 3"
    using soc_putch_step [OF Cons.prems assms(3)] by blast
  obtain u where u: "foldR (\<lambda>x. soc_putch cfg n (f x)) xs t = Inr u" "uart_frame t u"
    "host_stderr (dev u) = host_stderr (dev t) @ map f xs" "harr u A_io (p + 3) = 3"
    using Cons.IH [OF uart_frame_uart [OF t(2) Cons.prems(1)] t(4)] by blast
  from t u uart_frame_trans [OF t(2) u(2)] show ?case by simp
qed simp

section \<open>The banner\<close>

text \<open>The value the digits of \<open>low_digits\<close> denote.\<close>

fun digits_value :: "u8 list \<Rightarrow> nat" where
  "digits_value [] = 0"
| "digits_value (d # ds) = unat (d - 48) + 10 * digits_value ds"

lemma low_digits_value: "digits_value (low_digits num) = unat num"
proof (induction num rule: low_digits.induct)
  case (1 num)
  show ?case
  proof (cases "num = 0")
    case False
    have "unat (ucast (num mod 10) :: u8) = unat num mod 10"
      by (simp add: unsigned_ucast_eq unat_mod take_bit_nat_def)
    then show ?thesis
      using 1 False by (subst low_digits.simps) (simp add: unat_div)
  qed (simp add: low_digits.simps)
qed

lemma low_digits_chars: "d \<in> set (low_digits num) \<Longrightarrow> 48 \<le> d \<and> d \<le> 57"
proof (induction num rule: low_digits.induct)
  case (1 num)
  have "unat (ucast (num mod 10) + 48 :: u8) = unat num mod 10 + 48"
    by (simp add: unat_word_ariths unsigned_ucast_eq unat_mod take_bit_nat_def)
  with 1 show ?case
    by (subst (asm) (2) low_digits.simps) (auto simp: word_le_nat_alt split: if_splits)
qed

lemma low_digits_length: "unat num < 10 ^ k \<Longrightarrow> length (low_digits num) \<le> k"
proof (induction k arbitrary: num)
  case 0
  then have "num = 0" by (simp add: unat_eq_zero)
  then show ?case by (simp add: low_digits.simps)
next
  case (Suc k)
  have "unat (num div 10) < 10 ^ k" using Suc.prems by (simp add: unat_div less_mult_imp_div_less mult.commute)
  with Suc.IH [of "num div 10"] show ?case by (subst low_digits.simps) simp
qed

section \<open>The loaders\<close>

definition seg_words :: "segment \<Rightarrow> nat" where
  "seg_words g = (if vma_end g \<le> vma_start g then 0 else unat ((vma_end g - vma_start g) div 4))"

text \<open>The words of a segment, each with the word of flash it is copied from.\<close>

definition moves :: "segment \<Rightarrow> (u32 \<times> u32) list" where
  "moves g = map (\<lambda>i. (vma_start g + 4 * of_nat i, lma_start g + 4 * of_nat i)) [0..<seg_words g]"

definition all_moves :: "soc_link \<Rightarrow> (u32 \<times> u32) list" where
  "all_moves L = moves (ssbl_seg L) @ moves (text_seg L) @ moves (rodata_seg L) @ moves (data_seg L)"

definition bss_words :: "u32 \<Rightarrow> u32 \<Rightarrow> u32 list" where
  "bss_words p e = map (\<lambda>i. p + 4 * of_nat i) [0..<(unat e - unat p + 3) div 4]"

text \<open>
  What the linker script must provide: the words copied to are RAM, the words copied from
  memory, and no word is written twice or read after it was written.
\<close>

definition link_ok :: "config \<Rightarrow> soc_link \<Rightarrow> bool" where
  "link_ok cfg L \<longleftrightarrow>
     (let ds = map fst (all_moves L) @ bss_words (bss_start L) (bss_end L) in
      (\<forall>d \<in> set ds. word_writable cfg None d) \<and> (\<forall>(d, a) \<in> set (all_moves L). word_readable cfg None a) \<and>
      distinct ds \<and> set ds \<inter> snd ` set (all_moves L) = {} \<and> unat (bss_end L) + 3 < 2 ^ 32)"

abbreviation (input) move_word :: "config \<Rightarrow> u32 \<times> u32 \<Rightarrow> system \<Rightarrow> system result" where
  "move_word cfg \<equiv> (\<lambda>(d, a) s. bindR (inl cfg a s) (\<lambda>(w, t). outl cfg d w t))"

lemma copy_segment_moves:
  "copy_segment_fsbl cfg g s = foldR (move_word cfg) (moves g) s"
  by (simp add: copy_segment_fsbl_def moves_def seg_words_def foldR_over_map)

lemma copy_all_segments:
  "bindR (copy_segment_fsbl cfg (ssbl_seg L) s) (\<lambda>s.
   bindR (copy_segment_ssbl cfg (text_seg L) s) (\<lambda>s.
   bindR (copy_segment_ssbl cfg (rodata_seg L) s) (\<lambda>s.
   bindR (copy_segment_ssbl cfg (data_seg L) s) k))) = bindR (foldR (move_word cfg) (all_moves L) s) k"
  by (simp add: copy_segment_ssbl_def copy_segment_moves all_moves_def foldR_append bindR_assoc)

text \<open>The loop over \<open>bss\<close> ends after one round for each word and one more test.\<close>

lemma clear_bss_words:
  assumes "unat e + 3 < 2 ^ 32" "length (bss_words p e) < n"
  shows "clear_bss cfg n p e s = foldR (\<lambda>(a, v). outl cfg a v) (map (\<lambda>a. (a, 0)) (bss_words p e)) s"
  using assms(2)
proof (induction n arbitrary: p s)
  case (Suc n)
  show ?case
  proof (cases "p < e")
    case True
    then have lt: "unat p < unat e" by (simp add: word_less_nat_alt)
    then have p4: "unat (p + 4) = unat p + 4"
      using assms(1) by (subst unat_add_lem [THEN iffD1]) auto
    define k where "k = (unat e - unat (p + 4) + 3) div 4"
    have "(Suc y + 3) div 4 = Suc ((Suc y - 4 + 3) div 4)" for y by (cases "y < 3") simp_all
    then have "(x + 3) div 4 = Suc ((x - 4 + 3) div 4)" if "0 < x" for x :: nat
      using that by (metis gr0_implies_Suc)
    from this [of "unat e - unat p"] have k: "(unat e - unat p + 3) div 4 = Suc k"
      using lt unfolding k_def p4 by simp
    have w: "bss_words p e = p # bss_words (p + 4) e"
      unfolding bss_words_def k k_def [symmetric]
      by (simp add: upt_conv_Cons map_Suc_upt [symmetric] comp_def algebra_simps del: upt_Suc)
    have "length (bss_words (p + 4) e) < n" using Suc.prems unfolding w by simp
    then have "clear_bss cfg n (p + 4) e =
        foldR (\<lambda>(a, v). outl cfg a v) (map (\<lambda>a. (a, 0)) (bss_words (p + 4) e))"
      using Suc.IH by blast
    with True show ?thesis unfolding w by simp
  next
    case False
    then have "bss_words p e = []" by (simp add: bss_words_def word_less_nat_alt)
    with False show ?thesis by simp
  qed
qed simp

lemma brandShow_run:
  assumes u: "am_uart cfg s p" "harr s A_io (p + 3) = 3" and n: "0 < n"
  shows "\<exists>t ds. brandShow cfg n s = Inr t \<and> uart_frame s t \<and>
    host_stderr (dev t) = host_stderr (dev s) @
      map (\<lambda>i. ucast (drop_bit (i * 8) (sr (cpu s) CSR_MVENDORID) AND 0xff)) [3, 2, 1, 0] @ ds @ [10] \<and>
    ds \<noteq> [] \<and> (\<forall>d \<in> set ds. 48 \<le> d \<and> d \<le> 57) \<and> digits_value (rev ds) = unat (sr (cpu s) CSR_MARCHID)"
proof -
  let ?v = "sr (cpu s) CSR_MVENDORID" and ?m = "sr (cpu s) CSR_MARCHID"
  let ?f = "\<lambda>i. ucast (drop_bit (i * 8) ?v AND 0xff) :: u8"
  let ?buf = "(if ?m = 0 then [48] else []) @ low_digits ?m"
  obtain s1 where s1: "foldR (\<lambda>i. soc_putch cfg n (?f i)) [3, 2, 1, 0] s = Inr s1" "uart_frame s s1"
    "host_stderr (dev s1) = host_stderr (dev s) @ map ?f [3, 2, 1, 0]" "harr s1 A_io (p + 3) = 3"
    using soc_putch_all [OF u n, of ?f "[3, 2, 1, 0]"] by auto
  note u1 = uart_frame_uart [OF s1(2) u(1)]
  obtain s2 where s2: "foldR (\<lambda>x. soc_putch cfg n x) (rev ?buf) s1 = Inr s2" "uart_frame s1 s2"
    "host_stderr (dev s2) = host_stderr (dev s1) @ rev ?buf" "harr s2 A_io (p + 3) = 3"
    using soc_putch_all [OF u1 s1(4) n, of "\<lambda>x. x" "rev ?buf"] by auto
  obtain t where t: "soc_putch cfg n 10 s2 = Inr t" "uart_frame s2 t"
    "host_stderr (dev t) = host_stderr (dev s2) @ [10]"
    using soc_putch_step [OF uart_frame_uart [OF s2(2) u1] s2(4) n] by blast
  have "unat ?m < 10 ^ 10" by (rule order_less_le_trans [OF unsigned_less]) simp
  then have "length (low_digits ?m) \<le> 10" by (rule low_digits_length)
  then have len: "length ?buf \<le> 16" by (simp add: low_digits_0)
  have "brandShow cfg n s = Inr t"
    unfolding brandShow_def Let_def s1(1) bindR.simps if_P [OF len] s2(1) t(1) by simp
  moreover have "uart_frame s t" using s1(2) s2(2) t(2) uart_frame_trans by blast
  moreover have "digits_value ?buf = unat ?m" using low_digits_value [of ?m] by (simp add: low_digits_0)
  moreover have "\<forall>d \<in> set (rev ?buf). 48 \<le> d \<and> d \<le> 57" using low_digits_chars by auto
  moreover have "?buf \<noteq> []" by (cases "?m = 0") (simp_all add: low_digits.simps [of ?m])
  ultimately show ?thesis
    using s1(3) s2(3) t(3) by (intro exI [of _ t] exI [of _ "rev ?buf"]) simp
qed

section \<open>Properties\<close>

text \<open>C20: The loaders end, with one round for each word of \<open>bss\<close> and one for each wait, and hand
  over to \<open>main\<close> with the program in place: every word of the copied segments holds the word of
  flash it was linked from, every word of \<open>bss\<close> is zero, and the serial port has shown the four
  letters of \<open>mvendorid\<close>, \<open>marchid\<close> as a decimal number and a line feed.\<close>

theorem boot_loads_program:
  assumes ok: "link_ok cfg L" and uart: "am_uart cfg s p"
    and n: "length (bss_words (bss_start L) (bss_end L)) < n"
  shows "\<exists>t ds. trm_init cfg L n s = Inr (main_addr L, t) \<and>
    (\<forall>g \<in> {ssbl_seg L, text_seg L, rodata_seg L, data_seg L}. \<forall>i < seg_words g.
       word_at cfg None t (vma_start g + 4 * of_nat i) = word_at cfg None s (lma_start g + 4 * of_nat i)) \<and>
    (\<forall>a \<in> set (bss_words (bss_start L) (bss_end L)). word_at cfg None t a = 0) \<and>
    host_stderr (dev t) = host_stderr (dev s) @
      map (\<lambda>i. ucast (drop_bit (i * 8) (sr (cpu s) CSR_MVENDORID) AND 0xff)) [3, 2, 1, 0] @ ds @ [10] \<and>
    ds \<noteq> [] \<and> (\<forall>d \<in> set ds. 48 \<le> d \<and> d \<le> 57) \<and> digits_value (rev ds) = unat (sr (cpu s) CSR_MARCHID)"
proof -
  let ?W = "word_at cfg None" and ?bs = "bss_words (bss_start L) (bss_end L)"
  note l = ok [unfolded link_ok_def Let_def]
  have w: "\<forall>(d, a) \<in> set (all_moves L). word_writable cfg None d \<and> word_readable cfg None a"
    "\<forall>(a, v) \<in> set (map (\<lambda>a. (a, 0)) ?bs). word_writable cfg None a"
    using l by (force, auto)
  have d: "distinct (map fst (all_moves L))" "distinct ?bs" "set (map fst (all_moves L)) \<inter> set ?bs = {}"
      "fst ` set (all_moves L) \<inter> snd ` set (all_moves L) = {}" "unat (bss_end L) + 3 < 2 ^ 32"
    using l by (simp_all add: Int_Un_distrib Int_Un_distrib2)
  have s: "plain_frame cfg None s s" by (simp add: plain_frame_def)
  obtain s1 where s1: "foldR (move_word cfg) (all_moves L) s = Inr s1" "plain_frame cfg None s s1"
    "\<forall>(d, a) \<in> set (all_moves L). ?W s1 d = ?W s a"
    using guest.copy_all [OF s w(1) d(1,4)] by blast
  have "distinct (map fst (map (\<lambda>a. (a, 0 :: u32)) ?bs))" using d(2) by (simp add: comp_def)
  from guest.write_all [OF s1(2) w(2) this] obtain s2 where
    s2: "clear_bss cfg n (bss_start L) (bss_end L) s1 = Inr s2" "plain_frame cfg None s s2"
      "\<forall>a \<in> set ?bs. ?W s2 a = 0"
      "\<forall>b. word_readable cfg None b \<longrightarrow> b \<notin> set ?bs \<longrightarrow> ?W s2 b = ?W s1 b"
    unfolding clear_bss_words [OF d(5) n] by (auto simp: image_image)
  have c2: "cpu s2 = cpu s" "host_stderr (dev s2) = host_stderr (dev s)" "am_uart cfg s2 p"
    using s2(2) uart dev_region_frame [of s2 s cfg]
    by (simp_all add: plain_frame_def mem_frame_def am_uart_def)
  obtain s3 where s3: "soc_init_uart cfg 1 s2 = Inr s3" "uart_frame s2 s3"
    "host_stderr (dev s3) = host_stderr (dev s2)" "harr s3 A_io (p + 3) = 3"
    using soc_init_uart_run [OF c2(3)] by blast
  have n0: "0 < n" using n by simp
  have c3: "cpu s3 = cpu s" using s3(2) c2(1) by (simp add: uart_frame_def)
  obtain t ds where t: "brandShow cfg n s3 = Inr t" "uart_frame s3 t"
    "host_stderr (dev t) = host_stderr (dev s3) @
      map (\<lambda>i. ucast (drop_bit (i * 8) (sr (cpu s) CSR_MVENDORID) AND 0xff)) [3, 2, 1, 0] @ ds @ [10]"
    "ds \<noteq> []" "\<forall>d \<in> set ds. 48 \<le> d \<and> d \<le> 57" "digits_value (rev ds) = unat (sr (cpu s) CSR_MARCHID)"
    using brandShow_run [OF uart_frame_uart [OF s3(2) c2(3)] s3(4) n0] unfolding c3 by blast
  have run: "trm_init cfg L n s = Inr (main_addr L, t)"
    unfolding trm_init_def ssbl_main_def copy_all_segments s1(1) bindR.simps s2(1) s3(1) t(1) ..
  have f: "uart_frame s2 t" using s3(2) t(2) uart_frame_trans by blast
  have keep: "?W t a = ?W s2 a" if "word_writable cfg None a" for a
    using uart_frame_word [OF f guest.write_read [OF that]] .
  have moved: "?W t d = ?W s a" if m: "(d, a) \<in> set (all_moves L)" for d a
  proof -
    have wd: "word_writable cfg None d" using w(1) m by blast
    have "d \<notin> set ?bs" using d(3) m by force
    then have "?W s2 d = ?W s1 d" using s2(4) guest.write_read [OF wd] by blast
    then show ?thesis using keep [OF wd] s1(3) m by auto
  qed
  have "?W t (vma_start g + 4 * of_nat i) = ?W s (lma_start g + 4 * of_nat i)"
    if "g \<in> {ssbl_seg L, text_seg L, rodata_seg L, data_seg L}" "i < seg_words g" for g i
    by (rule moved) (use that in \<open>auto simp: all_moves_def moves_def\<close>)
  moreover have "?W t a = 0" if "a \<in> set ?bs" for a
    using keep [of a] s2(3) that w(2) by auto
  ultimately show ?thesis using run t(3-6) s3(3) c2(2) by (intro exI [of _ t] exI [of _ ds]) simp
qed

section \<open>A machine that boots\<close>

definition soc_dev_config :: dev_config where
  "soc_dev_config = (native_dev_config (\<lambda>_. 0))\<lparr>HAS_SERIAL := False, HAS_TIMER := False, HAS_VGA := False,
     HAS_KEYBOARD := False, HAS_AUDIO := False, HAS_DISK := False, HAS_UART16550 := True, HAS_CLINT := True\<rparr>"

lemmas soc_areas = in_pmem_def in_mrom_def in_flash_def in_sram_def in_psram_def in_sdram_def in_range_def
  soc_config_def native_config_def

lemma soc_dev_region:
  assumes "maps_ok (mmio_maps t)"
    and "(lo, lo + of_nat (n - 1), sp, c) \<in>
      set (map (\<lambda>m. (map_low m, map_high m, map_space m, map_callback m)) (mmio_maps t))"
    and "(lo, n) \<in> {(0x10000000, 8), (0x02000000, 0x10000)}" "sp + n \<le> IO_SPACE_MAX"
  shows "dev_region soc_config t lo n sp c"
proof -
  have "\<exists>m \<in> set (mmio_maps t). map_low m = lo \<and> map_high m = lo + of_nat (n - 1) \<and>
      map_space m = sp \<and> map_callback m = c"
    using assms(2) by auto
  moreover have "\<not> readable_memory soc_config a \<and> \<not> writable_memory soc_config a"
    if "lo \<le> a" "unat a < unat lo + n" for a
    using that assms(3) by (auto simp: readable_memory_def writable_memory_def guest_in_memory_def
        guest_in_ram_def soc_areas word_le_nat_alt word_less_nat_alt unat_sub_if')
  moreover have "0 < n" "unat lo + n \<le> 2 ^ 32" using assms(3) by auto
  ultimately show ?thesis
    using assms(1,4) by (simp add: dev_region_def) (simp add: soc_config_def native_config_def)
qed

lemma soc_machine:
  "\<exists>t. init_device soc_config soc_dev_config (system0 clk) = Inr t \<and> am_uart soc_config t 0 \<and>
     dev_region soc_config t 0x02000000 0x10000 0x1000 (Some Clint_io) \<and>
     clint_port_base (dev t) = Some 0x1000 \<and> host_stderr (dev t) = [] \<and> host_clock (dev t) = clk \<and>
     boot_time (dev t) = 0 \<and> clock_reads (dev t) = 0"
proof -
  obtain t where t: "init_device soc_config soc_dev_config (system0 clk) = Inr t"
    and maps: "map (\<lambda>m. (map_low m, map_high m, map_space m, map_callback m)) (mmio_maps t) =
       [(0x10000000, 0x10000007, 0, Some Uart_io), (0x02000000, 0x0200ffff, 0x1000, Some Clint_io)]"
    and base: "uart_port_base (dev t) = Some 0" "clint_port_base (dev t) = Some 0x1000"
      "host_stderr (dev t) = []" "host_clock (dev t) = clk" "boot_time (dev t) = 0" "clock_reads (dev t) = 0"
    by (simp add: init_device_defs soc_dev_config_def soc_config_def native_defs new_space_eval Let_def
        in_pmem_def NR_MAP_def IO_SPACE_MAX_def reg_store_io assertR_def)
  have ok: "maps_ok (mmio_maps t)" using init_device_maps_ok [OF t] by (simp add: system0_def maps_ok_def)
  note reg = soc_dev_region [OF ok, unfolded maps]
  have "am_uart soc_config t 0"
    using reg [of "0x10000000" 8 0 "Some Uart_io"] base by (simp add: am_uart_def IO_SPACE_MAX_def)
  moreover have "dev_region soc_config t 0x02000000 0x10000 0x1000 (Some Clint_io)"
    using reg [of "0x02000000" "0x10000" "0x1000" "Some Clint_io"] by (simp add: IO_SPACE_MAX_def)
  ultimately show ?thesis using t base by blast
qed

definition small_link :: soc_link where
  "small_link = \<lparr>ssbl_seg = \<lparr>vma_start = 0x0f000000, vma_end = 0x0f000008, lma_start = 0x30001000\<rparr>,
     text_seg = \<lparr>vma_start = 0xa0000000, vma_end = 0xa0000008, lma_start = 0x30002000\<rparr>,
     rodata_seg = \<lparr>vma_start = 0xa0000008, vma_end = 0xa000000c, lma_start = 0x30003000\<rparr>,
     data_seg = \<lparr>vma_start = 0xa000000c, vma_end = 0xa000000c, lma_start = 0x30004000\<rparr>,
     bss_start = 0xa0000010, bss_end = 0xa0000018, main_addr = 0xa0000004\<rparr>"

lemma small_link_words:
  "bss_words (bss_start small_link) (bss_end small_link) = [0xa0000010, 0xa0000014]"
  "all_moves small_link = [(0x0f000000, 0x30001000), (0x0f000004, 0x30001004), (0xa0000000, 0x30002000),
     (0xa0000004, 0x30002004), (0xa0000008, 0x30003000)]"
  by (simp_all add: bss_words_def all_moves_def moves_def seg_words_def small_link_def upt_rec)

lemma small_link_ok: "link_ok soc_config small_link"
proof -
  have "word_writable soc_config None a"
    if "a \<in> {0x0f000000, 0x0f000004, 0xa0000000, 0xa0000004, 0xa0000008, 0xa0000010, 0xa0000014}" for a
    using that
    by (elim insertE emptyE; hypsubst) (simp_all add: word_writable_def word_ptr_def readable_memory_def
        writable_memory_def guest_in_memory_def guest_in_ram_def guest_to_host_def soc_areas)
  moreover have "word_readable soc_config None a"
    if "a \<in> {0x30001000, 0x30001004, 0x30002000, 0x30002004, 0x30003000}" for a
    using that
    by (elim insertE emptyE; hypsubst) (simp_all add: word_readable_def word_ptr_def readable_memory_def
        guest_in_memory_def guest_to_host_def soc_areas)
  ultimately show ?thesis
    unfolding link_ok_def Let_def small_link_words by (simp add: small_link_def)
qed

lemma boot_loads_program_witness:
  "\<exists>m t ds. init_device soc_config soc_dev_config (system0 (\<lambda>_. 0)) = Inr m \<and>
     trm_init soc_config small_link 3 (m\<lparr>cpu := cpu0\<lparr>sr := (\<lambda>r. if r = CSR_MVENDORID then 0x79737978 else 23060)\<rparr>\<rparr>) =
       Inr (0xa0000004, t) \<and>
     word_at soc_config None t 0xa0000004 = word_at soc_config None m 0x30002004 \<and>
     word_at soc_config None t 0xa0000014 = 0 \<and>
     host_stderr (dev t) = map of_char ''ysyx'' @ ds @ [10] \<and> digits_value (rev ds) = 23060"
proof -
  obtain m where m: "init_device soc_config soc_dev_config (system0 (\<lambda>_. 0)) = Inr m"
    "am_uart soc_config m 0" "host_stderr (dev m) = []" using soc_machine by blast
  let ?s = "m\<lparr>cpu := cpu0\<lparr>sr := (\<lambda>r. if r = CSR_MVENDORID then 0x79737978 else 23060)\<rparr>\<rparr>"
  have u: "am_uart soc_config ?s 0" using m(2) dev_region_frame [of ?s m] by (simp add: am_uart_def)
  have w: "word_at soc_config None ?s = word_at soc_config None m" by (rule word_at_cong) simp
  have "length (bss_words (bss_start small_link) (bss_end small_link)) < 3" unfolding small_link_words by simp
  from boot_loads_program [OF small_link_ok u this] obtain t ds where
    t: "trm_init soc_config small_link 3 ?s = Inr (main_addr small_link, t)"
      "\<forall>i < seg_words (text_seg small_link). word_at soc_config None t (vma_start (text_seg small_link) + 4 * of_nat i) =
         word_at soc_config None m (lma_start (text_seg small_link) + 4 * of_nat i)"
      "\<forall>a \<in> {0xa0000010, 0xa0000014}. word_at soc_config None t a = 0"
      "host_stderr (dev t) = map (\<lambda>i. ucast (drop_bit (i * 8) (0x79737978 :: u32) AND 0xff)) [3, 2, 1, 0] @ ds @ [10]"
      "digits_value (rev ds) = 23060"
    unfolding small_link_words w using m(3) by auto
  have "seg_words (text_seg small_link) = 2" by (simp add: seg_words_def small_link_def)
  with t(2) have "word_at soc_config None t 0xa0000004 = word_at soc_config None m 0x30002004"
    by (auto simp: small_link_def dest: spec [of _ 1])
  moreover have "map (\<lambda>i. ucast (drop_bit (i * 8) (0x79737978 :: u32) AND 0xff)) [3, 2, 1, 0] =
      (map of_char ''ysyx'' :: u8 list)" by simp
  moreover have "main_addr small_link = 0xa0000004" by (simp add: small_link_def)
  ultimately show ?thesis using m(1) t by auto
qed

end
