(* ===== verification/Soc_Ioe.thy ===== *)
theory Soc_Ioe
  imports Soc_Boot Am_Ioe_Properties
begin

text \<open>
  The runtime's drivers for the SoC, \<open>abstract-machine/am/src/riscv/ysyxsoc\<close>: \<open>input.c\<close> (a
  PS/2 keyboard), \<open>gpu.c\<close>, \<open>timer.c\<close> and \<open>ioe.c\<close>. Keyboard and screen are hardware that the
  repository does not hold, so the drivers take the accesses of the board as an argument; the
  timer is also run on the emulator's model of the CLINT.
\<close>

section \<open>The board\<close>

record 's board =
  b_inb :: "u32 \<Rightarrow> 's \<Rightarrow> (u8 \<times> 's) result"
  b_inl :: "u32 \<Rightarrow> 's \<Rightarrow> (u32 \<times> 's) result"
  b_outb :: "u32 \<Rightarrow> u8 \<Rightarrow> 's \<Rightarrow> 's result"
  b_outl :: "u32 \<Rightarrow> u32 \<Rightarrow> 's \<Rightarrow> 's result"

definition nemu_board :: "config \<Rightarrow> system board" where
  "nemu_board cfg = \<lparr>b_inb = inb cfg, b_inl = inl cfg, b_outb = outb cfg, b_outl = outl cfg\<rparr>"

abbreviation (input) SOC_RTC_ADDR :: u32 where "SOC_RTC_ADDR \<equiv> 0x02000048"
abbreviation (input) UART16550_RX :: u32 where "UART16550_RX \<equiv> 0x10000000"
abbreviation (input) PS2 :: u32 where "PS2 \<equiv> 0x10011000"
abbreviation (input) VGA :: u32 where "VGA \<equiv> 0x21000000"

section \<open>input.c\<close>

definition scancode_keys :: "(string \<times> nat) list" where
  "scancode_keys =
    [(''ESCAPE'', 0x76), (''F1'', 0x05), (''F2'', 0x06), (''F3'', 0x04), (''F4'', 0x0C), (''F5'', 0x03),
     (''F6'', 0x0B), (''F7'', 0x83), (''F8'', 0x0A), (''F9'', 0x01), (''F10'', 0x09), (''F11'', 0x78),
     (''F12'', 0x07),
     (''GRAVE'', 0x0E), (''1'', 0x16), (''2'', 0x1E), (''3'', 0x26), (''4'', 0x25), (''5'', 0x2E),
     (''6'', 0x36), (''7'', 0x3D), (''8'', 0x3E), (''9'', 0x46), (''0'', 0x45), (''MINUS'', 0x4E),
     (''EQUALS'', 0x55), (''BACKSPACE'', 0x66),
     (''TAB'', 0x0D), (''Q'', 0x15), (''W'', 0x1D), (''E'', 0x24), (''R'', 0x2D), (''T'', 0x2C),
     (''Y'', 0x35), (''U'', 0x3C), (''I'', 0x43), (''O'', 0x44), (''P'', 0x4D), (''LEFTBRACKET'', 0x54),
     (''RIGHTBRACKET'', 0x5B), (''BACKSLASH'', 0x5D),
     (''CAPSLOCK'', 0x58), (''A'', 0x1C), (''S'', 0x1B), (''D'', 0x23), (''F'', 0x2B), (''G'', 0x34),
     (''H'', 0x33), (''J'', 0x3B), (''K'', 0x42), (''L'', 0x4B), (''SEMICOLON'', 0x4C),
     (''APOSTROPHE'', 0x52), (''RETURN'', 0x5A),
     (''LSHIFT'', 0x12), (''Z'', 0x1A), (''X'', 0x22), (''C'', 0x21), (''V'', 0x2A), (''B'', 0x32),
     (''N'', 0x31), (''M'', 0x3A), (''COMMA'', 0x41), (''PERIOD'', 0x49), (''SLASH'', 0x4A),
     (''RSHIFT'', 0x59),
     (''LCTRL'', 0x14), (''APPLICATION'', 0x11), (''LALT'', 0x11), (''SPACE'', 0x29), (''RALT'', 0x111),
     (''RCTRL'', 0x114),
     (''UP'', 0x175), (''DOWN'', 0x172), (''LEFT'', 0x16B), (''RIGHT'', 0x174), (''INSERT'', 0x170),
     (''DELETE'', 0x171), (''HOME'', 0x16C), (''END'', 0x169), (''PAGEUP'', 0x17D), (''PAGEDOWN'', 0x17A)]"

definition am_keymap_init :: "int list \<Rightarrow> int list" where
  "am_keymap_init = fold (\<lambda>(k, c) m. m[c := am_key k]) scancode_keys"

text \<open>Bytes of a scan code are read until one that is not a prefix; it may never come.\<close>

partial_function (option) getScan :: "'s board \<Rightarrow> u16 \<Rightarrow> 's \<Rightarrow> (u16 \<times> 's) result option" where
  "getScan b scanMid s =
     (case b_inb b PS2 s of
        Inl e \<Rightarrow> Some (Inl e)
      | Inr (code, s) \<Rightarrow>
          if code = 0xE0 then getScan b (scanMid OR push_bit 8 1) s
          else if code = 0xF0 then getScan b (scanMid OR push_bit 9 1) s
          else Some (Inr ((scanMid AND 0xFF00) OR ucast code, s)))"

text \<open>The buffer's fields before the call are those of the caller's variable.\<close>

definition soc_input_keybrd :: "'s board \<Rightarrow> int list \<Rightarrow> bool \<times> int \<Rightarrow> 's \<Rightarrow> ((bool \<times> int) \<times> 's) result option"
where
  "soc_input_keybrd b km kbd s =
     (case getScan b 0 s of
        None \<Rightarrow> None
      | Some (Inl e) \<Rightarrow> Some (Inl e)
      | Some (Inr (scanMid, s)) \<Rightarrow>
          let kbd = (if scanMid = 0 then (fst kbd, 0) else kbd);
              kbd = (if drop_bit 9 scanMid = 1 then (False, snd kbd) else kbd)
          in Some (Inr ((fst kbd, km ! unat (scanMid AND 0x1FF)), s)))"

section \<open>timer.c and gpu.c\<close>

definition soc_timer_uptime :: "'s board \<Rightarrow> 's \<Rightarrow> (u64 \<times> 's) result" where
  "soc_timer_uptime b s =
     bindR (b_inl b (SOC_RTC_ADDR + 4) s) (\<lambda>(high_part, s).
     bindR (b_inl b SOC_RTC_ADDR s) (\<lambda>(low_part, s).
     Inr (push_bit 32 (ucast high_part) OR ucast low_part, s)))"

definition soc_gpu_config :: am_buf where
  "soc_gpu_config = GPU_CONFIG_T True False 640 480 0"

text \<open>The picture is copied without looking at the size of the screen.\<close>

definition soc_draw_pixel :: "'s board \<Rightarrow> fbdraw \<Rightarrow> int \<Rightarrow> int \<times> int \<Rightarrow> 's \<Rightarrow> 's result" where
  "soc_draw_pixel b ctl start = (\<lambda>(i, j) s.
     bindR (b_inl b (fb_pixels ctl + 4 * of_int (i * fb_w ctl + j)) s) (\<lambda>(c, s).
     b_outl b (VGA + 4 * of_int (start + 640 * i + j)) c s))"

definition soc_gpu_fbdraw :: "'s board \<Rightarrow> fbdraw \<Rightarrow> 's \<Rightarrow> (fbdraw \<times> 's) result" where
  "soc_gpu_fbdraw b ctl s =
     bindR (c_int (fb_y ctl * 640)) (\<lambda>row.
     bindR (c_int (row + fb_x ctl)) (\<lambda>start.
     bindR (foldR (soc_draw_pixel b ctl start)
              [(i, j). i \<leftarrow> [0..fb_h ctl - 1], j \<leftarrow> [0..fb_w ctl - 1]] s) (\<lambda>s.
     Inr (ctl\<lparr>fb_sync := True\<rparr>, s))))"

section \<open>ioe.c\<close>

partial_function (option) wait_thre :: "'s board \<Rightarrow> 's \<Rightarrow> 's result option" where
  "wait_thre b s =
     (case b_inb b UART16550_LSR s of
        Inl e \<Rightarrow> Some (Inl e)
      | Inr (lsr, s) \<Rightarrow> if \<not> bit lsr 5 then wait_thre b s else Some (Inr s))"

definition soc_uart_tx :: "'s board \<Rightarrow> u8 \<Rightarrow> 's \<Rightarrow> 's result option" where
  "soc_uart_tx b data s =
     (case wait_thre b s of
        None \<Rightarrow> None
      | Some r \<Rightarrow> Some (bindR r (\<lambda>s. b_outb b UART16550_TX data s)))"

definition soc_uart_rx :: "'s board \<Rightarrow> 's \<Rightarrow> (u8 \<times> 's) result" where
  "soc_uart_rx b s =
     bindR (b_inb b UART16550_LSR s) (\<lambda>(lsr, s).
     if bit lsr 0 then b_inb b UART16550_RX s else Inr (0xff, s))"

datatype soc_handler = S_uart_config | S_uart_tx | S_uart_rx | S_timer_config | S_timer_rtc
  | S_timer_uptime | S_input_config | S_input_keybrd | S_gpu_config | S_gpu_status | S_gpu_fbdraw
  | S_audio_config | S_audio_ctrl | S_audio_status | S_audio_play | S_fail

fun soc_handler_run ::
    "'s board \<Rightarrow> int list \<Rightarrow> soc_handler \<Rightarrow> am_buf \<Rightarrow> 's \<Rightarrow> (am_buf \<times> 's) result option" where
  "soc_handler_run b km S_uart_config buf s = Some (Inr (UART_CONFIG_T True, s))"
| "soc_handler_run b km S_uart_tx buf s =
     (case buf of
        UART_TX_T c \<Rightarrow> map_option (\<lambda>r. bindR r (\<lambda>s. Inr (buf, s))) (soc_uart_tx b c s)
      | _ \<Rightarrow> Some wrong_buffer)"
| "soc_handler_run b km S_uart_rx buf s =
     Some (bindR (soc_uart_rx b s) (\<lambda>(c, s). Inr (UART_RX_T c, s)))"
| "soc_handler_run b km S_timer_config buf s = Some (Inr (TIMER_CONFIG_T True True, s))"
| "soc_handler_run b km S_timer_rtc buf s = Some (Inr (TIMER_RTC_T 1900 0 0 0 0 0, s))"
| "soc_handler_run b km S_timer_uptime buf s =
     Some (bindR (soc_timer_uptime b s) (\<lambda>(us, s). Inr (TIMER_UPTIME_T us, s)))"
| "soc_handler_run b km S_input_config buf s = Some (Inr (INPUT_CONFIG_T True, s))"
| "soc_handler_run b km S_input_keybrd buf s =
     (case buf of
        INPUT_KEYBRD_T d k \<Rightarrow>
          map_option (\<lambda>r. bindR r (\<lambda>((d, k), s). Inr (INPUT_KEYBRD_T d k, s))) (soc_input_keybrd b km (d, k) s)
      | _ \<Rightarrow> Some wrong_buffer)"
| "soc_handler_run b km S_gpu_config buf s = Some (Inr (soc_gpu_config, s))"
| "soc_handler_run b km S_gpu_status buf s = Some (Inr (GPU_STATUS_T True, s))"
| "soc_handler_run b km S_gpu_fbdraw buf s =
     (case buf of
        GPU_FBDRAW_T ctl \<Rightarrow> Some (bindR (soc_gpu_fbdraw b ctl s) (\<lambda>(ctl, s). Inr (GPU_FBDRAW_T ctl, s)))
      | _ \<Rightarrow> Some wrong_buffer)"
| "soc_handler_run b km S_audio_config buf s =
     Some (case buf of AUDIO_CONFIG_T p n \<Rightarrow> Inr (AUDIO_CONFIG_T False n, s) | _ \<Rightarrow> wrong_buffer)"
| "soc_handler_run b km S_audio_ctrl buf s = Some (Inr (buf, s))"
| "soc_handler_run b km S_audio_status buf s = Some (Inr (AUDIO_STATUS_T 0, s))"
| "soc_handler_run b km S_audio_play buf s = Some (Inr (buf, s))"
| "soc_handler_run b km S_fail buf s = Some (Inl (Panicked ''access nonexist register''))"

text \<open>The drivers' own state: the table of registers and the map of scan codes.\<close>

record soc_ioe =
  soc_lut :: "soc_handler option list"
  soc_keymap :: "int list"

definition soc_ioe_start :: soc_ioe where
  "soc_ioe_start = \<lparr>soc_lut =
     [None, Some S_uart_config, Some S_uart_tx, Some S_uart_rx, Some S_timer_config, Some S_timer_rtc,
      Some S_timer_uptime, Some S_input_config, Some S_input_keybrd, Some S_gpu_config,
      Some S_gpu_status, Some S_gpu_fbdraw, None, None, Some S_audio_config, Some S_audio_ctrl,
      Some S_audio_status, Some S_audio_play] @ replicate 110 None,
     soc_keymap = replicate 512 0\<rparr>"

definition soc_ioe_init :: "soc_ioe \<Rightarrow> soc_ioe" where
  "soc_ioe_init d = \<lparr>soc_lut = map (\<lambda>h. case h of None \<Rightarrow> Some S_fail | Some h \<Rightarrow> Some h) (soc_lut d),
     soc_keymap = am_keymap_init (soc_keymap d)\<rparr>"

definition soc_ioe_read ::
    "'s board \<Rightarrow> soc_ioe \<Rightarrow> int \<Rightarrow> am_buf \<Rightarrow> 's \<Rightarrow> (am_buf \<times> 's) result option" where
  "soc_ioe_read b d reg buf s =
     (if 0 \<le> reg \<and> reg < int (length (soc_lut d)) then
        (case soc_lut d ! nat reg of
           None \<Rightarrow> Some (Inl (Undefined ''call of a null handler''))
         | Some h \<Rightarrow> soc_handler_run b (soc_keymap d) h buf s)
      else Some (Inl (Undefined ''lut index'')))"

definition soc_ioe_write ::
    "'s board \<Rightarrow> soc_ioe \<Rightarrow> int \<Rightarrow> am_buf \<Rightarrow> 's \<Rightarrow> (am_buf \<times> 's) result option" where
  "soc_ioe_write = soc_ioe_read"

section \<open>Keyboard\<close>

text \<open>What a PS/2 keyboard sends for a key, and a board that gives these bytes.\<close>

definition key_bytes :: "nat \<Rightarrow> bool \<Rightarrow> u8 list" where
  "key_bytes c down = (if 256 \<le> c then [0xE0] else []) @ (if down then [] else [0xF0]) @ [of_nat c]"

fun delivers :: "'s board \<Rightarrow> u8 list \<Rightarrow> 's \<Rightarrow> 's \<Rightarrow> bool" where
  "delivers b [] s t \<longleftrightarrow> t = s"
| "delivers b (x # xs) s t \<longleftrightarrow> (\<exists>u. b_inb b PS2 s = Inr (x, u) \<and> delivers b xs u t)"

lemma delivers_append: "delivers b (xs @ ys) s t \<longleftrightarrow> (\<exists>u. delivers b xs s u \<and> delivers b ys u t)"
  by (induction xs arbitrary: s) auto

lemma am_keys_agree: "am_keys = nemu_keys" "map fst scancode_keys = am_keys"
  by (simp_all add: am_keys_def nemu_keys_def scancode_keys_def)

lemma fold_update_nth:
  "i < length m \<Longrightarrow> fold (\<lambda>(k, c) m. m[c := f k]) xs m ! i =
     (case map_of (rev (map (\<lambda>(k, c). (c, f k)) xs)) i of None \<Rightarrow> m ! i | Some v \<Rightarrow> v)"
  by (induction xs arbitrary: m) (auto simp: map_add_def nth_list_update split: option.splits)

lemma length_fold_update: "length (fold (\<lambda>(k, c) m. m[c := f k]) xs m) = length m"
  by (induction xs arbitrary: m) auto

text \<open>Two keys have the code \<open>0x11\<close>; the second one is the one reported.\<close>

lemma last_write_wins:
  assumes d: "distinct (map snd (as @ bs))" and x: "snd x \<in> snd ` set bs" and m: "(k, c) \<in> set (as @ bs)"
  shows "map_of (rev (map (\<lambda>(k, c). (c, f k)) (as @ x # bs))) c = Some (f k)"
proof -
  let ?g = "\<lambda>(k, c). (c, f k)"
  have fst: "map fst (map ?g ys) = map snd ys" for ys by (simp add: comp_def case_prod_unfold)
  have one: "map_of (rev (map ?g ys)) c = Some (f k)" if "distinct (map snd ys)" "(k, c) \<in> set ys" for ys
  proof (rule map_of_is_SomeI)
    have "map fst (rev (map ?g ys)) = rev (map snd ys)" by (simp only: fst flip: rev_map)
    with that(1) show "distinct (map fst (rev (map ?g ys)))" by simp
    show "(c, f k) \<in> set (rev (map ?g ys))" using that(2) by force
  qed
  show ?thesis
  proof (cases "(k, c) \<in> set bs")
    case True
    with one [of bs] d show ?thesis by (simp add: map_add_find_right)
  next
    case False
    then have a: "(k, c) \<in> set as" using m by simp
    then have "c \<notin> snd ` set bs" using d by force
    then have "map_of (rev (map ?g bs)) c = None" and "fst (?g x) \<noteq> c"
      using x by (auto simp: map_of_eq_None_iff image_iff case_prod_unfold)
    with one [of as] a d show ?thesis
      by (cases x) (simp add: map_add_def)
  qed
qed

lemma scancode_keys_split:
  "scancode_keys = take 67 scancode_keys @ (''APPLICATION'', 0x11) # drop 68 scancode_keys"
  by (simp add: scancode_keys_def)

lemma keymap_entries:
  assumes "(k, c) \<in> set scancode_keys" "k \<noteq> ''APPLICATION''"
  shows "soc_keymap (soc_ioe_init soc_ioe_start) ! c = am_key k" "c < 512"
proof -
  have d: "distinct (map snd (take 67 scancode_keys @ drop 68 scancode_keys))"
    by (simp add: scancode_keys_def)
  have x: "snd (''APPLICATION'', 0x11) \<in> snd ` set (drop 68 scancode_keys)"
    by (simp add: scancode_keys_def)
  have "(k, c) \<in> set (take 67 scancode_keys @ drop 68 scancode_keys)"
    using assms by (subst (asm) scancode_keys_split) auto
  from last_write_wins [OF d x this, of am_key]
  have m: "map_of (rev (map (\<lambda>(k, c). (c, am_key k)) scancode_keys)) c = Some (am_key k)"
    by (subst scancode_keys_split) simp
  have "\<forall>c \<in> set (map snd scancode_keys). c < 512" by (simp add: scancode_keys_def)
  with assms(1) show c: "c < 512" by force
  with m show "soc_keymap (soc_ioe_init soc_ioe_start) ! c = am_key k"
    by (simp add: soc_ioe_init_def soc_ioe_start_def am_keymap_init_def fold_update_nth)
qed

text \<open>The word that the bytes of a key make up: bit 8 for the prefix, bit 9 for a release.\<close>

definition scan_word :: "bool \<Rightarrow> bool \<Rightarrow> u8 \<Rightarrow> u16" where
  "scan_word ext up lo = (((if ext then push_bit 8 1 else 0) OR (if up then push_bit 9 1 else 0)) AND 0xFF00) OR ucast lo"

lemma unat_scan_word:
  "unat (scan_word ext up lo) = (if ext then 256 else 0) + (if up then 512 else 0) + unat lo"
proof -
  define p :: u16 where "p = (if ext then 256 else 0) + (if up then 512 else 0)"
  have p: "((if ext then push_bit 8 1 else 0) OR (if up then push_bit 9 1 else 0)) AND 0xFF00 = p"
    by (simp add: p_def)
  have "take_bit 8 p = 0" by (simp add: p_def)
  then have "\<not> bit p n" if "n < 8" for n
    using that by (metis bit_take_bit_iff bit_0_eq bot_apply bot_bool_def)
  then have "p OR ucast lo = p + ucast lo"
    by (intro disjunctive_add [symmetric]) (auto simp: bit_ucast_iff dest: bit_imp_le_length)
  moreover have lo: "unat lo < 256" using unsigned_less [of lo] by simp
  moreover from lo have "unat (ucast lo :: u16) = unat lo" by (simp add: unsigned_ucast_eq take_bit_nat_eq_self)
  moreover have "unat p = (if ext then 256 else 0) + (if up then 512 else 0)" by (simp add: p_def)
  ultimately show ?thesis unfolding scan_word_def p by (simp add: unat_word_ariths)
qed

lemma scan_word_fields:
  "unat (scan_word ext up lo AND 0x1FF) = (if ext then 256 else 0) + unat lo"
  "drop_bit 9 (scan_word ext up lo) = 1 \<longleftrightarrow> up"
proof -
  have lo: "unat lo < 256" using unsigned_less [of lo] by simp
  have "scan_word ext up lo AND 0x1FF = take_bit 9 (scan_word ext up lo)"
    by (simp add: take_bit_eq_mask mask_eq_exp_minus_1)
  then have "unat (scan_word ext up lo AND 0x1FF) = unat (scan_word ext up lo) mod 512"
    by (simp add: unsigned_take_bit_eq take_bit_eq_mod unat_mod)
  moreover have "(768 + unat lo) mod 512 = 256 + unat lo" using lo by (simp add: mod_if)
  ultimately show "unat (scan_word ext up lo AND 0x1FF) = (if ext then 256 else 0) + unat lo"
    using lo by (auto simp: unat_scan_word)
  have "unat (drop_bit 9 (scan_word ext up lo)) = unat (scan_word ext up lo) div 512"
    by (simp add: drop_bit_eq_div unat_div)
  with lo have "unat (drop_bit 9 (scan_word ext up lo)) = (if up then 1 else 0)"
    by (auto simp: unat_scan_word)
  then show "drop_bit 9 (scan_word ext up lo) = 1 \<longleftrightarrow> up"
    by (auto simp: word_unat_eq_iff split: if_splits)
qed

text \<open>No code byte of the table is a prefix.\<close>

lemma scancode_bytes:
  assumes "(k, c) \<in> set scancode_keys"
  shows "(of_nat c :: u8) \<noteq> 0xE0" "(of_nat c :: u8) \<noteq> 0xF0" "(if 256 \<le> c then 256 else 0) + unat (of_nat c :: u8) = c"
proof -
  have "\<forall>c \<in> set (map snd scancode_keys). (of_nat c :: u8) \<noteq> 0xE0 \<and> (of_nat c :: u8) \<noteq> 0xF0 \<and>
      (if 256 \<le> c then 256 else 0) + unat (of_nat c :: u8) = c"
    by (simp add: scancode_keys_def)
  with assms show "(of_nat c :: u8) \<noteq> 0xE0" "(of_nat c :: u8) \<noteq> 0xF0"
    "(if 256 \<le> c then 256 else 0) + unat (of_nat c :: u8) = c" by force+
qed

lemma getScan_key:
  assumes "lo \<noteq> 0xE0" "lo \<noteq> 0xF0"
    and "delivers b ((if ext then [0xE0] else []) @ (if up then [0xF0] else []) @ [lo]) s t"
  shows "getScan b 0 s = Some (Inr (scan_word ext up lo, t))"
  using assms by (cases ext; cases up) (auto simp: getScan.simps [of b] scan_word_def)

lemma soc_keyboard_step:
  assumes k: "(k, c) \<in> set scancode_keys" "k \<noteq> ''APPLICATION''" and d: "delivers b (key_bytes c down) s t"
  shows "soc_ioe_read b (soc_ioe_init soc_ioe_start) 8 (INPUT_KEYBRD_T kd kc) s =
    Some (Inr (INPUT_KEYBRD_T (down \<and> kd) (am_key k), t))"
proof -
  have g: "getScan b 0 s = Some (Inr (scan_word (256 \<le> c) (\<not> down) (of_nat c), t))"
    using d scancode_bytes [OF k(1)] by (intro getScan_key) (cases down; simp add: key_bytes_def)+
  have "unat (scan_word (256 \<le> c) (\<not> down) (of_nat c) AND 0x1FF) = c"
    unfolding scan_word_fields(1) by (rule scancode_bytes(3) [OF k(1)])
  with g scan_word_fields(2) [of "256 \<le> c" "\<not> down" "of_nat c"] keymap_entries(1) [OF k]
  have "soc_input_keybrd b (soc_keymap (soc_ioe_init soc_ioe_start)) (kd, kc) s =
      Some (Inr ((down \<and> kd, am_key k), t))"
    by (cases down) (simp_all add: soc_input_keybrd_def Let_def)
  moreover have "soc_lut (soc_ioe_init soc_ioe_start) ! 8 = Some S_input_keybrd"
    "length (soc_lut (soc_ioe_init soc_ioe_start)) = 128"
    by (simp_all add: soc_ioe_init_def soc_ioe_start_def)
  ultimately show ?thesis by (simp add: soc_ioe_read_def)
qed

text \<open>A run of reads of the keyboard register 8, each into a variable of the caller.\<close>

fun soc_read_keys ::
    "'s board \<Rightarrow> (bool \<times> int) list \<Rightarrow> 's \<Rightarrow> ((bool \<times> int) list \<times> 's) result option" where
  "soc_read_keys b [] s = Some (Inr ([], s))"
| "soc_read_keys b ((kd, kc) # bufs) s =
     (case soc_ioe_read b (soc_ioe_init soc_ioe_start) 8 (INPUT_KEYBRD_T kd kc) s of
        Some (Inr (INPUT_KEYBRD_T kd kc, s)) \<Rightarrow>
          (case soc_read_keys b bufs s of
             Some (Inr (ks, s)) \<Rightarrow> Some (Inr ((kd, kc) # ks, s))
           | r \<Rightarrow> r)
      | Some (Inl e) \<Rightarrow> Some (Inl e)
      | Some (Inr _) \<Rightarrow> Some wrong_buffer
      | None \<Rightarrow> None)"

text \<open>C21: Whatever keys of the table, other than \<open>APPLICATION\<close>, are pressed and released, the driver
  gives them to the program in order, each from the one, two or three bytes the keyboard sends for it and with its key code. A
  release is reported as one; a press leaves the field \<open>keydown\<close> as the caller's variable had
  it.\<close>

theorem soc_keyboard_reads_events:
  assumes "\<forall>((k, c), down) \<in> set evs. (k, c) \<in> set scancode_keys \<and> k \<noteq> ''APPLICATION''"
    and "delivers b (concat (map (\<lambda>((k, c), down). key_bytes c down) evs)) s t"
    and "length bufs = length evs"
  shows "soc_read_keys b bufs s =
    Some (Inr (map2 (\<lambda>(kd, kc) ((k, c), down). (down \<and> kd, am_key k)) bufs evs, t))"
  using assms
proof (induction evs arbitrary: bufs s)
  case (Cons ev evs)
  obtain k c down where ev: "ev = ((k, c), down)" by (metis prod.collapse)
  obtain kd kc bufs' where bufs: "bufs = (kd, kc) # bufs'" "length bufs' = length evs"
    using Cons.prems(3) by (auto simp: length_Suc_conv)
  obtain u where u: "delivers b (key_bytes c down) s u"
    "delivers b (concat (map (\<lambda>((k, c), down). key_bytes c down) evs)) u t"
    using Cons.prems(2) by (auto simp: ev delivers_append)
  have k: "(k, c) \<in> set scancode_keys" "k \<noteq> ''APPLICATION''" using Cons.prems(1) by (auto simp: ev)
  have IH: "soc_read_keys b bufs' u = Some (Inr (map2 (\<lambda>(kd, kc) ((k, c), down). (down \<and> kd, am_key k)) bufs' evs, t))"
    using Cons.prems(1) u(2) bufs(2) by (intro Cons.IH) auto
  show ?case
    by (simp add: bufs(1) ev soc_keyboard_step [OF k u(1)] IH)
qed simp

text \<open>A board whose keyboard gives a list of bytes, and 0 when there is none left.\<close>

definition byte_board :: "u8 list board" where
  "byte_board = \<lparr>b_inb = (\<lambda>a bs. if a = PS2 then (case bs of [] \<Rightarrow> Inr (0, []) | x # xs \<Rightarrow> Inr (x, xs))
       else Inl (Undefined ''no device'')),
     b_inl = (\<lambda>_ _. Inl (Undefined ''no device'')), b_outb = (\<lambda>_ _ _. Inl (Undefined ''no device'')),
     b_outl = (\<lambda>_ _ _. Inl (Undefined ''no device''))\<rparr>"

lemma byte_board_inb [simp]:
  "b_inb byte_board PS2 (x # xs) = Inr (x, xs)" "b_inb byte_board PS2 [] = Inr (0, [])"
  by (simp_all add: byte_board_def)

lemma byte_board_delivers: "delivers byte_board xs (xs @ ys) ys"
  by (induction xs) simp_all

lemma soc_keyboard_reads_events_witness:
  "soc_read_keys byte_board [(True, 7), (True, 7), (False, 7)] [0xE0, 0x75, 0xE0, 0xF0, 0x75, 0x1C] =
     Some (Inr ([(True, am_key ''UP''), (False, am_key ''UP''), (False, am_key ''A'')], []))"
proof -
  let ?evs = "[((''UP'', 0x175), True), ((''UP'', 0x175), False), ((''A'', 0x1C), True)]"
  have b: "concat (map (\<lambda>((k, c), down). key_bytes c down) ?evs) = [0xE0, 0x75, 0xE0, 0xF0, 0x75, 0x1C]"
    by (simp add: key_bytes_def)
  have "delivers byte_board (concat (map (\<lambda>((k, c), down). key_bytes c down) ?evs))
      [0xE0, 0x75, 0xE0, 0xF0, 0x75, 0x1C] []"
    unfolding b using byte_board_delivers [of "[0xE0, 0x75, 0xE0, 0xF0, 0x75, 0x1C]" "[]"]
    by (simp only: append_Nil2)
  moreover have "\<forall>((k, c), down) \<in> set ?evs. (k, c) \<in> set scancode_keys \<and> k \<noteq> ''APPLICATION''"
    by (simp add: scancode_keys_def)
  ultimately show ?thesis
    using soc_keyboard_reads_events [of ?evs byte_board _ _ "[(True, 7), (True, 7), (False, 7)]"]
    by simp
qed

text \<open>A read between the bytes of a key loses the prefix: the release of \<open>A\<close> is then a press.\<close>

lemma split_release_is_a_press:
  "soc_input_keybrd byte_board (soc_keymap (soc_ioe_init soc_ioe_start)) (True, 0) [0xF0] =
     Some (Inr ((False, 0), []))"
  "soc_input_keybrd byte_board (soc_keymap (soc_ioe_init soc_ioe_start)) (True, 0) [0x1C] =
     Some (Inr ((True, am_key ''A''), []))"
proof -
  have z: "soc_keymap (soc_ioe_init soc_ioe_start) ! 0 = 0"
    by (simp add: soc_ioe_init_def soc_ioe_start_def am_keymap_init_def fold_update_nth scancode_keys_def)
  have "soc_keymap (soc_ioe_init soc_ioe_start) ! 0x1C = am_key ''A''"
    by (rule keymap_entries) (simp_all add: scancode_keys_def)
  with z show "soc_input_keybrd byte_board (soc_keymap (soc_ioe_init soc_ioe_start)) (True, 0) [0xF0] =
     Some (Inr ((False, 0), []))"
  "soc_input_keybrd byte_board (soc_keymap (soc_ioe_init soc_ioe_start)) (True, 0) [0x1C] =
     Some (Inr ((True, am_key ''A''), []))"
    by (simp_all add: soc_input_keybrd_def getScan.simps [of byte_board] Let_def)
qed

section \<open>Timer\<close>

definition soc_clock :: "config \<Rightarrow> system \<Rightarrow> bool" where
  "soc_clock cfg s \<longleftrightarrow> (\<exists>p. clint_port_base (dev s) = Some p \<and>
     dev_region cfg s 0x02000000 0x10000 p (Some Clint_io))"

lemma get_time_clint: "get_time d = (us, e) \<Longrightarrow> clint_port_base e = clint_port_base d"
  by (auto simp: get_time_def get_time_internal_def Let_def split: if_splits)

text \<open>Each access to the time register reads the host's clock again.\<close>

lemma clint_read:
  assumes c: "soc_clock cfg s" and g: "get_time (dev s) = (us, d)"
  shows "\<exists>t. inl cfg SOC_RTC_ADDR s = Inr (ucast us, t) \<and> dev t = d \<and> soc_clock cfg t"
    "\<exists>t. inl cfg (SOC_RTC_ADDR + 4) s = Inr (ucast (drop_bit 32 us), t) \<and> dev t = d \<and> soc_clock cfg t"
proof -
  obtain p where p: "clint_port_base d = Some p" and r: "dev_region cfg s 0x02000000 0x10000 p (Some Clint_io)"
    using c g by (auto simp: soc_clock_def get_time_clint)
  have sp: "p + 0x10000 \<le> IO_SPACE_MAX" using r by (simp add: dev_region_def)
  let ?h = "store_le hput (hrange (A_io, p + 76) 4) (ucast (drop_bit 32 us))
    (store_le hput (hrange (A_io, p + 72) 4) (ucast us) (harr s))"
  let ?t = "(difftest_skip_ref cfg s)\<lparr>dev := d, harr := ?h\<rparr>"
  have t: "dev ?t = d" "soc_clock cfg ?t"
    using r p dev_region_frame [of ?t s cfg] by (simp_all add: soc_clock_def)
  have "inl cfg SOC_RTC_ADDR s = Inr (ucast us, ?t)"
    using dev_read [OF r, of 72 4] sp
    by (simp add: inl_def invoke_callback_def clint_io_handler_def MTIME_OFFSET_def g p reg_store_io
        host.load_store host.load_store_disjoint [OF hrange_disjoint])
  with t show "\<exists>t. inl cfg SOC_RTC_ADDR s = Inr (ucast us, t) \<and> dev t = d \<and> soc_clock cfg t" by blast
  have "inl cfg (SOC_RTC_ADDR + 4) s = Inr (ucast (drop_bit 32 us), ?t)"
    using dev_read [OF r, of 76 4] sp
    by (simp add: inl_def invoke_callback_def clint_io_handler_def MTIME_OFFSET_def g p reg_store_io
        host.load_store)
  with t show "\<exists>t. inl cfg (SOC_RTC_ADDR + 4) s = Inr (ucast (drop_bit 32 us), t) \<and> dev t = d \<and> soc_clock cfg t"
    by blast
qed

text \<open>A high half and a low half of two times less than \<open>2\<^sup>32\<close> apart.\<close>

lemma halves_value:
  "unat (push_bit 32 (ucast (ucast (drop_bit 32 a) :: u32)) OR ucast (ucast b :: u32) :: u64) =
     unat (a :: u64) div 2 ^ 32 * 2 ^ 32 + unat (b :: u64) mod 2 ^ 32"
proof -
  let ?h = "push_bit 32 (drop_bit 32 a)" and ?l = "take_bit 32 b"
  have "push_bit 32 (ucast (ucast (drop_bit 32 a) :: u32)) OR ucast (ucast b :: u32) = ?h OR ?l"
    by (rule bit_word_eqI)
      (auto simp: bit_or_iff bit_push_bit_iff bit_ucast_iff bit_drop_bit_eq bit_take_bit_iff dest: bit_imp_le_length)
  also have "\<dots> = ?h + ?l"
    by (rule disjunctive_add [symmetric]) (auto simp: bit_push_bit_iff bit_take_bit_iff)
  moreover have d: "unat a div 2 ^ 32 < 2 ^ 32"
  proof -
    have "unat a < 2 ^ 64" using unsigned_less [of a] by simp
    then show ?thesis by (simp add: less_mult_imp_div_less)
  qed
  then have "unat ?h = unat a div 2 ^ 32 * 2 ^ 32"
    by (simp add: push_bit_eq_mult drop_bit_eq_div unat_word_ariths unat_div)
  moreover have "unat ?l = unat b mod 2 ^ 32" by (simp add: take_bit_eq_mod unat_mod)
  moreover have "unat b mod 2 ^ 32 < 2 ^ 32" by simp
  then have "unat a div 2 ^ 32 * 2 ^ 32 + unat b mod 2 ^ 32 < 2 ^ 64" using d by simp
  ultimately show ?thesis by (simp add: unat_word_ariths)
qed

lemma torn_value:
  assumes "a \<le> b" "b < a + 2 ^ 32"
  shows "(a :: nat) div 2 ^ 32 * 2 ^ 32 + b mod 2 ^ 32 = (if a div 2 ^ 32 = b div 2 ^ 32 then b else b - 2 ^ 32)"
proof (cases "a div 2 ^ 32 = b div 2 ^ 32")
  case False
  have "a div 2 ^ 32 \<le> b div 2 ^ 32" using assms(1) by (rule div_le_mono)
  moreover have "b div 2 ^ 32 \<le> (a + 2 ^ 32) div 2 ^ 32" using assms(2) by (intro div_le_mono) simp
  then have "b div 2 ^ 32 \<le> Suc (a div 2 ^ 32)" by simp
  ultimately have d: "b div 2 ^ 32 = Suc (a div 2 ^ 32)" using False by linarith
  have "b = Suc (a div 2 ^ 32) * 2 ^ 32 + b mod 2 ^ 32"
    unfolding d [symmetric] by (rule div_mult_mod_eq [symmetric])
  with False show ?thesis unfolding mult_Suc by (simp only: if_False)
qed simp

text \<open>C28: The time the driver reports on the emulator's SoC, from the two readings of the clock
  that its two accesses make less than \<open>2\<^sup>32\<close> microseconds apart: the second one, or,
  when the upper half changed in between, \<open>2\<^sup>32\<close> microseconds (71 minutes) less. It is never
  ahead of the clock.\<close>

theorem soc_uptime_of_two_readings:
  assumes "soc_clock cfg s" and "get_time (dev s) = (us1, d1)" "get_time d1 = (us2, d2)"
    and "us1 \<le> us2" "unat us2 < unat us1 + 2 ^ 32"
  shows "\<exists>us t. soc_ioe_read (nemu_board cfg) (soc_ioe_init soc_ioe_start) 6 buf s =
      Some (Inr (TIMER_UPTIME_T us, t)) \<and>
    unat us = (if drop_bit 32 us1 = drop_bit 32 us2 then unat us2 else unat us2 - 2 ^ 32)"
proof -
  obtain t where t: "inl cfg (SOC_RTC_ADDR + 4) s = Inr (ucast (drop_bit 32 us1), t)" "dev t = d1" "soc_clock cfg t"
    using clint_read(2) [OF assms(1,2)] by blast
  obtain u where u: "inl cfg SOC_RTC_ADDR t = Inr (ucast us2, u)"
    using clint_read(1) [of cfg t us2 d2] t(2,3) assms(3) by auto
  let ?us = "push_bit 32 (ucast (ucast (drop_bit 32 us1) :: u32)) OR ucast (ucast us2 :: u32) :: u64"
  have "soc_timer_uptime (nemu_board cfg) s = Inr (?us, u)"
    using t(1) u by (simp add: soc_timer_uptime_def nemu_board_def)
  moreover have "soc_lut (soc_ioe_init soc_ioe_start) ! 6 = Some S_timer_uptime"
    "length (soc_lut (soc_ioe_init soc_ioe_start)) = 128"
    by (simp_all add: soc_ioe_init_def soc_ioe_start_def)
  ultimately have "soc_ioe_read (nemu_board cfg) (soc_ioe_init soc_ioe_start) 6 buf s =
      Some (Inr (TIMER_UPTIME_T ?us, u))"
    by (simp add: soc_ioe_read_def)
  moreover have "drop_bit 32 us1 = drop_bit 32 us2 \<longleftrightarrow> unat us1 div 2 ^ 32 = unat us2 div 2 ^ 32"
    by (simp add: drop_bit_eq_div word_unat_eq_iff unat_div)
  then have "unat ?us = (if drop_bit 32 us1 = drop_bit 32 us2 then unat us2 else unat us2 - 2 ^ 32)"
    unfolding halves_value using assms(4,5) by (simp only: torn_value word_le_nat_alt)
  ultimately show ?thesis by blast
qed

text \<open>On the emulator's SoC the clock can go back to 0 after 71 minutes.\<close>

lemma soc_uptime_of_two_readings_witness:
  "\<exists>s t us. init_device soc_config soc_dev_config (system0 (\<lambda>i. if i < 2 then 1 + (2 ^ 32 - 1) * of_nat i else 2 ^ 32 + 1)) = Inr s \<and>
     soc_ioe_read (nemu_board soc_config) (soc_ioe_init soc_ioe_start) 6 (TIMER_UPTIME_T 0) s =
       Some (Inr (TIMER_UPTIME_T us, t)) \<and> unat us = 0"
proof -
  let ?clk = "\<lambda>i. if i < 2 then 1 + (2 ^ 32 - 1) * of_nat i else 2 ^ 32 + 1 :: u64"
  obtain s where s: "init_device soc_config soc_dev_config (system0 ?clk) = Inr s"
    "dev_region soc_config s 0x02000000 0x10000 0x1000 (Some Clint_io)" "clint_port_base (dev s) = Some 0x1000"
    "host_clock (dev s) = ?clk" "boot_time (dev s) = 0" "clock_reads (dev s) = 0"
    using soc_machine [of ?clk] by blast
  have c: "soc_clock soc_config s" using s(2,3) by (auto simp: soc_clock_def)
  obtain d1 where d1: "get_time (dev s) = (2 ^ 32 - 1, d1)" "host_clock d1 = ?clk" "boot_time d1 = 1" "clock_reads d1 = 2"
    using s(4-6) by (simp add: get_time_def get_time_internal_def)
  obtain d2 where d2: "get_time d1 = (2 ^ 32, d2)"
    using d1 by (simp add: get_time_def get_time_internal_def)
  show ?thesis
    using soc_uptime_of_two_readings [OF c d1(1) d2, of "TIMER_UPTIME_T 0"] s(1)
    by auto
qed

end
