(* ===== verification/Snake.thy ===== *)
theory Snake
  imports Am_Ioe_Properties Klib_Stdlib "HOL-Library.Signed_Division"
begin

text \<open>
  The game \<open>am-kernels/kernels/snake/snake.c\<close>. The body of the snake is a ring of 100 points;
  its game is refined to one played on a list of points. Screen, keyboard and clock are the
  registers of the runtime, on the emulator.
\<close>

section \<open>The snake\<close>

abbreviation (input) MAX_LENGTH :: int where "MAX_LENGTH \<equiv> 100"

datatype dir_t = NO_DIR | UP | DOWN | LEFT | RIGHT

type_synonym point = "int \<times> int"

record dim_t =
  width :: int
  height :: int

record rect_t =
  top :: int
  bottom :: int
  left :: int
  right :: int

record snake_t =
  body :: "point list"
  slen :: int
  index :: int
  dead :: bool

definition body_at :: "snake_t \<Rightarrow> int \<Rightarrow> point result" where
  "body_at sn i = (if 0 \<le> i \<and> i < MAX_LENGTH then Inr (body sn ! nat i) else Inl (Undefined ''index outside body''))"

definition get_dir :: "int \<Rightarrow> dir_t" where
  "get_dir c =
     (if c = am_key ''LEFT'' then LEFT else if c = am_key ''UP'' then UP
      else if c = am_key ''RIGHT'' then RIGHT else if c = am_key ''DOWN'' then DOWN else NO_DIR)"

fun step_point :: "dir_t \<Rightarrow> point \<Rightarrow> point" where
  "step_point LEFT (x, y) = (x - 1, y)"
| "step_point DOWN (x, y) = (x, y + 1)"
| "step_point RIGHT (x, y) = (x + 1, y)"
| "step_point UP (x, y) = (x, y - 1)"
| "step_point NO_DIR (x, y) = (x, y)"

definition move_snake :: "snake_t \<Rightarrow> dir_t \<Rightarrow> snake_t result" where
  "move_snake sn d =
     bindR (body_at sn (index sn)) (\<lambda>p.
     let i = (if index sn + 1 = MAX_LENGTH then 0 else index sn + 1) in
     bindR (body_at sn i) (\<lambda>_.
     Inr (sn\<lparr>index := i, body := (body sn)[nat i := step_point d p]\<rparr>)))"

text \<open>The loop over the body ends when \<open>i\<close> equals the length.\<close>

partial_function (option) bites_from :: "snake_t \<Rightarrow> point \<Rightarrow> int \<Rightarrow> bool result option" where
  "bites_from sn head i =
     (if i = slen sn then Some (Inr False)
      else case body_at sn (if index sn - i < 0 then index sn - i + MAX_LENGTH else index sn - i) of
        Inl e \<Rightarrow> Some (Inl e)
      | Inr p \<Rightarrow> if head = p then Some (Inr True) else bites_from sn head (i + 1))"

definition is_dead :: "snake_t \<Rightarrow> dim_t \<Rightarrow> bool result option" where
  "is_dead sn game_size =
     (case body_at sn (index sn) of
        Inl e \<Rightarrow> Some (Inl e)
      | Inr head \<Rightarrow>
          if fst head = -1 \<or> fst head = width game_size \<or> snd head = -1 \<or> snd head = height game_size
          then Some (Inr True) else bites_from sn head 1)"

definition has_food :: "snake_t \<Rightarrow> point \<Rightarrow> bool result" where
  "has_food sn food = bindR (body_at sn (index sn)) (\<lambda>p. Inr (p = food))"

definition create_food :: "dim_t \<Rightarrow> klib_state \<Rightarrow> point \<times> klib_state" where
  "create_food game_size k =
     (let (a, k) = rand k; (b, k) = rand k
      in ((uint a smod width game_size, uint b smod height game_size), k))"

section \<open>A turn\<close>

text \<open>
  A turn of the loop in \<open>main\<close>, from the key that was read to the new food: the snake cannot
  turn back on itself.
\<close>

record game =
  sn :: snake_t
  food :: point
  dir :: dir_t
  randoms :: klib_state

definition steer :: "dir_t \<Rightarrow> dir_t \<Rightarrow> dir_t" where
  "steer d move_dir =
     (case move_dir of
        UP \<Rightarrow> if d \<noteq> DOWN then move_dir else d
      | DOWN \<Rightarrow> if d \<noteq> UP then move_dir else d
      | LEFT \<Rightarrow> if d \<noteq> RIGHT then move_dir else d
      | RIGHT \<Rightarrow> if d \<noteq> LEFT then move_dir else d
      | NO_DIR \<Rightarrow> d)"

definition snake_turn :: "dim_t \<Rightarrow> int \<Rightarrow> game \<Rightarrow> (bool \<times> game) result option" where
  "snake_turn game_size key g =
     (let d = steer (dir g) (get_dir key) in
      case move_snake (sn g) d of
        Inl e \<Rightarrow> Some (Inl e)
      | Inr snake \<Rightarrow>
          (case is_dead snake game_size of
             None \<Rightarrow> None
           | Some (Inl e) \<Rightarrow> Some (Inl e)
           | Some (Inr b) \<Rightarrow>
               let snake = snake\<lparr>dead := b\<rparr>; g = g\<lparr>sn := snake, dir := d\<rparr> in
               Some (bindR (has_food snake (food g)) (\<lambda>ate.
                 if ate then
                   case create_food game_size (randoms g) of (f, k) \<Rightarrow>
                     Inr (True, g\<lparr>sn := snake\<lparr>slen := slen snake + 1\<rparr>, food := f, randoms := k\<rparr>)
                 else Inr (False, g)))))"

definition new_snake :: "dim_t \<Rightarrow> snake_t" where
  "new_snake game_size =
     \<lparr>body = (replicate 100 (0, 0))[0 := (width game_size sdiv 2, height game_size sdiv 2),
                                   1 := (width game_size sdiv 2, height game_size sdiv 2 + 1)],
      slen = 2, index = 1, dead = False\<rparr>"

definition new_game :: "dim_t \<Rightarrow> klib_state \<Rightarrow> game" where
  "new_game game_size k =
     (case create_food game_size k of (f, k) \<Rightarrow>
        \<lparr>sn = new_snake game_size, food = f, dir = RIGHT, randoms = k\<rparr>)"

text \<open>The turns of a game, one for each key read, until the snake is dead.\<close>

fun snake_turns :: "dim_t \<Rightarrow> int list \<Rightarrow> game \<Rightarrow> game result option" where
  "snake_turns game_size [] g = Some (Inr g)"
| "snake_turns game_size (key # keys) g =
     (case snake_turn game_size key g of
        None \<Rightarrow> None
      | Some (Inl e) \<Rightarrow> Some (Inl e)
      | Some (Inr (ate, g)) \<Rightarrow> if dead (sn g) then Some (Inr g) else snake_turns game_size keys g)"

section \<open>Screen, keyboard and clock\<close>

text \<open>\<open>buf\<close> is the address of the static array of \<open>draw_tile\<close>.\<close>

definition fb_register :: "config \<Rightarrow> fbdraw \<Rightarrow> system \<Rightarrow> system result" where
  "fb_register cfg ctl s = bindR (ioe_write cfg (ioe_init lut) 11 (GPU_FBDRAW_T ctl) s) (\<lambda>(_, s). Inr s)"

definition refresh :: "config \<Rightarrow> system \<Rightarrow> system result" where
  "refresh cfg = fb_register cfg \<lparr>fb_x = 0, fb_y = 0, fb_pixels = 0, fb_w = 0, fb_h = 0, fb_sync = True\<rparr>"

definition draw_tile :: "config \<Rightarrow> u32 \<Rightarrow> int \<Rightarrow> int \<Rightarrow> u32 \<Rightarrow> system \<Rightarrow> system result" where
  "draw_tile cfg buf y x color s =
     bindR (if color \<noteq> 0xffffffff then foldR (\<lambda>i. outl cfg (buf + 4 * of_nat i) color) [0..<64] s else Inr s)
       (fb_register cfg \<lparr>fb_x = x * 8, fb_y = y * 8, fb_pixels = buf, fb_w = 8, fb_h = 8, fb_sync = False\<rparr>)"

definition print_board :: "config \<Rightarrow> u32 \<Rightarrow> rect_t \<Rightarrow> system \<Rightarrow> system result" where
  "print_board cfg buf board s =
     bindR (foldR (\<lambda>i s. bindR (draw_tile cfg buf (top board) i 0x0000ff00 s)
                           (draw_tile cfg buf (bottom board) i 0x0000ff00)) [left board..right board] s)
       (foldR (\<lambda>i s. bindR (draw_tile cfg buf i (left board) 0x0000ff00 s)
                       (draw_tile cfg buf i (right board) 0x0000ff00)) [top board..bottom board])"

definition board_tile :: "config \<Rightarrow> u32 \<Rightarrow> rect_t \<Rightarrow> u32 \<Rightarrow> point \<Rightarrow> system \<Rightarrow> system result" where
  "board_tile cfg buf board color p = draw_tile cfg buf (snd p + top board + 1) (fst p + left board + 1) color"

definition print_food :: "config \<Rightarrow> u32 \<Rightarrow> rect_t \<Rightarrow> point \<Rightarrow> system \<Rightarrow> system result" where
  "print_food cfg buf board f = board_tile cfg buf board 0x000000ff f"

definition print_head :: "config \<Rightarrow> u32 \<Rightarrow> rect_t \<Rightarrow> snake_t \<Rightarrow> system \<Rightarrow> system result" where
  "print_head cfg buf board snake s =
     bindR (body_at snake (index snake)) (\<lambda>p. board_tile cfg buf board 0x00ff0000 p s)"

definition clear_tail :: "config \<Rightarrow> u32 \<Rightarrow> rect_t \<Rightarrow> snake_t \<Rightarrow> system \<Rightarrow> system result" where
  "clear_tail cfg buf board snake s =
     (let t = index snake - slen snake; t = (if t < 0 then t + MAX_LENGTH else t) in
      bindR (body_at snake t) (\<lambda>p. board_tile cfg buf board 0 p s))"

definition key_event :: "config \<Rightarrow> system \<Rightarrow> ((bool \<times> int) \<times> system) result" where
  "key_event cfg s = bindR (ioe_read cfg (ioe_init lut) 8 (INPUT_KEYBRD_T False 0) s) (\<lambda>(b, s).
     case b of INPUT_KEYBRD_T down k \<Rightarrow> Inr ((down, k), s) | _ \<Rightarrow> wrong_buffer)"

partial_function (option) read_key :: "config \<Rightarrow> system \<Rightarrow> (int \<times> system) result option" where
  "read_key cfg s =
     (case key_event cfg s of
        Inl e \<Rightarrow> Some (Inl e)
      | Inr ((keydown, keycode), s) \<Rightarrow>
          if keydown \<or> keycode = 0 then Some (Inr (keycode, s)) else read_key cfg s)"

definition uptime_us :: "config \<Rightarrow> system \<Rightarrow> (u64 \<times> system) result" where
  "uptime_us cfg s = bindR (ioe_read cfg (ioe_init lut) 6 (TIMER_UPTIME_T 0) s) (\<lambda>(b, s).
     case b of TIMER_UPTIME_T us \<Rightarrow> Inr (us, s) | _ \<Rightarrow> wrong_buffer)"

partial_function (option) wait_until :: "config \<Rightarrow> u64 \<Rightarrow> system \<Rightarrow> system result option" where
  "wait_until cfg next_us s =
     (case uptime_us cfg s of
        Inl e \<Rightarrow> Some (Inl e)
      | Inr (us, s) \<Rightarrow> if us < next_us then wait_until cfg next_us s else Some (Inr s))"

definition sleep_us :: "snake_t \<Rightarrow> u64" where
  "sleep_us snake = (if 100000 - slen snake * 5000 < 5000 then 5000 else of_int (100000 - slen snake * 5000))"

fun bindO :: "'a result option \<Rightarrow> ('a \<Rightarrow> 'b result option) \<Rightarrow> 'b result option" where
  "bindO None f = None"
| "bindO (Some (Inl e)) f = Some (Inl e)"
| "bindO (Some (Inr x)) f = f x"

definition snake_round :: "config \<Rightarrow> u32 \<Rightarrow> rect_t \<Rightarrow> dim_t \<Rightarrow> game \<Rightarrow> system \<Rightarrow> (game \<times> system) result option"
where
  "snake_round cfg buf board game_size g s =
     bindO (Some (print_head cfg buf board (sn g) s)) (\<lambda>s.
     bindO (Some (clear_tail cfg buf board (sn g) s)) (\<lambda>s.
     bindO (read_key cfg s) (\<lambda>(key, s).
     bindO (snake_turn game_size key g) (\<lambda>(ate, g).
     bindO (Some (if ate then print_food cfg buf board (food g) s else Inr s)) (\<lambda>s.
     bindO (Some (refresh cfg s)) (\<lambda>s.
     bindO (Some (uptime_us cfg s)) (\<lambda>(us, s).
     bindO (wait_until cfg (us + sleep_us (sn g)) s) (\<lambda>s.
     Some (Inr (g, s))))))))))"

partial_function (option) snake_loop ::
    "config \<Rightarrow> u32 \<Rightarrow> rect_t \<Rightarrow> dim_t \<Rightarrow> game \<Rightarrow> system \<Rightarrow> (game \<times> system) result option" where
  "snake_loop cfg buf board game_size g s =
     (case snake_round cfg buf board game_size g s of
        None \<Rightarrow> None
      | Some (Inl e) \<Rightarrow> Some (Inl e)
      | Some (Inr (g, s)) \<Rightarrow>
          if dead (sn g) then Some (Inr (g, s)) else snake_loop cfg buf board game_size g s)"

definition gpu_size :: "config \<Rightarrow> system \<Rightarrow> ((int \<times> int) \<times> system) result" where
  "gpu_size cfg s = bindR (ioe_read cfg (ioe_init lut) 9 (GPU_CONFIG_T False False 0 0 0) s) (\<lambda>(b, s).
     case b of GPU_CONFIG_T p a w h v \<Rightarrow> Inr ((w, h), s) | _ \<Rightarrow> wrong_buffer)"

definition board_of :: "int \<Rightarrow> int \<Rightarrow> dim_t \<times> rect_t" where
  "board_of screen_w screen_h =
     (let gw = screen_w - 2; gh = screen_h - 2; l = screen_w sdiv 2 - gw sdiv 2 - 1;
         t = screen_h sdiv 2 - gh sdiv 2 - 1
      in (\<lparr>width = gw, height = gh\<rparr>, \<lparr>top = t, bottom = t + gh + 1, left = l, right = l + gw + 1\<rparr>))"

text \<open>The last message has no conversion, so \<open>printf\<close> writes its characters.\<close>

definition game_over_text :: "u8 list" where
  "game_over_text = map of_char ''GAME OVER'' @ [10] @ map of_char ''Press Q to Exit'' @ [10]"

partial_function (option) wait_for_q :: "config \<Rightarrow> system \<Rightarrow> system result option" where
  "wait_for_q cfg s =
     (case read_key cfg s of
        None \<Rightarrow> None
      | Some (Inl e) \<Rightarrow> Some (Inl e)
      | Some (Inr (key, s)) \<Rightarrow> if key \<noteq> am_key ''Q'' then wait_for_q cfg s else Some (Inr s))"

definition snake_main :: "config \<Rightarrow> u32 \<Rightarrow> klib_state \<Rightarrow> system \<Rightarrow> (game \<times> system) result option" where
  "snake_main cfg buf k s =
     bindO (Some (gpu_size cfg s)) (\<lambda>((w, h), s).
     bindO (Some (gpu_size cfg s)) (\<lambda>((w', h'), s).
     case board_of (w' sdiv 8) (h sdiv 8) of (game_size, board) \<Rightarrow>
     bindO (Some (print_board cfg buf board s)) (\<lambda>s.
     if width game_size = 0 \<or> height game_size = 0 then Some (Inl (Undefined ''division by zero'')) else
     let g = new_game game_size k in
     bindO (Some (print_food cfg buf board (food g) s)) (\<lambda>s.
     bindO (snake_loop cfg buf board game_size g s) (\<lambda>(g, s).
     bindO (Some (foldR (putch cfg) game_over_text s)) (\<lambda>s.
     bindO (wait_for_q cfg s) (\<lambda>s.
     Some (Inr (g, s)))))))))"

section \<open>The game on a list of points\<close>

text \<open>
  The list holds the points of the snake, head first. A snake that eats keeps its last point;
  it dies when the new head leaves the board or meets another of its points.
\<close>

record list_game =
  points :: "point list"
  lfood :: point
  ldir :: dir_t
  lrandoms :: klib_state
  over :: bool

definition outside :: "dim_t \<Rightarrow> point \<Rightarrow> bool" where
  "outside game_size p \<longleftrightarrow> fst p = -1 \<or> fst p = width game_size \<or> snd p = -1 \<or> snd p = height game_size"

definition list_turn :: "dim_t \<Rightarrow> int \<Rightarrow> list_game \<Rightarrow> list_game" where
  "list_turn game_size key a =
     (let d = steer (ldir a) (get_dir key); h = step_point d (hd (points a)); rest = butlast (points a);
          a = a\<lparr>ldir := d, over := outside game_size h \<or> h \<in> set rest\<rparr>
      in if h = lfood a then
           case create_food game_size (lrandoms a) of (f, k) \<Rightarrow>
             a\<lparr>points := h # points a, lfood := f, lrandoms := k\<rparr>
         else a\<lparr>points := h # rest\<rparr>)"

fun list_turns :: "dim_t \<Rightarrow> int list \<Rightarrow> list_game \<Rightarrow> list_game" where
  "list_turns game_size [] a = a"
| "list_turns game_size (key # keys) a =
     (let a = list_turn game_size key a in if over a then a else list_turns game_size keys a)"

definition new_list_game :: "dim_t \<Rightarrow> klib_state \<Rightarrow> list_game" where
  "new_list_game game_size k =
     (let x = width game_size sdiv 2; y = height game_size sdiv 2; (f, k) = create_food game_size k
      in \<lparr>points = [(x, y + 1), (x, y)], lfood = f, ldir = RIGHT, lrandoms = k, over = False\<rparr>)"

section \<open>The ring refines the list\<close>

definition ring_at :: "snake_t \<Rightarrow> nat \<Rightarrow> point" where
  "ring_at s i = body s ! nat ((index s - int i) mod MAX_LENGTH)"

definition ring_ok :: "snake_t \<Rightarrow> bool" where
  "ring_ok s \<longleftrightarrow> length (body s) = 100 \<and> 0 \<le> index s \<and> index s < MAX_LENGTH"

definition snake_ok :: "snake_t \<Rightarrow> bool" where
  "snake_ok s \<longleftrightarrow> ring_ok s \<and> 2 \<le> slen s \<and> slen s \<le> MAX_LENGTH"

definition snake_points :: "snake_t \<Rightarrow> point list" where
  "snake_points s = map (ring_at s) [0..<nat (slen s)]"

definition game_list :: "game \<Rightarrow> list_game" where
  "game_list g = \<lparr>points = snake_points (sn g), lfood = food g, ldir = dir g, lrandoms = randoms g, over = dead (sn g)\<rparr>"

lemma ring_at_body:
  assumes "ring_ok s" "i \<le> 100"
  shows "body_at s (if index s - int i < 0 then index s - int i + MAX_LENGTH else index s - int i) = Inr (ring_at s i)"
proof (cases "index s - int i < 0")
  case True
  then have "(index s - int i + MAX_LENGTH) mod MAX_LENGTH = index s - int i + MAX_LENGTH"
    using assms by (intro mod_pos_pos_trivial) (auto simp: ring_ok_def)
  then have "(index s - int i) mod MAX_LENGTH = index s - int i + MAX_LENGTH" by simp
  with True assms show ?thesis by (simp add: body_at_def ring_at_def ring_ok_def)
next
  case False
  then have "(index s - int i) mod MAX_LENGTH = index s - int i"
    using assms by (intro mod_pos_pos_trivial) (auto simp: ring_ok_def)
  with False assms show ?thesis by (simp add: body_at_def ring_at_def ring_ok_def)
qed

lemma head_at: "ring_ok s \<Longrightarrow> body_at s (index s) = Inr (ring_at s 0)"
  using ring_at_body [of s 0] by (auto simp: ring_ok_def)

lemma move_snake_ring:
  assumes "ring_ok s"
  shows "\<exists>t. move_snake s d = Inr t \<and> ring_ok t \<and> slen t = slen s \<and> dead t = dead s \<and>
    ring_at t 0 = step_point d (ring_at s 0) \<and> (\<forall>i < 99. ring_at t (Suc i) = ring_at s i)"
proof -
  let ?i = "if index s + 1 = MAX_LENGTH then 0 else index s + 1"
  let ?t = "s\<lparr>index := ?i, body := (body s)[nat ?i := step_point d (ring_at s 0)]\<rparr>"
  have i: "?i = (index s + 1) mod MAX_LENGTH" "0 \<le> ?i" "?i < MAX_LENGTH"
    using assms by (auto simp: snake_ok_def ring_ok_def mod_pos_pos_trivial)
  have l: "length (body s) = 100" using assms by (simp add: snake_ok_def ring_ok_def)
  have "body_at s ?i = Inr (body s ! nat ?i)" using i(2,3) by (simp only: body_at_def if_True simp_thms)
  then have "move_snake s d = Inr ?t"
    by (simp only: move_snake_def head_at [OF assms] Let_def bindR.simps)
  moreover have "ring_ok ?t" using assms i(2,3) by (simp add: snake_ok_def ring_ok_def)
  moreover have "ring_at ?t 0 = step_point d (ring_at s 0)"
    using i(2,3) l by (simp add: ring_at_def mod_pos_pos_trivial)
  moreover have "ring_at ?t (Suc k) = ring_at s k" if k: "k < 99" for k
  proof -
    have e: "(?i - int (Suc k)) mod MAX_LENGTH = (index s - int k) mod MAX_LENGTH"
      unfolding i(1) by (simp add: mod_simps algebra_simps)
    have "nat ?i \<noteq> nat ((index s - int k) mod MAX_LENGTH)"
    proof
      assume "nat ?i = nat ((index s - int k) mod MAX_LENGTH)"
      from arg_cong [OF this, of int] have "?i = (index s - int k) mod MAX_LENGTH"
        using i(2) by (simp only: nat_0_le pos_mod_sign zero_less_numeral)
      then have "(index s + 1) mod MAX_LENGTH = (index s - int k) mod MAX_LENGTH" by (simp only: i(1))
      then have "MAX_LENGTH dvd (index s + 1) - (index s - int k)" by (rule mod_eq_dvd_iff [THEN iffD1])
      then have "MAX_LENGTH dvd int (Suc k)" by (simp add: algebra_simps)
      with k show False by (auto dest!: zdvd_imp_le)
    qed
    then show ?thesis by (simp add: ring_at_def e [simplified])
  qed
  ultimately show ?thesis by (intro exI [of _ ?t]) simp
qed

lemma bites_from_ring:
  assumes "snake_ok s" "1 \<le> i" "int i \<le> slen s"
  shows "bites_from s p (int i) = Some (Inr (\<exists>j \<ge> i. int j < slen s \<and> p = ring_at s j))"
  using assms(2,3)
proof (induction "nat (slen s) - i" arbitrary: i)
  case 0
  then have "int i = slen s" using assms(1) by (simp add: snake_ok_def ring_ok_def)
  then show ?case by (subst bites_from.simps) auto
next
  case (Suc n)
  then have lt: "int i < slen s" by linarith
  then have i: "i \<le> 100" and r: "ring_ok s" using assms(1) by (simp_all add: snake_ok_def)
  have IH: "bites_from s p (int i + 1) = Some (Inr (\<exists>j \<ge> Suc i. int j < slen s \<and> p = ring_at s j))"
    using Suc.hyps(1) [of "Suc i"] Suc.hyps(2) Suc.prems lt by (simp add: add.commute)
  have split: "(\<exists>j \<ge> i. int j < slen s \<and> p = ring_at s j) \<longleftrightarrow>
      p = ring_at s i \<or> (\<exists>j \<ge> Suc i. int j < slen s \<and> p = ring_at s j)"
    using lt by (metis Suc_le_eq le_eq_less_or_eq)
  have "bites_from s p (int i) = (if p = ring_at s i then Some (Inr True) else bites_from s p (int i + 1))"
    using less_imp_neq [OF lt]
    by (subst bites_from.simps) (simp only: ring_at_body [OF r i] sum.case if_False)
  with IH split show ?case by simp
qed

lemma is_dead_ring:
  assumes "snake_ok s"
  shows "is_dead s game_size = Some (Inr (outside game_size (ring_at s 0) \<or> ring_at s 0 \<in> set (tl (snake_points s))))"
proof -
  have r: "ring_ok s" using assms by (simp add: snake_ok_def)
  have "ring_at s 0 \<in> set (tl (snake_points s)) \<longleftrightarrow> (\<exists>j \<ge> 1. int j < slen s \<and> ring_at s 0 = ring_at s j)"
    by (auto simp: snake_points_def map_tl [symmetric] tl_upt image_iff zless_nat_eq_int_zless)
  moreover have "bites_from s (ring_at s 0) 1 = Some (Inr (\<exists>j \<ge> 1. int j < slen s \<and> ring_at s 0 = ring_at s j))"
    using bites_from_ring [OF assms, of 1 "ring_at s 0"] assms by (simp add: snake_ok_def ring_ok_def)
  ultimately show ?thesis by (auto simp: is_dead_def head_at [OF r] outside_def)
qed

lemma points_of_ring:
  assumes "ring_at t 0 = h" "\<forall>i < 99. ring_at t (Suc i) = ring_at s i" "n \<le> 99"
  shows "map (ring_at t) [0..<Suc n] = h # map (ring_at s) [0..<n]"
  using assms by (simp add: upt_conv_Cons map_Suc_upt [symmetric] del: upt_Suc)

text \<open>One turn of the program is one turn on the list, as long as the body fits the ring.\<close>

lemma snake_turn_list:
  assumes ok: "snake_ok (sn g)" and fits: "length (points (list_turn game_size key (game_list g))) \<le> 100"
  shows "\<exists>g'. snake_turn game_size key g = Some (Inr (hd (points (game_list g')) = food g, g')) \<and>
    snake_ok (sn g') \<and> game_list g' = list_turn game_size key (game_list g)"
proof -
  let ?d = "steer (dir g) (get_dir key)" and ?n = "nat (slen (sn g))"
  define h where "h = step_point ?d (ring_at (sn g) 0)"
  obtain t where t: "move_snake (sn g) ?d = Inr t" "ring_ok t" "slen t = slen (sn g)" "dead t = dead (sn g)"
    "ring_at t 0 = h" "\<forall>i < 99. ring_at t (Suc i) = ring_at (sn g) i"
    using move_snake_ring [of "sn g" ?d] ok by (auto simp: h_def snake_ok_def)
  have okt: "snake_ok t" using t(2,3) ok by (simp add: snake_ok_def)
  have n: "2 \<le> ?n" "?n \<le> 100" "slen (sn g) = int ?n" using ok by (auto simp: snake_ok_def ring_ok_def)
  obtain m where m: "?n = Suc m" "m \<le> 99" using n by (cases ?n) auto
  have pts: "snake_points (sn g) = map (ring_at (sn g)) [0..<m] @ [ring_at (sn g) m]"
    by (simp add: snake_points_def m(1))
  have bl: "butlast (snake_points (sn g)) = map (ring_at (sn g)) [0..<m]" by (simp add: pts)
  have pt: "snake_points t = h # butlast (snake_points (sn g))"
    using points_of_ring [OF t(5,6) m(2)] by (simp add: snake_points_def t(3) m(1) bl)
  have len: "length (snake_points (sn g)) = ?n" by (simp add: snake_points_def)
  have hd: "hd (snake_points (sn g)) = ring_at (sn g) 0"
    using n(1) by (simp add: snake_points_def upt_conv_Cons)
  define b where "b \<longleftrightarrow> outside game_size h \<or> h \<in> set (butlast (snake_points (sn g)))"
  have b: "is_dead t game_size = Some (Inr b)"
    using is_dead_ring [OF okt] by (simp add: pt t(5) b_def)
  let ?t = "t\<lparr>dead := b\<rparr>"
  have keep: "snake_ok ?t" "ring_at ?t = ring_at t"
    using okt by (simp_all add: snake_ok_def ring_ok_def ring_at_def fun_eq_iff)
  have ate: "has_food ?t f = Inr (h = f)" for f
    using head_at [of ?t] keep t(5) by (simp add: has_food_def snake_ok_def)
  show ?thesis
  proof (cases "h = food g")
    case True
    obtain f k where f: "create_food game_size (randoms g) = (f, k)" by (cases "create_food game_size (randoms g)")
    let ?u = "?t\<lparr>slen := slen ?t + 1\<rparr>"
    have "length (points (list_turn game_size key (game_list g))) = Suc ?n"
      using True f len by (simp add: list_turn_def game_list_def Let_def hd h_def [symmetric])
    with fits have n99: "?n \<le> 99" by simp
    then have "2 \<le> slen (sn g)" "slen (sn g) \<le> 99" using n by simp_all
    then have n2: "2 \<le> slen t + 1" "slen t + 1 \<le> MAX_LENGTH" using t(3) by simp_all
    have u: "snake_ok ?u" "ring_at ?u = ring_at t"
      using keep n2 by (simp_all add: snake_ok_def ring_ok_def ring_at_def fun_eq_iff)
    have "snake_points ?u = h # snake_points (sn g)"
      using points_of_ring [OF t(5,6) n99] n unfolding snake_points_def u(2)
      by (simp add: t(3) nat_add_distrib del: upt_Suc)
    moreover have "snake_turn game_size key g =
        Some (Inr (True, g\<lparr>sn := ?t, dir := ?d, sn := ?u, food := f, randoms := k\<rparr>))"
      by (simp add: snake_turn_def Let_def t(1) b ate f) (simp add: True)
    moreover have "list_turn game_size key (game_list g) = \<lparr>points = h # snake_points (sn g), lfood = f, ldir = ?d,
        lrandoms = k, over = b\<rparr>"
      by (simp add: list_turn_def game_list_def Let_def hd h_def [symmetric] b_def [symmetric] f) (simp add: True f b_def)
    ultimately show ?thesis using u(1) True by (simp add: game_list_def)
  next
    case False
    have "snake_points ?t = h # butlast (snake_points (sn g))"
      using pt keep(2) by (simp add: snake_points_def)
    with keep(1) False show ?thesis
      by (simp add: snake_turn_def Let_def t(1) b ate game_list_def list_turn_def hd
          h_def [symmetric] b_def [symmetric])
  qed
qed

lemma list_turn_grows: "points a \<noteq> [] \<Longrightarrow> length (points a) \<le> length (points (list_turn game_size key a))"
  by (simp add: list_turn_def Let_def split: prod.split)

lemma list_turns_grow: "points a \<noteq> [] \<Longrightarrow> length (points a) \<le> length (points (list_turns game_size keys a))"
proof (induction keys arbitrary: a)
  case (Cons key keys)
  have "points (list_turn game_size key a) \<noteq> []"
    using list_turn_grows [OF Cons.prems, of game_size key] Cons.prems by auto
  with Cons.IH [OF this] list_turn_grows [OF Cons.prems, of game_size key] show ?case
    by (auto simp: Let_def)
qed simp

lemma snake_turns_list:
  assumes "snake_ok (sn g)" "length (points (list_turns game_size keys (game_list g))) \<le> 100"
  shows "\<exists>g'. snake_turns game_size keys g = Some (Inr g') \<and> game_list g' = list_turns game_size keys (game_list g)"
  using assms
proof (induction keys arbitrary: g)
  case (Cons key keys)
  let ?a = "list_turn game_size key (game_list g)"
  have "points (game_list g) \<noteq> []" using Cons.prems(1) by (simp add: game_list_def snake_points_def snake_ok_def ring_ok_def)
  then have ne: "points ?a \<noteq> []" using list_turn_grows [of "game_list g" game_size key] by auto
  then have "length (points ?a) \<le> 100"
    using Cons.prems(2) list_turns_grow [OF ne, of game_size keys] by (auto simp: Let_def split: if_splits)
  from snake_turn_list [OF Cons.prems(1) this] obtain u where
    u: "snake_turn game_size key g = Some (Inr (hd (points (game_list u)) = food g, u))" "snake_ok (sn u)" "game_list u = ?a"
    by blast
  have "over ?a = dead (sn u)" using u(3) by (metis game_list_def list_game.select_convs(5))
  with u Cons.IH [OF u(2)] Cons.prems(2) show ?case by (auto simp: Let_def)
qed simp

lemma new_game_list: "snake_ok (sn (new_game game_size k))" "game_list (new_game game_size k) = new_list_game game_size k"
  by (simp_all add: new_game_def new_snake_def snake_ok_def ring_ok_def game_list_def new_list_game_def snake_points_def
      ring_at_def Let_def numeral_2_eq_2 split: prod.split)

text \<open>When it gets longer than the ring, the head meets its own place in it.\<close>

lemma snake_longer_than_ring_dies:
  assumes "ring_ok s" "slen s = MAX_LENGTH + 1"
  shows "is_dead s game_size = Some (Inr True)"
proof -
  have "bites_from s (ring_at s 0) (int i) = Some (Inr True)" if "i \<le> 100" for i
    using that
  proof (induction i rule: inc_induct)
    case base
    have "ring_at s 100 = ring_at s 0" by (simp add: ring_at_def)
    then show ?case
      using ring_at_body [OF assms(1), of 100] assms(2) by (subst bites_from.simps) simp
  next
    case (step i)
    then have IH: "bites_from s (ring_at s 0) (int i + 1) = Some (Inr True)" by (simp add: add.commute)
    have ne: "int i \<noteq> slen s" and i: "i \<le> 100" using step assms(2) by simp_all
    show ?case
      using ne by (subst bites_from.simps) (simp only: ring_at_body [OF assms(1) i] sum.case IH if_False if_cancel)
  qed
  from this [of 1] show ?thesis by (simp add: is_dead_def head_at [OF assms(1)])
qed

text \<open>C23: Whatever keys are pressed, the game played in the ring of 100 points is the game on a list
  of points, for as long as the snake is not longer than the ring: the turns never leave the
  array, and snake, food, direction, the random numbers used and the end of the game are those
  of the list.\<close>

theorem snake_refines_list_game:
  assumes "length (points (list_turns game_size keys (new_list_game game_size k))) \<le> 100"
  shows "\<exists>g. snake_turns game_size keys (new_game game_size k) = Some (Inr g) \<and>
    game_list g = list_turns game_size keys (new_list_game game_size k)"
  using snake_turns_list [of "new_game game_size k" game_size keys] assms by (simp add: new_game_list)

lemma key_codes: "am_key ''UP'' = 73" "am_key ''DOWN'' = 74" "am_key ''LEFT'' = 75" "am_key ''RIGHT'' = 76"
  by (simp_all add: am_key_def am_keys_def)

text \<open>Turning back is ignored, and the snake runs into the first food.\<close>

lemma snake_refines_list_game_witness:
  "\<exists>g. snake_turns \<lparr>width = 5, height = 5\<rparr> [am_key ''LEFT'', am_key ''UP'']
       (new_game \<lparr>width = 5, height = 5\<rparr> (klib0 0)) = Some (Inr g) \<and>
     points (game_list g) = [(3, 2), (3, 3), (2, 3)] \<and> \<not> over (game_list g)"
proof -
  let ?sz = "\<lparr>width = 5, height = 5\<rparr>"
  define k where "k n = (klib0 0)\<lparr>rand_next := n\<rparr>" for n
  have food: "create_food ?sz (klib0 0) = ((3, 3), k 2524885223)" "create_food ?sz (k 2524885223) = ((3, 0), k 3295386429)"
    by (simp_all add: create_food_def rand_def klib0_def k_def Let_def signed_divide_int_def signed_modulo_int_def)
  have start: "new_list_game ?sz (klib0 0) =
      \<lparr>points = [(2, 3), (2, 2)], lfood = (3, 3), ldir = RIGHT, lrandoms = k 2524885223, over = False\<rparr>"
    by (simp add: new_list_game_def food Let_def signed_divide_int_def)
  have one: "list_turn ?sz (am_key ''LEFT'') (new_list_game ?sz (klib0 0)) =
      \<lparr>points = [(3, 3), (2, 3), (2, 2)], lfood = (3, 0), ldir = RIGHT, lrandoms = k 3295386429, over = False\<rparr>"
    by (simp add: start list_turn_def Let_def outside_def steer_def get_dir_def key_codes food)
  have two: "list_turns ?sz [am_key ''LEFT'', am_key ''UP''] (new_list_game ?sz (klib0 0)) =
      \<lparr>points = [(3, 2), (3, 3), (2, 3)], lfood = (3, 0), ldir = UP, lrandoms = k 3295386429, over = False\<rparr>"
    unfolding list_turns.simps one Let_def
    by (simp add: list_turn_def Let_def outside_def steer_def get_dir_def key_codes)
  show ?thesis
    using snake_refines_list_game [of ?sz "[am_key ''LEFT'', am_key ''UP'']" "klib0 0"] unfolding two by auto
qed

end
