(* ===== verification/Snake_Screen.thy ===== *)
theory Snake_Screen
  imports Snake
begin

text \<open>
  A round of the game on the emulator, through the runtime's drivers: it reads the next key
  pressed, plays the turn, paints the tiles of the head, the tail and the food, and waits for
  the clock.
\<close>

section \<open>The machine\<close>

text \<open>
  Screen, keyboard and clock have registers of their own in \<open>io_space\<close> (at \<open>V\<close>, \<open>F\<close>, \<open>K\<close> and \<open>R\<close>),
  and the buffer of \<open>draw_tile\<close> is in RAM.
\<close>

definition snake_machine ::
    "config \<Rightarrow> nat \<Rightarrow> nat \<Rightarrow> u32 \<Rightarrow> nat \<Rightarrow> nat \<Rightarrow> nat \<Rightarrow> nat \<Rightarrow> system \<Rightarrow> bool" where
  "snake_machine cfg W H buf V F K R s \<longleftrightarrow>
     am_screen_at cfg s W H V F \<and> am_keyboard cfg s \<and> am_clock cfg s \<and>
     i8042_data_port_base (dev s) = Some K \<and> rtc_port_base (dev s) = Some R \<and>
     (V + 8 \<le> K \<or> K + 4 \<le> V) \<and> (F + 4 * (W * H) \<le> K \<or> K + 4 \<le> F) \<and>
     (V + 8 \<le> R \<or> R + 8 \<le> V) \<and> (F + 4 * (W * H) \<le> R \<or> R + 8 \<le> F) \<and>
     (\<forall>i < 64. word_writable cfg None (buf + 4 * of_nat i))"

definition same_picture :: "nat \<Rightarrow> nat \<Rightarrow> system \<Rightarrow> system \<Rightarrow> bool" where
  "same_picture W H s t \<longleftrightarrow> (\<forall>i < H. \<forall>j < W. screen_pixel t W i j = screen_pixel s W i j)"

lemma same_picture_trans [trans]: "same_picture W H s t \<Longrightarrow> same_picture W H t u \<Longrightarrow> same_picture W H s u"
  by (simp add: same_picture_def)

text \<open>Fields of the device state that the machine depends on.\<close>

definition same_bases :: "dev_state \<Rightarrow> dev_state \<Rightarrow> bool" where
  "same_bases d e \<longleftrightarrow> vgactl_port_base e = vgactl_port_base d \<and> vmem e = vmem d \<and>
     i8042_data_port_base e = i8042_data_port_base d \<and> rtc_port_base e = rtc_port_base d \<and> (key_ok d \<longrightarrow> key_ok e)"

lemma machine_after:
  assumes "snake_machine cfg W H buf V F K R s" "am_screen_at cfg t W H V F" "mmio_maps t = mmio_maps s"
    and "same_bases (dev s) (dev t)"
  shows "snake_machine cfg W H buf V F K R t"
proof -
  have r: "dev_region cfg t = dev_region cfg s" using assms(3) by (rule dev_region_frame)
  have k: "i8042_data_port_base (dev t) = i8042_data_port_base (dev s)" "rtc_port_base (dev t) = rtc_port_base (dev s)"
    "key_ok (dev s) \<longrightarrow> key_ok (dev t)"
    using assms(4) by (simp_all add: same_bases_def)
  have "am_keyboard cfg s" "am_clock cfg s" using assms(1) by (simp_all add: snake_machine_def)
  then have "am_keyboard cfg t" "am_clock cfg t" by (simp_all add: am_keyboard_def am_clock_def r k)
  with assms(1,2) k(1,2) show ?thesis by (simp add: snake_machine_def)
qed

text \<open>An access to another device changes neither the machine nor the picture.\<close>

lemma machine_after_io:
  assumes m: "snake_machine cfg W H buf V F K R s" and f: "io_frame p n s t" and b: "same_bases (dev s) (dev t)"
    and apart: "V + 8 \<le> p \<or> p + n \<le> V" "F + 4 * (W * H) \<le> p \<or> p + n \<le> F"
  shows "snake_machine cfg W H buf V F K R t" "same_picture W H s t"
proof -
  have keep: "load_le (hget (harr t)) (hrange (A_io, q) 4) = load_le (hget (harr s)) (hrange (A_io, q) 4)"
    if "q + 4 \<le> p \<or> p + n \<le> q" for q
  proof (rule load_le_cong)
    fix x assume "x \<in> set (hrange (A_io, q) 4)"
    then obtain k where "x = (A_io, q + k)" "k < 4" by (auto simp: hrange.simps)
    with f that show "hget (harr t) x = hget (harr s) x" by (auto simp: io_frame_def)
  qed
  have sc: "am_screen_at cfg s W H V F" using m by (simp add: snake_machine_def)
  have maps: "mmio_maps t = mmio_maps s" using f by (simp add: io_frame_def)
  have "am_screen_at cfg t W H V F"
    using sc keep [of V] apart(1) b dev_region_frame [OF maps]
    by (auto simp: am_screen_at_def same_bases_def)
  from machine_after [OF m this maps b] show "snake_machine cfg W H buf V F K R t" .
  have "screen_pixel t W i j = screen_pixel s W i j" if "i < H" "j < W" for i j
    using keep [of "F + 4 * (W * i + j)"] apart(2) screen_index [OF that] sc b
    by (auto simp: screen_pixel_def am_screen_at_def same_bases_def)
  then show "same_picture W H s t" by (simp add: same_picture_def)
qed

section \<open>Drawing\<close>

definition paints :: "nat \<Rightarrow> nat \<Rightarrow> int \<Rightarrow> int \<Rightarrow> u32 \<Rightarrow> system \<Rightarrow> system \<Rightarrow> bool" where
  "paints W H y x color s t \<longleftrightarrow> (\<forall>i < H. \<forall>j < W. screen_pixel t W i j =
     (if int i div 8 = y \<and> int j div 8 = x then color else screen_pixel s W i j))"

definition tile_ctl :: "u32 \<Rightarrow> int \<Rightarrow> int \<Rightarrow> fbdraw" where
  "tile_ctl buf y x = \<lparr>fb_x = x * 8, fb_y = y * 8, fb_pixels = buf, fb_w = 8, fb_h = 8, fb_sync = False\<rparr>"

lemma inside_tile: "inside (tile_ctl buf y x) i j \<longleftrightarrow> int i div 8 = y \<and> int j div 8 = x"
  by (auto simp: inside_def tile_ctl_def)

lemma tile_source:
  assumes "inside (tile_ctl buf y x) i j" shows "source_index (tile_ctl buf y x) i j < 64"
proof -
  have "0 \<le> int i - y * 8" "int i - y * 8 < 8" "0 \<le> int j - x * 8" "int j - x * 8 < 8"
    using assms by (auto simp: inside_def tile_ctl_def)
  then show ?thesis by (simp add: source_index_def tile_ctl_def)
qed

text \<open>Filling the buffer.\<close>

lemma fill_buffer:
  assumes m: "snake_machine cfg W H buf V F K R s"
  shows "\<exists>u. foldR (\<lambda>i. outl cfg (buf + 4 * of_nat i) color) [0..<64] s = Inr u \<and>
    snake_machine cfg W H buf V F K R u \<and> dev u = dev s \<and> same_picture W H s u \<and>
    (\<forall>i < 64. word_at cfg None u (buf + 4 * of_nat i) = color)"
proof -
  let ?fb = "vmem_region W H F" and ?avs = "map (\<lambda>i. (buf + 4 * of_nat i, color)) [0..<64]"
  have sc: "am_screen_at cfg s W H V F" and wr: "\<And>i. i < 64 \<Longrightarrow> word_writable cfg None (buf + 4 * of_nat i)"
    using m by (simp_all add: snake_machine_def)
  have mem: "word_writable cfg ?fb a \<and> readable_memory cfg a \<and> word_readable cfg None a"
    if "word_writable cfg None a" for a
    using that memory_word_region [of cfg a ?fb] by (auto simp: word_writable_def word_readable_def)
  have "inj_on (\<lambda>i. buf + 4 * of_nat i) {0..<64}"
  proof (rule inj_onI)
    fix i j :: nat assume ij: "i \<in> {0..<64}" "j \<in> {0..<64}" and "buf + 4 * of_nat i = buf + 4 * of_nat j"
    then have "(of_nat (4 * i) :: u32) = of_nat (4 * j)" by simp
    then show "i = j" using ij by (subst (asm) of_nat_u32_inj) auto
  qed
  then have dist: "distinct (map fst ?avs)" by (simp add: distinct_map comp_def)
  have can: "\<forall>(a, v) \<in> set ?avs. word_writable cfg ?fb a" using wr mem by auto
  obtain u where u: "foldR (\<lambda>(a, v). outl cfg a v) ?avs s = Inr u" "plain_frame cfg ?fb s u"
    "\<forall>(a, v) \<in> set ?avs. word_at cfg ?fb u a = v"
    "\<forall>b. word_readable cfg ?fb b \<longrightarrow> b \<notin> fst ` set ?avs \<longrightarrow> word_at cfg ?fb u b = word_at cfg ?fb s b"
    using guest.write_all [OF screen_setup(2) [OF sc] can dist] by blast
  have dev: "dev u = dev s" using u(2) by (simp add: plain_frame_def)
  have sc': "am_screen_at cfg u W H V F" using screen_frame [OF sc u(2)] .
  have "snake_machine cfg W H buf V F K R u"
    using machine_after [OF m sc' plain_frame_maps [OF u(2)]] dev by (simp add: same_bases_def)
  moreover have "screen_pixel u W i j = screen_pixel s W i j" if ij: "i < H" "j < W" for i j
  proof -
    have r: "dev_region cfg s VMEM_ADDR (4 * (W * H)) F None" using sc by (simp add: am_screen_at_def)
    note px = pixel_word [OF r ij]
    have "pixel_addr W i j \<notin> fst ` set ?avs" using px(2) wr mem by (auto simp: image_iff)
    with u(4) px have "word_at cfg ?fb u (pixel_addr W i j) = word_at cfg ?fb s (pixel_addr W i j)"
      by (simp add: word_readable_def)
    then show ?thesis using screen_pixel_word [OF sc ij] dev by simp
  qed
  moreover have "word_at cfg None u (buf + 4 * of_nat i) = color" if "i < 64" for i
    using u(3) that mem [OF wr [OF that]] memory_word_at [of cfg "buf + 4 * of_nat i" ?fb u] by auto
  moreover have "foldR (\<lambda>i. outl cfg (buf + 4 * of_nat i) color) [0..<64] s = Inr u"
    using u(1) by (simp only: foldR_over_map prod.case)
  ultimately show ?thesis using dev by (auto simp: same_picture_def)
qed

lemma draw_tile_paints:
  assumes m: "snake_machine cfg W H buf V F K R s" and c: "color \<noteq> 0xffffffff"
    and xy: "0 \<le> x" "8 * x + 8 \<le> int W" "0 \<le> y" "8 * y + 8 \<le> int H"
  shows "\<exists>t. draw_tile cfg buf y x color s = Inr t \<and> snake_machine cfg W H buf V F K R t \<and> dev t = dev s \<and>
    paints W H y x color s t"
proof -
  let ?ctl = "tile_ctl buf y x"
  obtain u where u: "foldR (\<lambda>i. outl cfg (buf + 4 * of_nat i) color) [0..<64] s = Inr u"
    "snake_machine cfg W H buf V F K R u" "dev u = dev s" "same_picture W H s u"
    "\<forall>i < 64. word_at cfg None u (buf + 4 * of_nat i) = color"
    using fill_buffer [OF m] by blast
  have sc: "am_screen_at cfg u W H V F" using u(2) by (simp add: snake_machine_def)
  have "word_readable cfg None (buf + 4 * of_nat k)" if "k < 64" for k
    using u(2) that by (auto simp: snake_machine_def word_writable_def word_readable_def)
  then have "drawable cfg W H ?ctl" using xy by (simp add: drawable_def tile_ctl_def)
  from fbdraw_run [OF sc this] obtain t where
    t: "fb_register cfg ?ctl u = Inr t" "plain_frame cfg (vmem_region W H F) u t" "am_screen_at cfg t W H V F"
      "\<forall>i < H. \<forall>j < W. screen_pixel t W i j = (if inside ?ctl i j
        then word_at cfg None u (fb_pixels ?ctl + 4 * of_nat (source_index ?ctl i j)) else screen_pixel u W i j)"
    by (auto simp: fb_register_def tile_ctl_def)
  have dev: "dev t = dev u" using t(2) by (simp add: plain_frame_def)
  have "snake_machine cfg W H buf V F K R t"
    using machine_after [OF u(2) t(3) plain_frame_maps [OF t(2)]] dev by (simp add: same_bases_def)
  moreover have "screen_pixel t W i j = (if int i div 8 = y \<and> int j div 8 = x then color else screen_pixel s W i j)"
    if ij: "i < H" "j < W" for i j
  proof (cases "inside ?ctl i j")
    case True
    then have "screen_pixel t W i j = word_at cfg None u (buf + 4 * of_nat (source_index ?ctl i j))"
      using t(4) ij by (simp add: tile_ctl_def)
    with u(5) tile_source [OF True] True show ?thesis by (simp add: inside_tile)
  next
    case False
    then have "screen_pixel t W i j = screen_pixel u W i j" using t(4) ij by simp
    with u(4) ij False show ?thesis unfolding inside_tile same_picture_def by auto
  qed
  then have "paints W H y x color s t" by (simp add: paints_def)
  moreover have "draw_tile cfg buf y x color s = Inr t"
    using c u(1) t(1) by (simp add: draw_tile_def tile_ctl_def)
  ultimately show ?thesis using dev u(3) by metis
qed

lemma refresh_shows:
  assumes m: "snake_machine cfg W H buf V F K R s"
  shows "\<exists>t u. refresh cfg s = Inr t \<and> snake_machine cfg W H buf V F K R t \<and> dev t = dev s \<and>
    same_picture W H s t \<and> vga_update_screen cfg t = Inr u \<and> frames (dev u) = Suc (frames (dev s))"
proof -
  let ?ctl = "\<lparr>fb_x = 0, fb_y = 0, fb_pixels = 0, fb_w = 0, fb_h = 0, fb_sync = True\<rparr>"
  have sc: "am_screen_at cfg s W H V F" using m by (simp add: snake_machine_def)
  obtain t where t: "ioe_write cfg (ioe_init lut) 11 (GPU_FBDRAW_T ?ctl) s =
      bindR (outl cfg (VGACTL_ADDR + 4) 1 t) (\<lambda>u. Inr (GPU_FBDRAW_T ?ctl, u))"
    "plain_frame cfg (vmem_region W H F) s t" "am_screen_at cfg t W H V F" "same_picture W H s t"
    using fbdraw_run [OF sc, of ?ctl] by (auto simp: drawable_def inside_def same_picture_def)
  obtain u v where u: "outl cfg (VGACTL_ADDR + 4) 1 t = Inr u" "am_screen_at cfg u W H V F" "same_picture W H t u"
    "vga_update_screen cfg u = Inr v" "frames (dev v) = Suc (frames (dev t))" "dev u = dev t"
    "mmio_maps u = mmio_maps t"
    using screen_sync [OF t(3)] by (auto simp: same_picture_def io_frame_def)
  have dev: "dev u = dev s" using t(2) u(6) by (simp add: plain_frame_def)
  have "snake_machine cfg W H buf V F K R u"
    using machine_after [OF m u(2)] u(7) plain_frame_maps [OF t(2)] dev by (simp add: same_bases_def)
  moreover have "refresh cfg s = Inr u" using t(1) u(1) by (simp add: refresh_def fb_register_def)
  moreover have "same_picture W H s u" using t(4) u(3) by (rule same_picture_trans)
  moreover have "frames (dev v) = Suc (frames (dev s))" using u(5,6) dev by simp
  ultimately show ?thesis using dev u(4) by blast
qed

section \<open>Keys\<close>

text \<open>The key that a round takes from the queue: the first one pressed, none when there is none.\<close>

fun first_press :: "(bool \<times> int) list \<Rightarrow> int" where
  "first_press [] = 0"
| "first_press ((down, k) # ks) = (if down \<or> k = 0 then k else first_press ks)"

definition next_key :: "dev_state \<Rightarrow> int" where
  "next_key d = first_press (map key_report (key_items d))"

lemma key_dequeue_fields: "key_dequeue d = (k, e) \<Longrightarrow> \<exists>f. e = d\<lparr>key_f := f\<rparr>"
  by (auto simp: key_dequeue_def split: if_splits intro: exI [of _ "key_f d"])

lemma key_event_step:
  assumes m: "snake_machine cfg W H buf V F K R s" and q: "key_dequeue (dev s) = (k, d)"
  shows "\<exists>t. key_event cfg s = Inr (key_report k, t) \<and> dev t = d \<and> snake_machine cfg W H buf V F K R t \<and>
    same_picture W H s t"
proof -
  have kb: "am_keyboard cfg s" "i8042_data_port_base (dev s) = Some K"
    and apart: "V + 8 \<le> K \<or> K + 4 \<le> V" "F + 4 * (W * H) \<le> K \<or> K + 4 \<le> F"
    using m by (simp_all add: snake_machine_def)
  obtain t where t: "ioe_read cfg (ioe_init lut) 8 (INPUT_KEYBRD_T False 0) s =
      Inr (case key_report k of (down, c) \<Rightarrow> INPUT_KEYBRD_T down c, t)" "dev t = d" "am_keyboard cfg t" "io_frame K 4 s t"
    using keyboard_step [OF kb(1) q, of "INPUT_KEYBRD_T False 0"] kb(2) by auto
  obtain f where "d = (dev s)\<lparr>key_f := f\<rparr>" using key_dequeue_fields [OF q] by blast
  moreover have "key_ok d" using t(2,3) by (simp add: am_keyboard_def)
  ultimately have "same_bases (dev s) (dev t)" using t(2) by (simp add: same_bases_def)
  from machine_after_io [OF m t(4) this apart] t(1,2) show ?thesis
    by (cases "key_report k") (auto simp: key_event_def)
qed

lemma read_key_first_press:
  assumes "snake_machine cfg W H buf V F K R s"
  shows "\<exists>t f. read_key cfg s = Some (Inr (next_key (dev s), t)) \<and> dev t = (dev s)\<lparr>key_f := f\<rparr> \<and>
    snake_machine cfg W H buf V F K R t \<and> same_picture W H s t"
  using assms
proof (induction "key_items (dev s)" arbitrary: s)
  case Nil
  have ok: "key_ok (dev s)" using Nil.prems by (simp add: snake_machine_def am_keyboard_def)
  have "key_dequeue (dev s) = (0, dev s)" using keys.deq_none [OF ok] Nil.hyps by simp
  from key_event_step [OF Nil.prems this] obtain t where
    t: "key_event cfg s = Inr (key_report 0, t)" "dev t = dev s" "snake_machine cfg W H buf V F K R t" "same_picture W H s t"
    by blast
  have "read_key cfg s = Some (Inr (0, t))"
    by (subst read_key.simps) (simp add: t(1) key_report_def)
  with t Nil.hyps show ?case
    by (intro exI [of _ t] exI [of _ "key_f (dev s)"]) (simp add: next_key_def flip: Nil.hyps)
next
  case (Cons k ks)
  have ok: "key_ok (dev s)" using Cons.prems by (simp add: snake_machine_def am_keyboard_def)
  obtain d where d: "key_dequeue (dev s) = (k, d)" "key_items d = ks"
    using keys.deq_some [OF ok Cons.hyps(2) [symmetric]] by blast
  obtain f where f: "d = (dev s)\<lparr>key_f := f\<rparr>" using key_dequeue_fields [OF d(1)] by blast
  obtain t where t: "key_event cfg s = Inr (key_report k, t)" "dev t = d" "snake_machine cfg W H buf V F K R t"
    "same_picture W H s t" using key_event_step [OF Cons.prems d(1)] by blast
  obtain u f' where u: "read_key cfg t = Some (Inr (next_key d, u))" "dev u = d\<lparr>key_f := f'\<rparr>"
    "snake_machine cfg W H buf V F K R u" "same_picture W H t u"
    using Cons.hyps(1) [OF _ t(3)] t(2) d(2) by auto
  obtain down c where r: "key_report k = (down, c)" by (cases "key_report k")
  have nk: "next_key (dev s) = (if down \<or> c = 0 then c else next_key d)"
    by (simp add: next_key_def r d(2) flip: Cons.hyps(2))
  show ?case
  proof (cases "down \<or> c = 0")
    case True
    then have "read_key cfg s = Some (Inr (c, t))" by (subst read_key.simps) (simp add: t(1) r)
    with True nk t f show ?thesis by auto
  next
    case False
    then have "read_key cfg s = read_key cfg t" by (subst read_key.simps) (simp add: t(1) r)
    moreover have "same_picture W H s u" using t(4) u(4) by (rule same_picture_trans)
    moreover have "dev u = (dev s)\<lparr>key_f := f'\<rparr>" using u(2) f by simp
    ultimately show ?thesis using False nk u(1,3) by auto
  qed
qed

section \<open>Waiting\<close>

lemma get_time_fields: "get_time d = (us, e) \<Longrightarrow> \<exists>b r. e = d\<lparr>boot_time := b, clock_reads := r\<rparr>"
  by (intro exI [of _ "boot_time e"] exI [of _ "clock_reads e"], cases d)
    (auto simp: get_time_def get_time_internal_def Let_def split: if_splits)

lemma get_time_keys: "get_time d = (us, e) \<Longrightarrow> get_time (d\<lparr>key_f := f\<rparr>) = (us, e\<lparr>key_f := f\<rparr>)"
  by (auto simp: get_time_def get_time_internal_def Let_def split: if_splits)

lemma uptime_us_step:
  assumes m: "snake_machine cfg W H buf V F K R s" and g: "get_time (dev s) = (us, d)"
  shows "\<exists>t. uptime_us cfg s = Inr (us, t) \<and> dev t = d \<and> snake_machine cfg W H buf V F K R t \<and> same_picture W H s t"
proof -
  have c: "am_clock cfg s" "rtc_port_base (dev s) = Some R"
    and apart: "V + 8 \<le> R \<or> R + 8 \<le> V" "F + 4 * (W * H) \<le> R \<or> R + 8 \<le> F"
    using m by (simp_all add: snake_machine_def)
  obtain t where t: "am_timer_uptime cfg (TIMER_UPTIME_T 0) s = Inr (TIMER_UPTIME_T us, t)" "dev t = d" "io_frame R 8 s t"
    using uptime_step [OF c(1) g] c(2) by auto
  obtain b r where "d = (dev s)\<lparr>boot_time := b, clock_reads := r\<rparr>" using get_time_fields [OF g] by blast
  then have "same_bases (dev s) (dev t)" using t(2) by (simp add: same_bases_def key_ok_def)
  from machine_after_io [OF m t(3) this apart] t(1,2) show ?thesis
    by (auto simp: uptime_us_def ioe_read_def ioe_init_def lut_def)
qed

text \<open>The host's clock will be read at a time \<open>next\<close> or later, from the state of the devices \<open>d\<close> on.\<close>

definition will_be :: "dev_state \<Rightarrow> u64 \<Rightarrow> bool" where
  "will_be d t \<longleftrightarrow> boot_time d \<noteq> 0 \<and> (\<exists>n \<ge> clock_reads d. t \<le> host_clock d n - boot_time d)"

lemma wait_until_returns:
  assumes "snake_machine cfg W H buf V F K R s" "will_be (dev s) t"
  shows "\<exists>u. wait_until cfg t s = Some (Inr u) \<and> snake_machine cfg W H buf V F K R u \<and> same_picture W H s u"
proof -
  obtain n where "boot_time (dev s) \<noteq> 0" "clock_reads (dev s) \<le> n" "t \<le> host_clock (dev s) n - boot_time (dev s)"
    using assms(2) by (auto simp: will_be_def)
  with assms(1) show ?thesis
  proof (induction "n - clock_reads (dev s)" arbitrary: s rule: less_induct)
    case less
    let ?d = "dev s" and ?us = "host_clock (dev s) (clock_reads (dev s)) - boot_time (dev s)"
    have g: "get_time ?d = (?us, ?d\<lparr>clock_reads := Suc (clock_reads ?d)\<rparr>)"
      using less.prems(2) by (simp add: get_time_def get_time_internal_def Let_def)
    obtain u where u: "uptime_us cfg s = Inr (?us, u)" "dev u = ?d\<lparr>clock_reads := Suc (clock_reads ?d)\<rparr>"
      "snake_machine cfg W H buf V F K R u" "same_picture W H s u"
      using uptime_us_step [OF less.prems(1) g] by blast
    show ?case
    proof (cases "?us < t")
      case False
      then have "wait_until cfg t s = Some (Inr u)" by (subst wait_until.simps) (simp add: u(1))
      with u(3,4) show ?thesis by blast
    next
      case True
      have "clock_reads ?d \<noteq> n"
      proof
        assume "clock_reads ?d = n"
        with less.prems(4) have "t \<le> ?us" by (simp only:)
        from leD [OF this] True show False by (rule notE)
      qed
      then have n: "clock_reads ?d < n" using less.prems(3) by simp
      then have "n - clock_reads (dev u) < n - clock_reads ?d" by (simp add: u(2))
      moreover have "boot_time (dev u) \<noteq> 0" "clock_reads (dev u) \<le> n" "t \<le> host_clock (dev u) n - boot_time (dev u)"
        using n less.prems(2,4) by (simp_all add: u(2))
      ultimately obtain v where v: "wait_until cfg t u = Some (Inr v)"
        "snake_machine cfg W H buf V F K R v" "same_picture W H u v"
        using less.hyps [OF _ u(3)] by blast
      have "wait_until cfg t s = wait_until cfg t u"
        using True by (subst wait_until.simps) (simp add: u(1))
      moreover have "same_picture W H s v" using u(4) v(3) by (rule same_picture_trans)
      ultimately show ?thesis using v(1,2) by auto
    qed
  qed
qed

section \<open>The board\<close>

definition on_board :: "dim_t \<Rightarrow> point \<Rightarrow> bool" where
  "on_board gs p \<longleftrightarrow> 0 \<le> fst p \<and> fst p < width gs \<and> 0 \<le> snd p \<and> snd p < height gs"

definition tile_of :: "nat \<Rightarrow> nat \<Rightarrow> point" where
  "tile_of i j = (int j div 8 - 1, int i div 8 - 1)"

text \<open>The tiles of the board, and the frame around it.\<close>

lemma board_of_screen:
  assumes "2 \<le> w" "2 \<le> h"
  shows "board_of w h = (\<lparr>width = w - 2, height = h - 2\<rparr>, \<lparr>top = 0, bottom = h - 1, left = 0, right = w - 1\<rparr>)"
proof -
  have "k sdiv 2 = k div 2" if "0 \<le> k" for k :: int using that by (simp add: signed_divide_int_def sgn_if)
  moreover have "k div 2 - (k - 2) div 2 = 1" for k :: int by presburger
  ultimately show ?thesis using assms by (simp add: board_of_def Let_def)
qed

lemma food_on_board:
  assumes "0 < width gs" "0 < height gs" "create_food gs k = (f, k')"
  shows "on_board gs f"
proof -
  have "a smod b = a mod b" if "0 \<le> a" "0 < b" for a b :: int
    using that by (cases "a = 0") (simp_all add: signed_modulo_int_def signed_divide_int_def sgn_if minus_div_mult_eq_mod)
  with assms show ?thesis
    by (auto simp: create_food_def Let_def on_board_def split: prod.splits)
qed

lemma board_tile_paints:
  assumes m: "snake_machine cfg W H buf V F K R s" and c: "color \<noteq> 0xffffffff"
    and p: "on_board \<lparr>width = int W div 8 - 2, height = int H div 8 - 2\<rparr> p" and b: "top board = 0" "left board = 0"
  shows "\<exists>t. board_tile cfg buf board color p s = Inr t \<and> snake_machine cfg W H buf V F K R t \<and> dev t = dev s \<and>
    (\<forall>i < H. \<forall>j < W. screen_pixel t W i j = (if tile_of i j = p then color else screen_pixel s W i j))"
proof -
  have xy: "0 \<le> fst p + 1" "8 * (fst p + 1) + 8 \<le> int W" "0 \<le> snd p + 1" "8 * (snd p + 1) + 8 \<le> int H"
    using p by (auto simp: on_board_def)
  have "(int i div 8 = snd p + 1 \<and> int j div 8 = fst p + 1) = (tile_of i j = p)" for i j
    by (cases p) (auto simp: tile_of_def)
  with draw_tile_paints [OF m c xy] b show ?thesis
    by (simp add: board_tile_def paints_def)
qed

section \<open>A round\<close>

text \<open>What the screen shows after a round: \<open>p0\<close> is the place the tail has left.\<close>

definition round_picture ::
    "point \<Rightarrow> point \<Rightarrow> point option \<Rightarrow> nat \<Rightarrow> nat \<Rightarrow> system \<Rightarrow> system \<Rightarrow> bool" where
  "round_picture head p0 new_food W H s t \<longleftrightarrow> (\<forall>i < H. \<forall>j < W. screen_pixel t W i j =
     (if new_food = Some (tile_of i j) then 0x000000ff
      else if tile_of i j = p0 then 0
      else if tile_of i j = head then 0x00ff0000
      else screen_pixel s W i j))"

lemma sleep_bound:
  assumes "2 \<le> slen sk"
  shows "sleep_us sk \<le> 100000"
proof (cases "100000 - slen sk * 5000 < 5000")
  case False
  define n where "n = nat (100000 - slen sk * 5000)"
  have n: "of_int (100000 - slen sk * 5000) = (of_nat n :: u64)" "n \<le> 100000" using False assms by (simp_all add: n_def)
  then have "(of_nat n :: u64) \<le> 100000" by (simp add: word_le_nat_alt unat_of_nat)
  with False n(1) show ?thesis by (simp add: sleep_us_def)
qed (simp add: sleep_us_def)

lemma clear_tail_tile:
  assumes "snake_ok (sn g)"
  shows "clear_tail cfg buf board (sn g) s = board_tile cfg buf board 0 (ring_at (sn g) (nat (slen (sn g)))) s"
proof -
  have r: "ring_ok (sn g)" and n: "nat (slen (sn g)) \<le> 100" "int (nat (slen (sn g))) = slen (sn g)"
    using assms by (auto simp: snake_ok_def)
  show ?thesis
    by (simp only: clear_tail_def Let_def ring_at_body [OF r n(1), unfolded n(2)] bindR.simps)
qed

lemma print_head_tile:
  assumes "snake_ok (sn g)"
  shows "print_head cfg buf board (sn g) s = board_tile cfg buf board 0x00ff0000 (ring_at (sn g) 0) s"
  using head_at [of "sn g"] assms by (simp add: print_head_def snake_ok_def)

lemma head_and_tail_drawn:
  assumes m: "snake_machine cfg W H buf V F K R s" and b: "top board = 0" "left board = 0"
    and ok: "snake_ok (sn g)"
    and pts: "\<forall>i \<le> nat (slen (sn g)). on_board \<lparr>width = int W div 8 - 2, height = int H div 8 - 2\<rparr> (ring_at (sn g) i)"
  shows "\<exists>s' t. print_head cfg buf board (sn g) s = Inr s' \<and> clear_tail cfg buf board (sn g) s' = Inr t \<and>
    snake_machine cfg W H buf V F K R t \<and> dev t = dev s \<and>
    round_picture (ring_at (sn g) 0) (ring_at (sn g) (nat (slen (sn g)))) None W H s t"
proof -
  note tile = board_tile_paints [OF _ _ _ b]
  obtain s1 where s1: "print_head cfg buf board (sn g) s = Inr s1" "snake_machine cfg W H buf V F K R s1" "dev s1 = dev s"
    "\<forall>i < H. \<forall>j < W. screen_pixel s1 W i j = (if tile_of i j = ring_at (sn g) 0 then 0x00ff0000 else screen_pixel s W i j)"
    using tile [OF m, of "0x00ff0000" "ring_at (sn g) 0"] pts unfolding print_head_tile [OF ok] by auto
  obtain t where t: "clear_tail cfg buf board (sn g) s1 = Inr t" "snake_machine cfg W H buf V F K R t" "dev t = dev s1"
    "\<forall>i < H. \<forall>j < W. screen_pixel t W i j =
      (if tile_of i j = ring_at (sn g) (nat (slen (sn g))) then 0 else screen_pixel s1 W i j)"
    using tile [OF s1(2), of 0 "ring_at (sn g) (nat (slen (sn g)))"] pts unfolding clear_tail_tile [OF ok] by auto
  have "round_picture (ring_at (sn g) 0) (ring_at (sn g) (nat (slen (sn g)))) None W H s t"
    using t(4) s1(4) by (simp add: round_picture_def)
  with s1 t show ?thesis by auto
qed

lemma turn_food_on_board:
  assumes "game_list g' = list_turn gs key (game_list g)" "hd (points (game_list g')) = food g"
    and "0 < width gs" "0 < height gs"
  shows "on_board gs (food g')"
proof -
  obtain f k where f: "create_food gs (randoms g) = (f, k)" by (cases "create_food gs (randoms g)")
  have "food g' = lfood (list_turn gs key (game_list g))" using assms(1) by (metis game_list_def list_game.select_convs(2))
  also have "\<dots> = f" using assms(2) unfolding assms(1)
    by (simp add: list_turn_def Let_def game_list_def f split: if_splits)
  finally show ?thesis using food_on_board [OF assms(3,4) f] by simp
qed

text \<open>The rest of the round: food, sync and waiting.\<close>

lemma round_ends:
  assumes m: "snake_machine cfg W H buf V F K R s" and b: "top board = 0" "left board = 0"
    and fb: "ate \<longrightarrow> on_board \<lparr>width = int W div 8 - 2, height = int H div 8 - 2\<rparr> f"
    and clk: "get_time (dev s) = (us, d)" "will_be d (us + w)"
  shows "\<exists>s1 s2 s3 t. (if ate then print_food cfg buf board f s else Inr s) = Inr s1 \<and> refresh cfg s1 = Inr s2 \<and>
    uptime_us cfg s2 = Inr (us, s3) \<and> wait_until cfg (us + w) s3 = Some (Inr t) \<and>
    snake_machine cfg W H buf V F K R t \<and> (\<forall>i < H. \<forall>j < W. screen_pixel t W i j =
      (if ate \<and> tile_of i j = f then 0x000000ff else screen_pixel s W i j))"
proof -
  have "\<exists>t. (if ate then print_food cfg buf board f s else Inr s) = Inr t \<and>
      snake_machine cfg W H buf V F K R t \<and> dev t = dev s \<and> (\<forall>i < H. \<forall>j < W. screen_pixel t W i j =
      (if ate \<and> tile_of i j = f then 0x000000ff else screen_pixel s W i j))"
    using board_tile_paints [OF m _ _ b, of "0x000000ff" f] fb m unfolding print_food_def by (cases ate) auto
  then obtain s1 where s1: "(if ate then print_food cfg buf board f s else Inr s) = Inr s1"
    "snake_machine cfg W H buf V F K R s1" "dev s1 = dev s" "\<forall>i < H. \<forall>j < W. screen_pixel s1 W i j =
      (if ate \<and> tile_of i j = f then 0x000000ff else screen_pixel s W i j)" by blast
  obtain s2 where s2: "refresh cfg s1 = Inr s2" "snake_machine cfg W H buf V F K R s2" "dev s2 = dev s1" "same_picture W H s1 s2"
    using refresh_shows [OF s1(2)] by blast
  obtain s3 where s3: "uptime_us cfg s2 = Inr (us, s3)" "dev s3 = d" "snake_machine cfg W H buf V F K R s3" "same_picture W H s2 s3"
    using uptime_us_step [OF s2(2), of us d] clk(1) s2(3) s1(3) by auto
  obtain t where t: "wait_until cfg (us + w) s3 = Some (Inr t)" "snake_machine cfg W H buf V F K R t" "same_picture W H s3 t"
    using wait_until_returns [OF s3(3), of "us + w"] clk(2) s3(2) by auto
  have "same_picture W H s1 t"
    using same_picture_trans [OF same_picture_trans [OF s2(4) s3(4)] t(3)] .
  then have "\<forall>i < H. \<forall>j < W. screen_pixel t W i j = (if ate \<and> tile_of i j = f then 0x000000ff else screen_pixel s W i j)"
    using s1(4) by (simp add: same_picture_def)
  with s1(1) s2(1) s3(1) t(1,2) show ?thesis by blast
qed

text \<open>C22: One round of the game on the emulator, from the registers of its devices to the pixels of
  its screen. The round returns when the host's clock goes on; its turn is that of the list game
  for the next key pressed; it paints exactly the tile of the head, the tile the tail has left
  and, when the snake has eaten, the tile of the new food.\<close>

theorem snake_round_on_screen:
  assumes m: "snake_machine cfg W H buf V F K R s" and size: "24 \<le> W" "24 \<le> H"
    and b: "board_of (int W div 8) (int H div 8) = (gs, board)"
    and ok: "snake_ok (sn g)" and pts: "\<forall>i \<le> nat (slen (sn g)). on_board gs (ring_at (sn g) i)"
    and fits: "length (points (list_turn gs (next_key (dev s)) (game_list g))) \<le> 100"
    and clk: "get_time (dev s) = (us, d)" "\<forall>w \<le> 100000. will_be d (us + w)"
  shows "\<exists>g' t. snake_round cfg buf board gs g s = Some (Inr (g', t)) \<and>
    game_list g' = list_turn gs (next_key (dev s)) (game_list g) \<and> snake_machine cfg W H buf V F K R t \<and>
    round_picture (ring_at (sn g) 0) (ring_at (sn g) (nat (slen (sn g))))
      (if hd (points (game_list g')) = food g then Some (food g') else None) W H s t"
proof -
  let ?key = "next_key (dev s)" and ?head = "ring_at (sn g) 0" and ?tail = "ring_at (sn g) (nat (slen (sn g)))"
  have wh: "3 \<le> int W div 8" "3 \<le> int H div 8" using size by linarith+
  then have gs: "gs = \<lparr>width = int W div 8 - 2, height = int H div 8 - 2\<rparr>" "top board = 0" "left board = 0"
    using b by (auto simp: board_of_screen)
  obtain s1 s2 where s2: "print_head cfg buf board (sn g) s = Inr s1" "clear_tail cfg buf board (sn g) s1 = Inr s2"
    "snake_machine cfg W H buf V F K R s2" "dev s2 = dev s" "round_picture ?head ?tail None W H s s2"
    using head_and_tail_drawn [OF m gs(2,3) ok] pts unfolding gs(1) by blast
  obtain s3 f where s3: "read_key cfg s2 = Some (Inr (?key, s3))" "dev s3 = (dev s)\<lparr>key_f := f\<rparr>"
    "snake_machine cfg W H buf V F K R s3" "same_picture W H s2 s3"
    using read_key_first_press [OF s2(3)] s2(4) by auto
  obtain g' where g': "snake_turn gs ?key g = Some (Inr (hd (points (game_list g')) = food g, g'))" "snake_ok (sn g')"
    "game_list g' = list_turn gs ?key (game_list g)"
    using snake_turn_list [OF ok fits] by blast
  let ?ate = "hd (points (game_list g')) = food g"
  have fb: "?ate \<longrightarrow> on_board gs (food g')" using turn_food_on_board [OF g'(3)] wh by (simp add: gs(1))
  have now: "get_time (dev s3) = (us, d\<lparr>key_f := f\<rparr>)" using get_time_keys [OF clk(1)] s3(2) by simp
  have "sleep_us (sn g') \<le> 100000" using g'(2) by (intro sleep_bound) (simp add: snake_ok_def)
  then have later: "will_be (d\<lparr>key_f := f\<rparr>) (us + sleep_us (sn g'))" using clk(2) by (simp add: will_be_def)
  obtain s4 s5 s6 t where t: "(if ?ate then print_food cfg buf board (food g') s3 else Inr s3) = Inr s4"
    "refresh cfg s4 = Inr s5" "uptime_us cfg s5 = Inr (us, s6)"
    "wait_until cfg (us + sleep_us (sn g')) s6 = Some (Inr t)" "snake_machine cfg W H buf V F K R t"
    "\<forall>i < H. \<forall>j < W. screen_pixel t W i j =
      (if ?ate \<and> tile_of i j = food g' then 0x000000ff else screen_pixel s3 W i j)"
    using round_ends [OF s3(3) gs(2,3) fb [unfolded gs(1)] now later] by blast
  have "snake_round cfg buf board gs g s = Some (Inr (g', t))"
    by (simp add: snake_round_def s2(1,2) s3(1) g'(1) t(1-4))
  moreover have "round_picture ?head ?tail (if ?ate then Some (food g') else None) W H s t"
    using t(6) s3(4) s2(5) by (auto simp: round_picture_def same_picture_def)
  ultimately show ?thesis using g'(3) t(5) by blast
qed

section \<open>The first round on the native machine\<close>

lemma native_snake_machine:
  "\<exists>s. init_device native_config (native_dev_config (\<lambda>_. 0)) (system0 clk) = Inr s \<and>
     snake_machine native_config 400 300 0x80001000 0x2000 0x3000 0x79000 0x1000 s \<and>
     next_key (dev s) = 0 \<and> boot_time (dev s) = 0 \<and> host_clock (dev s) = clk \<and> clock_reads (dev s) = 0"
proof -
  obtain t where t: "init_device native_config (native_dev_config (\<lambda>_. 0)) (system0 clk) = Inr t"
    and m: "map (\<lambda>m. (map_low m, map_high m, map_space m, map_callback m)) (mmio_maps t) =
       [(SERIAL_ADDR, 0xa00003ff, 0, Some Serial_io), (RTC_ADDR, 0xa000004f, 0x1000, Some Rtc_io),
        (VGACTL_ADDR, 0xa0000107, 0x2000, None), (VMEM_ADDR, 0xa10752ff, 0x3000, None),
        (KBD_ADDR, 0xa0000063, 0x79000, Some I8042_io), (0xa0000200, 0xa0000217, 0x7a000, Some Audio_io),
        (0xa1200000, 0xa120ffff, 0x7b000, None)]"
    and b: "rtc_port_base (dev t) = Some 0x1000" "vgactl_port_base (dev t) = Some 0x2000"
      "vmem (dev t) = Some 0x3000" "i8042_data_port_base (dev t) = Some 0x79000" "key_f (dev t) = 0" "key_r (dev t) = 0"
      "boot_time (dev t) = 0" "host_clock (dev t) = clk" "clock_reads (dev t) = 0"
    and w: "load_le (hget (harr t)) (hrange (A_io, 0x2000) 4) = push_bit 16 400 OR 300"
    using native_bases [of "\<lambda>_. 0" clk] by metis
  have ok: "maps_ok (mmio_maps t)"
    using init_device_maps_ok [OF t] by (simp add: system0_def maps_ok_def)
  note reg = native_dev_region [OF ok, unfolded m]
  have "am_clock native_config t"
    using reg [of RTC_ADDR 8 "0x1000" "Some Rtc_io"] b by (simp add: am_clock_def IO_SPACE_MAX_def)
  moreover have "am_keyboard native_config t"
    using reg [of KBD_ADDR 4 "0x79000" "Some I8042_io"] b
    by (simp add: am_keyboard_def key_ok_def KEY_QUEUE_LEN_def IO_SPACE_MAX_def)
  moreover have "am_screen_at native_config t 400 300 0x2000 0x3000"
    using reg [of VGACTL_ADDR 8 "0x2000" None] reg [of VMEM_ADDR 480000 "0x3000" None] b w
    by (simp add: am_screen_at_def IO_SPACE_MAX_def)
  moreover have "word_writable native_config None (0x80001000 + 4 * of_nat i)" if "i < 64" for i
  proof -
    have u: "unat (0x80001000 + 4 * of_nat i :: u32) = 0x80001000 + 4 * i"
      using that by (simp add: unat_word_ariths unat_of_nat)
    have "4 dvd unat (0x80001000 + 4 * of_nat i :: u32)" unfolding u by simp
    moreover have "unat (0x80001000 + 4 * of_nat i - 0x80000000 :: u32) = 0x1000 + 4 * i"
      using that by (simp add: unat_word_ariths unat_of_nat)
    ultimately show ?thesis
      using that by (simp add: word_writable_def word_ptr_def readable_memory_def writable_memory_def
          guest_to_host_def in_pmem_def native_config_def word_less_nat_alt)
  qed
  moreover have "next_key (dev t) = 0"
    using b by (simp add: next_key_def key_items_def key_count_def)
  ultimately show ?thesis using t b by (auto simp: snake_machine_def)
qed

lemma snake_round_on_screen_witness:
  "\<exists>s g' t. init_device native_config (native_dev_config (\<lambda>_. 0)) (system0 (\<lambda>i. 1 + of_nat i * 100000)) = Inr s \<and>
     snake_round native_config 0x80001000 \<lparr>top = 0, bottom = 36, left = 0, right = 49\<rparr> \<lparr>width = 48, height = 35\<rparr>
       (new_game \<lparr>width = 48, height = 35\<rparr> (klib0 0)) s = Some (Inr (g', t)) \<and>
     points (game_list g') = [(25, 18), (24, 18)] \<and> screen_pixel t 400 152 200 = 0x00ff0000 \<and>
     screen_pixel t 400 8 8 = 0"
proof -
  let ?gs = "\<lparr>width = 48, height = 35\<rparr> :: dim_t" and ?b = "\<lparr>top = 0, bottom = 36, left = 0, right = 49\<rparr> :: rect_t"
  let ?clk = "\<lambda>i :: nat. 1 + of_nat i * 100000 :: u64" and ?g = "new_game \<lparr>width = 48, height = 35\<rparr> (klib0 0)"
  obtain s where s: "init_device native_config (native_dev_config (\<lambda>_. 0)) (system0 ?clk) = Inr s"
    "snake_machine native_config 400 300 0x80001000 0x2000 0x3000 0x79000 0x1000 s"
    "next_key (dev s) = 0" "boot_time (dev s) = 0" "host_clock (dev s) = ?clk" "clock_reads (dev s) = 0"
    using native_snake_machine [of ?clk] by blast
  obtain d where d: "get_time (dev s) = (100000, d)" "boot_time d = 1" "clock_reads d = 2" "host_clock d = ?clk"
    using s(4-6) by (simp add: get_time_def get_time_internal_def Let_def)
  have later: "will_be d (100000 + w)" if "w \<le> 100000" for w
    unfolding will_be_def d using that by (auto simp: word_le_nat_alt unat_word_ariths intro!: exI [of _ 2])
  have food: "create_food ?gs (klib0 0) = ((38, 18), (klib0 0)\<lparr>rand_next := 2524885223\<rparr>)"
    by (simp add: create_food_def rand_def klib0_def Let_def signed_divide_int_def signed_modulo_int_def)
  have turn: "list_turn ?gs 0 (game_list ?g) = \<lparr>points = [(25, 18), (24, 18)], lfood = (38, 18), ldir = RIGHT,
      lrandoms = (klib0 0)\<lparr>rand_next := 2524885223\<rparr>, over = False\<rparr>"
    unfolding new_game_list new_list_game_def food
    by (simp add: Let_def signed_divide_int_def list_turn_def outside_def steer_def get_dir_def key_codes)
  have ok: "snake_ok (sn ?g)" by (rule new_game_list)
  have ring: "slen (sn ?g) = 2" "food ?g = (38, 18)" "ring_at (sn ?g) 0 = (24, 18)" "ring_at (sn ?g) 1 = (24, 17)"
    "ring_at (sn ?g) 2 = (0, 0)"
    by (simp_all add: new_game_def food new_snake_def ring_at_def signed_divide_int_def)
  have on: "\<forall>i \<le> nat (slen (sn ?g)). on_board ?gs (ring_at (sn ?g) i)"
    using ring by (auto simp: le_Suc_eq numeral_2_eq_2 on_board_def)
  have b: "board_of (int 400 div 8) (int 300 div 8) = (?gs, ?b)" by (simp add: board_of_screen)
  obtain g' t where g': "snake_round native_config 0x80001000 ?b ?gs ?g s = Some (Inr (g', t))"
    "game_list g' = list_turn ?gs 0 (game_list ?g)"
    "round_picture (24, 18) (0, 0) (if hd (points (game_list g')) = food ?g then Some (food g') else None) 400 300 s t"
    using snake_round_on_screen [OF s(2) _ _ b ok on _ d(1)] later ring
    by (auto simp: s(3) turn numeral_2_eq_2)
  have "hd (points (game_list g')) \<noteq> food ?g" unfolding g'(2) turn ring by simp
  then have "screen_pixel t 400 152 200 = 0x00ff0000" "screen_pixel t 400 8 8 = 0"
    using g'(3) by (simp_all add: round_picture_def tile_of_def)
  with s(1) g'(1,2) turn show ?thesis by auto
qed

end
