(* ===== verification/Cachesim.thy ===== *)
theory Cachesim
  imports Nemu_Trace "HOL-Library.Multiset"
begin

text \<open>
  The instruction-cache simulator \<open>npc/simtools/cachesim\<close>, which replays the compressed trace of
  program counters that NEMU writes. A set-associative cache with replacement of the least
  recently used line, by a time stamp in each line; it is proved to hit exactly when the line
  is among the most recently used ones of its set.
\<close>

section \<open>cachesim.h and cachesim.cpp\<close>

record CacheLine =
  cl_valid :: bool
  cl_tag :: u32
  last_use_time :: u64

record ICache =
  c_size :: u32
  c_ways :: u32
  block_size :: u32
  num_sets :: u32
  total_access :: u64
  hit_count :: u64
  c_timer :: u64
  c_lines :: "CacheLine list list"

text \<open>A new line's tag is what the memory contained (\<open>junk\<close>).\<close>

definition init_cache :: "(nat \<Rightarrow> nat \<Rightarrow> u32) \<Rightarrow> u32 \<Rightarrow> u32 \<Rightarrow> u32 \<Rightarrow> ICache result" where
  "init_cache junk sz ways block =
     (if ways * block = 0 then Inl (Undefined ''division by zero'')
      else
        let n = sz div (ways * block) in
        Inr \<lparr>c_size = sz, c_ways = ways, block_size = block, num_sets = n, total_access = 0, hit_count = 0,
          c_timer = 0, c_lines = map (\<lambda>i. map (\<lambda>j. \<lparr>cl_valid = False, cl_tag = junk i j, last_use_time = 0\<rparr>)
            [0..<unat ways]) [0..<unat n]\<rparr>)"

fun log2_floor :: "nat \<Rightarrow> nat" where
  "log2_floor n = (if n \<le> 1 then 0 else Suc (log2_floor (n div 2)))"

declare log2_floor.simps [simp del]

text \<open>\<open>(uint32_t)(log2(n) + 0.5)\<close> for \<open>0 < n\<close>: up from \<open>log2 n \<ge> k + 1/2\<close>, that is \<open>n\<^sup>2 \<ge> 2\<^sup>2\<^sup>k\<^sup>+\<^sup>1\<close>.\<close>

definition log2_round :: "u32 \<Rightarrow> nat" where
  "log2_round n =
     (let k = log2_floor (unat n) in if 2 ^ (2 * k + 1) \<le> (unat n)\<^sup>2 then k + 1 else k)"

text \<open>The scan of a set: the way that hits, or else the way to replace.\<close>

fun find_way :: "CacheLine list \<Rightarrow> u32 \<Rightarrow> nat \<Rightarrow> u64 \<Rightarrow> nat \<Rightarrow> nat + nat" where
  "find_way [] tag w min_time lru_way = Inr lru_way"
| "find_way (l # ls) tag w min_time lru_way =
     (if cl_valid l \<and> cl_tag l = tag then Inl w
      else if last_use_time l < min_time then find_way ls tag (w + 1) (last_use_time l) w
      else find_way ls tag (w + 1) min_time lru_way)"

definition offset_bits :: "ICache \<Rightarrow> nat" where
  "offset_bits c = log2_round (block_size c)"

definition index_of :: "ICache \<Rightarrow> u32 \<Rightarrow> nat" where
  "index_of c addr = unat (drop_bit (offset_bits c) addr AND (num_sets c - 1))"

definition tag_of :: "ICache \<Rightarrow> u32 \<Rightarrow> u32" where
  "tag_of c addr = drop_bit (offset_bits c + log2_round (num_sets c)) addr"

text \<open>The logarithm of 0 has no value in \<open>uint32_t\<close>; a shift by 32 or more is undefined.\<close>

definition geometry_ok :: "ICache \<Rightarrow> bool" where
  "geometry_ok c \<longleftrightarrow> block_size c \<noteq> 0 \<and> num_sets c \<noteq> 0 \<and> offset_bits c + log2_round (num_sets c) < 32"

definition access_cache :: "u32 \<Rightarrow> ICache \<Rightarrow> ICache result" where
  "access_cache addr c =
     (if \<not> geometry_ok c then Inl (Undefined ''logarithm of zero or shift out of range'')
      else
        let c = c\<lparr>total_access := total_access c + 1, c_timer := c_timer c + 1\<rparr>;
            index = index_of c addr;
            tag = tag_of c addr;
            set = c_lines c ! index
        in case find_way set tag 0 (- 1) 0 of
             Inl w \<Rightarrow>
               Inr (c\<lparr>hit_count := hit_count c + 1,
                 c_lines := (c_lines c)[index := set[w := (set ! w)\<lparr>last_use_time := c_timer c\<rparr>]]\<rparr>)
           | Inr lru_way \<Rightarrow>
               Inr (c\<lparr>c_lines := (c_lines c)[index := set[lru_way := \<lparr>cl_valid = True, cl_tag = tag,
                 last_use_time = c_timer c\<rparr>]]\<rparr>))"

text \<open>The loop of \<open>main\<close> over the nodes of the trace file.\<close>

definition replay_node :: "u32 \<times> u32 \<Rightarrow> ICache \<Rightarrow> ICache result" where
  "replay_node = (\<lambda>(start_pc, count). foldR (\<lambda>i. access_cache (start_pc + of_nat i * 4)) [0..<unat count])"

definition replay :: "(u32 \<times> u32) list \<Rightarrow> ICache \<Rightarrow> ICache result" where
  "replay = foldR replay_node"

definition cachesim :: "(nat \<Rightarrow> nat \<Rightarrow> u32) \<Rightarrow> u32 \<Rightarrow> u32 \<Rightarrow> u32 \<Rightarrow> (u32 \<times> u32) list \<Rightarrow> ICache result" where
  "cachesim junk s w b nodes = bindR (init_cache junk s w b) (replay nodes)"

section \<open>The reference: most recently used tags\<close>

definition recent :: "'a list \<Rightarrow> 'a list" where
  "recent xs = rev (remdups xs)"

definition lru_push :: "nat \<Rightarrow> 'a \<Rightarrow> 'a list \<Rightarrow> 'a list" where
  "lru_push n x stk = take n (x # filter (\<lambda>y. y \<noteq> x) stk)"

lemma remdups_snoc: "remdups (xs @ [x]) = filter (\<lambda>y. y \<noteq> x) (remdups xs) @ [x]"
  by (induction xs) auto

lemma recent_snoc: "recent (xs @ [x]) = x # filter (\<lambda>y. y \<noteq> x) (recent xs)"
  by (simp add: recent_def remdups_snoc rev_filter [symmetric])

lemma distinct_recent [simp]: "distinct (recent xs)"
  by (simp add: recent_def)

lemma take_filter_take:
  "distinct zs \<Longrightarrow> take n (filter (\<lambda>y. y \<noteq> x) (take (Suc n) zs)) = take n (filter (\<lambda>y. y \<noteq> x) zs)"
proof (induction zs arbitrary: n)
  case (Cons z zs)
  show ?case
  proof (cases "z = x")
    case True
    with Cons.prems have "filter (\<lambda>y. y \<noteq> x) zs = zs" "filter (\<lambda>y. y \<noteq> x) (take n zs) = take n zs"
      by (auto simp: filter_id_conv dest: in_set_takeD)
    with True show ?thesis by simp
  next
    case False
    with Cons show ?thesis by (cases n) auto
  qed
qed simp

text \<open>Keeping \<open>n\<close> tags is enough: the stack is a prefix of the unbounded one.\<close>

lemma lru_push_recent: "0 < n \<Longrightarrow> lru_push n x (take n (recent xs)) = take n (recent (xs @ [x]))"
  by (cases n) (simp_all add: lru_push_def recent_snoc take_filter_take)

text \<open>The number of hits of an ideal cache of \<open>n\<close> ways, for addresses with set \<open>idx\<close> and tag \<open>tg\<close>.\<close>

definition lru_hit :: "nat \<Rightarrow> ('a \<Rightarrow> 'i) \<Rightarrow> ('a \<Rightarrow> 't) \<Rightarrow> 'a list \<Rightarrow> 'a \<Rightarrow> bool" where
  "lru_hit n idx tg as a \<longleftrightarrow>
     tg a \<in> set (take n (recent (map tg (filter (\<lambda>b. idx b = idx a) as))))"

definition lru_hits :: "nat \<Rightarrow> ('a \<Rightarrow> 'i) \<Rightarrow> ('a \<Rightarrow> 't) \<Rightarrow> 'a list \<Rightarrow> nat" where
  "lru_hits n idx tg as = length (filter (\<lambda>k. lru_hit n idx tg (take k as) (as ! k)) [0..<length as])"

lemma lru_hits_snoc:
  "lru_hits n idx tg (as @ [a]) = lru_hits n idx tg as + (if lru_hit n idx tg as a then 1 else 0)"
proof -
  have "filter (\<lambda>k. lru_hit n idx tg (take k (as @ [a])) ((as @ [a]) ! k)) [0..<length as] =
      filter (\<lambda>k. lru_hit n idx tg (take k as) (as ! k)) [0..<length as]"
    by (rule filter_cong) (auto simp: nth_append)
  then show ?thesis by (simp add: lru_hits_def)
qed

lemma lru_hits_le: "lru_hits n idx tg as \<le> length as"
  unfolding lru_hits_def by (rule order_trans [OF length_filter_le]) simp

lemma length_filter_mono: "(\<And>x. x \<in> set xs \<Longrightarrow> P x \<Longrightarrow> Q x) \<Longrightarrow> length (filter P xs) \<le> length (filter Q xs)"
  by (induction xs) (auto simp: le_SucI)

text \<open>The stack of a smaller cache is a prefix of that of a larger one.\<close>

lemma lru_hits_mono:
  assumes "n \<le> n'"
  shows "lru_hits n idx tg as \<le> lru_hits n' idx tg as"
  unfolding lru_hits_def lru_hit_def
  by (rule length_filter_mono) (erule subsetD [OF set_take_subset_set_take [OF assms]])

section \<open>The scan\<close>

lemma find_way_hit:
  assumes "l \<in> set ls" "cl_valid l" "cl_tag l = t"
  shows "\<exists>i < length ls. find_way ls t w mn r = Inl (w + i) \<and> cl_valid (ls ! i) \<and> cl_tag (ls ! i) = t"
  using assms(1)
proof (induction ls arbitrary: w mn r)
  case (Cons k ls)
  show ?case
  proof (cases "cl_valid k \<and> cl_tag k = t")
    case True
    then show ?thesis by (intro exI [of _ 0]) simp
  next
    case False
    with Cons.prems assms(2,3) have "l \<in> set ls" by auto
    define mn' where "mn' = (if last_use_time k < mn then last_use_time k else mn)"
    define r' where "r' = (if last_use_time k < mn then w else r)"
    have "find_way (k # ls) t w mn r = find_way ls t (Suc w) mn' r'"
      using False by (auto simp: mn'_def r'_def)
    moreover obtain i where "i < length ls" "find_way ls t (Suc w) mn' r' = Inl (Suc w + i)"
      "cl_valid (ls ! i)" "cl_tag (ls ! i) = t" using Cons.IH [OF \<open>l \<in> set ls\<close>] by blast
    ultimately show ?thesis by (intro exI [of _ "Suc i"]) simp
  qed
qed simp

lemma find_way_miss:
  assumes "\<forall>l \<in> set ls. \<not> (cl_valid l \<and> cl_tag l = t)"
  shows "(\<forall>l \<in> set ls. mn \<le> last_use_time l) \<and> find_way ls t w mn r = Inr r \<or>
    (\<exists>i < length ls. find_way ls t w mn r = Inr (w + i) \<and> last_use_time (ls ! i) < mn \<and>
      (\<forall>l \<in> set ls. last_use_time (ls ! i) \<le> last_use_time l))"
  using assms
proof (induction ls arbitrary: w mn r)
  case (Cons k ls)
  define mn' where "mn' = min (last_use_time k) mn"
  define r' where "r' = (if last_use_time k < mn then w else r)"
  have f: "find_way (k # ls) t w mn r = find_way ls t (Suc w) mn' r'"
    using Cons.prems by (auto simp: mn'_def r'_def min_def)
  have "\<forall>l \<in> set ls. \<not> (cl_valid l \<and> cl_tag l = t)" using Cons.prems by simp
  from Cons.IH [OF this, of mn' "Suc w" r'] show ?case
  proof (elim disjE conjE exE)
    assume a: "\<forall>l \<in> set ls. mn' \<le> last_use_time l" "find_way ls t (Suc w) mn' r' = Inr r'"
    show ?thesis
    proof (cases "last_use_time k < mn")
      case True
      with a f show ?thesis by (intro disjI2 exI [of _ 0]) (auto simp: mn'_def r'_def)
    next
      case False
      then have "mn' = mn" "r' = r" by (simp_all add: mn'_def r'_def)
      with a f False show ?thesis by (intro disjI1) auto
    qed
  next
    fix i assume a: "i < length ls" "find_way ls t (Suc w) mn' r' = Inr (Suc w + i)"
      "last_use_time (ls ! i) < mn'" "\<forall>l \<in> set ls. last_use_time (ls ! i) \<le> last_use_time l"
    then show ?thesis
      using f by (intro disjI2 exI [of _ "Suc i"]) (auto simp: mn'_def min_def split: if_splits)
  qed
qed simp

section \<open>A set follows the stack of recent tags\<close>

text \<open>
  The valid lines of a set in the order of their last use, latest first, have the tags \<open>stk\<close>;
  stamps of valid lines are positive and at most \<open>T\<close>.
\<close>

definition lru_rel :: "CacheLine list \<Rightarrow> u32 list \<Rightarrow> u64 \<Rightarrow> bool" where
  "lru_rel ls stk T \<longleftrightarrow> (\<exists>vs. mset vs = mset (filter cl_valid ls) \<and>
     sorted_wrt (\<lambda>a b. last_use_time b < last_use_time a) vs \<and> map cl_tag vs = stk \<and> distinct stk) \<and>
     (\<forall>l \<in> set ls. last_use_time l \<le> T \<and> (cl_valid l \<longleftrightarrow> 0 < last_use_time l))"

lemma lru_rel_mono: "lru_rel ls stk T \<Longrightarrow> T \<le> T' \<Longrightarrow> lru_rel ls stk T'"
  by (auto simp: lru_rel_def intro: order_trans)

lemma mset_filter_update:
  assumes "i < length ls" "cl_valid x"
  shows "mset (filter cl_valid (ls[i := x])) =
    add_mset x (mset (filter cl_valid ls) - (if cl_valid (ls ! i) then {#ls ! i#} else {#}))"
  using assms by (simp add: mset_update)

text \<open>A line that becomes the latest one goes to the front of the order.\<close>

lemma lru_replace:
  assumes vs: "mset vs = mset (filter cl_valid ls)" "sorted_wrt (\<lambda>a b. last_use_time b < last_use_time a) vs"
      "distinct (map cl_tag vs)"
    and ls: "\<forall>l \<in> set ls. last_use_time l \<le> T \<and> (cl_valid l \<longleftrightarrow> 0 < last_use_time l)"
    and i: "i < length ls" and x: "cl_valid x" "last_use_time x = T'" and T: "T < T'"
    and new: "cl_tag x \<notin> cl_tag ` set (filter (\<lambda>v. v \<noteq> ls ! i) vs)"
  shows "lru_rel (ls[i := x]) (cl_tag x # map cl_tag (filter (\<lambda>v. v \<noteq> ls ! i) vs)) T'"
proof -
  let ?o = "filter (\<lambda>v. v \<noteq> ls ! i) vs"
  have set_vs: "set vs = set (filter cl_valid ls)" using vs(1) by (rule mset_eq_setD)
  have d: "distinct vs" using vs(3) by (simp add: distinct_map)
  have o: "?o = remove1 (ls ! i) vs"
    using d by (simp add: distinct_remove1_removeAll removeAll_filter_not_eq eq_commute)
  have "mset (x # ?o) = mset (filter cl_valid (ls[i := x]))"
  proof (cases "cl_valid (ls ! i)")
    case True
    then show ?thesis unfolding mset_filter_update [where x = x, OF i x(1)] o using vs(1) by simp
  next
    case False
    then have "ls ! i \<notin> set vs" unfolding set_vs by simp
    then have "remove1 (ls ! i) vs = vs" by (rule remove1_idem)
    with False show ?thesis unfolding mset_filter_update [where x = x, OF i x(1)] o using vs(1) by simp
  qed
  note ms = this
  have "last_use_time v < T'" if "v \<in> set ?o" for v
    using that set_vs ls T by (auto intro: order_le_less_trans)
  then have so: "sorted_wrt (\<lambda>a b. last_use_time b < last_use_time a) (x # ?o)"
    using vs(2) x(2) by (simp add: sorted_wrt_filter)
  have "distinct (map cl_tag ?o)" using vs(3) by (auto simp: distinct_map intro: inj_on_subset)
  then have di: "distinct (cl_tag x # map cl_tag ?o)" using new by simp
  have "0 < T'" using T by (rule order_le_less_trans [OF word_zero_le])
  have "last_use_time l \<le> T' \<and> (cl_valid l \<longleftrightarrow> 0 < last_use_time l)" if "l \<in> set (ls[i := x])" for l
  proof (cases "l = x")
    case True
    with x \<open>0 < T'\<close> show ?thesis by simp
  next
    case False
    then have "l \<in> set ls" using that set_update_subset_insert [of ls i x] by auto
    with ls have "last_use_time l \<le> T" "cl_valid l \<longleftrightarrow> 0 < last_use_time l" by blast+
    with T show ?thesis using order_trans [OF _ less_imp_le [OF T]] by blast
  qed
  then have "\<forall>l \<in> set (ls[i := x]). last_use_time l \<le> T' \<and> (cl_valid l \<longleftrightarrow> 0 < last_use_time l)" by blast
  with ms so di show ?thesis
    unfolding lru_rel_def by (intro conjI exI [of _ "x # ?o"]) simp_all
qed

lemma lru_step:
  assumes rel: "lru_rel ls stk T" and T: "T < T'" "T < - 1" and n: "length ls = n" "0 < n"
  shows "case find_way ls t 0 (- 1) 0 of
      Inl w \<Rightarrow> w < n \<and> t \<in> set stk \<and> lru_rel (ls[w := (ls ! w)\<lparr>last_use_time := T'\<rparr>]) (lru_push n t stk) T'
    | Inr w \<Rightarrow> w < n \<and> t \<notin> set stk \<and>
        lru_rel (ls[w := \<lparr>cl_valid = True, cl_tag = t, last_use_time = T'\<rparr>]) (lru_push n t stk) T'"
proof -
  obtain vs where vs: "mset vs = mset (filter cl_valid ls)"
    "sorted_wrt (\<lambda>a b. last_use_time b < last_use_time a) vs" "map cl_tag vs = stk" "distinct stk"
    and ls: "\<forall>l \<in> set ls. last_use_time l \<le> T \<and> (cl_valid l \<longleftrightarrow> 0 < last_use_time l)"
    using rel by (auto simp: lru_rel_def)
  have dt: "distinct (map cl_tag vs)" using vs(3,4) by simp
  then have dv: "distinct vs" by (simp add: distinct_map)
  have set_vs: "set vs = set (filter cl_valid ls)" using vs(1) by (rule mset_eq_setD)
  have len: "length vs = length (filter cl_valid ls)" using vs(1) by (rule mset_eq_length)
  then have len_n: "length vs \<le> n" using n(1) by (simp add: order_trans [OF length_filter_le])
  show ?thesis
  proof (cases "\<exists>l \<in> set ls. cl_valid l \<and> cl_tag l = t")
    case True
    then obtain l where "l \<in> set ls" "cl_valid l" "cl_tag l = t" by blast
    from find_way_hit [OF this, of 0 "- 1" 0] obtain i where
      i: "i < n" "find_way ls t 0 (- 1) 0 = Inl i" "cl_valid (ls ! i)" "cl_tag (ls ! i) = t" using n(1) by auto
    have m: "ls ! i \<in> set vs" using i(1,3) n(1) unfolding set_vs by simp
    have o: "map cl_tag (filter (\<lambda>v. v \<noteq> ls ! i) vs) = filter (\<lambda>y. y \<noteq> t) stk"
    proof -
      have "filter (\<lambda>v. v \<noteq> ls ! i) vs = filter (\<lambda>v. cl_tag v \<noteq> t) vs"
        by (rule filter_cong) (use dt m i(4) in \<open>auto simp: distinct_map inj_on_def\<close>)
      then show ?thesis by (simp add: vs(3) [symmetric] filter_map comp_def)
    qed
    have "t \<notin> set (map cl_tag (filter (\<lambda>v. v \<noteq> ls ! i) vs))" unfolding o by simp
    then have new: "t \<notin> cl_tag ` set (filter (\<lambda>v. v \<noteq> ls ! i) vs)" by simp
    have "t \<in> set stk" using m i(4) vs(3) by (auto simp: image_iff)
    then have "length (filter (\<lambda>y. y \<noteq> t) stk) < length stk" by (intro length_filter_less [of t]) auto
    then have "lru_push n t stk = t # filter (\<lambda>y. y \<noteq> t) stk"
      using len_n vs(3) by (auto simp: lru_push_def)
    moreover have "lru_rel (ls[i := (ls ! i)\<lparr>last_use_time := T'\<rparr>])
        (cl_tag ((ls ! i)\<lparr>last_use_time := T'\<rparr>) # map cl_tag (filter (\<lambda>v. v \<noteq> ls ! i) vs)) T'"
      by (rule lru_replace [OF vs(1,2) dt ls]) (use i n(1) T new in simp_all)
    ultimately show ?thesis using i \<open>t \<in> set stk\<close> by (simp add: o)
  next
    case False
    then have nt: "t \<notin> set stk" unfolding vs(3) [symmetric] using set_vs by auto
    have "last_use_time l < - 1" if "l \<in> set ls" for l using ls that T(2) by (auto intro: order_le_less_trans)
    then have "\<not> (\<forall>l \<in> set ls. - 1 \<le> last_use_time l)" using n by (metis length_greater_0_conv not_less nth_mem)
    then obtain i where i: "i < n" "find_way ls t 0 (- 1) 0 = Inr i"
      "\<forall>l \<in> set ls. last_use_time (ls ! i) \<le> last_use_time l"
      using find_way_miss [of ls t "- 1" 0 0] False n(1) by auto
    let ?x = "\<lparr>cl_valid = True, cl_tag = t, last_use_time = T'\<rparr>"
    have "lru_rel (ls[i := ?x]) (cl_tag ?x # map cl_tag (filter (\<lambda>v. v \<noteq> ls ! i) vs)) T'"
      by (rule lru_replace [OF vs(1,2) dt ls]) (use i n(1) T nt vs(3) in auto)
    moreover have "lru_push n t stk = t # map cl_tag (filter (\<lambda>v. v \<noteq> ls ! i) vs)"
    proof (cases "cl_valid (ls ! i)")
      case False
      then have "length (filter cl_valid ls) < length ls" using i(1) n(1) by (intro length_filter_less [of "ls ! i"]) auto
      moreover have "filter (\<lambda>v. v \<noteq> ls ! i) vs = vs" using False set_vs by (auto simp: filter_id_conv)
      moreover have "filter (\<lambda>y. y \<noteq> t) stk = stk" using nt by (auto simp: filter_id_conv)
      ultimately show ?thesis using len n(1) vs(3) by (auto simp: lru_push_def)
    next
      case True
      then have "0 < last_use_time (ls ! i)" using ls i(1) n(1) by auto
      then have all: "\<forall>l \<in> set ls. cl_valid l" using ls i(3) by (auto intro: order_less_le_trans)
      then have ln: "length vs = n" using len n(1) by (simp add: filter_True)
      then obtain us u where u: "vs = us @ [u]" using n(2) by (cases vs rule: rev_cases) auto
      have "u \<in> set ls" "ls ! i \<in> set vs" using u set_vs all i(1) n(1) by auto
      moreover have "last_use_time u < last_use_time x" if "x \<in> set us" for x
        using vs(2) that unfolding u by (simp add: sorted_wrt_append)
      ultimately have "ls ! i \<notin> set us" using i(3) by (meson leD)
      with \<open>ls ! i \<in> set vs\<close> have "ls ! i = u" using u by simp
      then have "filter (\<lambda>v. v \<noteq> ls ! i) vs = us"
        using dv unfolding u by (auto simp: filter_id_conv)
      moreover have "filter (\<lambda>y. y \<noteq> t) stk = stk" using nt by (auto simp: filter_id_conv)
      moreover have "stk = map cl_tag us @ [cl_tag u]" using vs(3) u by simp
      ultimately show ?thesis using ln u n(2) by (cases n) (auto simp: lru_push_def)
    qed
    ultimately show ?thesis using i nt by simp
  qed
qed

section \<open>The whole cache\<close>

text \<open>The cache \<open>c\<close> after the accesses \<open>as\<close> to the empty cache \<open>c0\<close>.\<close>

definition cache_inv :: "ICache \<Rightarrow> u32 list \<Rightarrow> ICache \<Rightarrow> bool" where
  "cache_inv c0 as c \<longleftrightarrow>
     block_size c = block_size c0 \<and> num_sets c = num_sets c0 \<and> c_ways c = c_ways c0 \<and>
     total_access c = of_nat (length as) \<and> c_timer c = of_nat (length as) \<and>
     hit_count c = of_nat (lru_hits (unat (c_ways c0)) (index_of c0) (tag_of c0) as) \<and>
     length (c_lines c) = unat (num_sets c0) \<and>
     (\<forall>i < unat (num_sets c0). length (c_lines c ! i) = unat (c_ways c0) \<and>
        lru_rel (c_lines c ! i) (take (unat (c_ways c0))
          (recent (map (tag_of c0) (filter (\<lambda>b. index_of c0 b = i) as)))) (of_nat (length as)))"

lemma index_bound: "num_sets c \<noteq> 0 \<Longrightarrow> index_of c addr < unat (num_sets c)"
proof -
  assume n: "num_sets c \<noteq> 0"
  have "drop_bit (offset_bits c) addr AND (num_sets c - 1) \<le> num_sets c - 1" by (rule word_and_le1)
  then have "unat (drop_bit (offset_bits c) addr AND (num_sets c - 1)) \<le> unat (num_sets c - 1)"
    by (simp add: word_le_nat_alt)
  moreover have "unat (num_sets c - 1) = unat (num_sets c) - 1"
    using n by (subst unat_sub) (auto simp: word_le_nat_alt Suc_le_eq unat_gt_0)
  moreover have "0 < unat (num_sets c)" using n by (simp add: unat_gt_0)
  ultimately show ?thesis by (simp add: index_of_def)
qed

lemma cache_inv_init:
  assumes "init_cache junk sz w b = Inr c"
  shows "cache_inv c [] c" "c_ways c = w" "block_size c = b" "num_sets c = sz div (w * b)" "0 < unat w"
proof -
  have w: "w \<noteq> 0" using assms by (auto simp: init_cache_def split: if_splits)
  then show "0 < unat w" by (simp add: unat_gt_0)
  let ?ls = "\<lambda>i. map (\<lambda>j. \<lparr>cl_valid = False, cl_tag = junk i j, last_use_time = 0\<rparr>) [0..<unat w]"
  have c: "c = \<lparr>c_size = sz, c_ways = w, block_size = b, num_sets = sz div (w * b), total_access = 0,
      hit_count = 0, c_timer = 0, c_lines = map ?ls [0..<unat (sz div (w * b))]\<rparr>"
    using assms by (auto simp: init_cache_def Let_def split: if_splits)
  show "c_ways c = w" "block_size c = b" "num_sets c = sz div (w * b)" by (simp_all add: c)
  have "lru_rel (?ls i) [] 0" for i by (auto simp: lru_rel_def comp_def)
  then show "cache_inv c [] c" by (simp add: cache_inv_def c recent_def lru_hits_def)
qed

lemma access_step:
  assumes inv: "cache_inv c0 as c" and g: "geometry_ok c0" and w: "0 < unat (c_ways c0)"
    and n: "length as < 2 ^ 64 - 1"
  shows "\<exists>c'. access_cache a c = Inr c' \<and> cache_inv c0 (as @ [a]) c'"
proof -
  let ?W = "unat (c_ways c0)" and ?idx = "index_of c0" and ?tg = "tag_of c0" and ?T = "of_nat (length as) :: u64"
  let ?i = "?idx a" and ?t = "?tg a" and ?T' = "c_timer c + 1"
  let ?stk = "\<lambda>as i. take ?W (recent (map ?tg (filter (\<lambda>b. ?idx b = i) as)))"
  define c1 where "c1 = c\<lparr>total_access := total_access c + 1, c_timer := ?T'\<rparr>"
  have eq: "block_size c1 = block_size c0" "num_sets c1 = num_sets c0" "c_lines c1 = c_lines c" "c_timer c1 = ?T'"
    "hit_count c1 = hit_count c"
    using inv by (simp_all add: c1_def cache_inv_def)
  have geo: "geometry_ok c" "index_of c1 a = ?i" "tag_of c1 a = ?t"
    using g inv eq by (simp_all add: geometry_ok_def cache_inv_def offset_bits_def index_of_def tag_of_def)
  have timer: "c_timer c = ?T" using inv by (simp add: cache_inv_def)
  have uT: "unat ?T = length as" using n by (simp add: unat_of_nat)
  have T': "?T' = of_nat (length (as @ [a]))" by (simp add: timer)
  have uT': "unat ?T' = Suc (length as)" unfolding T' by (subst unat_of_nat) (use n in simp)
  have T: "?T < ?T'" "?T < - 1" unfolding word_less_nat_alt uT uT' by (use n in \<open>simp_all add: unsigned_minus_1_eq_mask mask_eq_exp_minus_1\<close>)
  have i: "?i < unat (num_sets c0)" using g index_bound by (simp add: geometry_ok_def)
  have len: "length (c_lines c) = unat (num_sets c0)" using inv by (simp add: cache_inv_def)
  have set_i: "length (c_lines c ! j) = ?W" "lru_rel (c_lines c ! j) (?stk as j) ?T"
    if "j < unat (num_sets c0)" for j using inv that by (simp_all add: cache_inv_def)
  have push: "lru_push ?W ?t (?stk as ?i) = ?stk (as @ [a]) ?i"
    using lru_push_recent [OF w, of ?t "map ?tg (filter (\<lambda>b. ?idx b = ?i) as)"] by simp
  have hit: "?t \<in> set (?stk as ?i) \<longleftrightarrow> lru_hit ?W ?idx ?tg as a" by (simp add: lru_hit_def)
  let ?ls = "c_lines c ! ?i"
  note st = lru_step [OF set_i(2) [OF i] T set_i(1) [OF i] w, of ?t, unfolded push hit]
  have inv': "cache_inv c0 (as @ [a]) (c1\<lparr>hit_count := hit_count c + (if lru_hit ?W ?idx ?tg as a then 1 else 0),
      c_lines := (c_lines c)[?i := ls]\<rparr>)"
    if ls: "length ls = ?W" "lru_rel ls (?stk (as @ [a]) ?i) ?T'" for ls
  proof -
    have "lru_rel ((c_lines c)[?i := ls] ! j) (?stk (as @ [a]) j) ?T'" if j: "j < unat (num_sets c0)" for j
    proof (cases "j = ?i")
      case True
      with ls(2) i len show ?thesis by simp
    next
      case False
      then have "?stk (as @ [a]) j = ?stk as j" by simp
      moreover have "lru_rel (c_lines c ! j) (?stk as j) ?T'"
        by (rule lru_rel_mono [OF set_i(2) [OF j] less_imp_le [OF T(1)]])
      ultimately show ?thesis using False by simp
    qed
    moreover have "length ((c_lines c)[?i := ls] ! j) = ?W" if "j < unat (num_sets c0)" for j
      using that ls(1) set_i(1) len i by (cases "j = ?i") auto
    ultimately show ?thesis
      using inv len unfolding cache_inv_def T'
      by (simp add: c1_def lru_hits_snoc timer)
  qed
  show ?thesis
  proof (cases "find_way ?ls ?t 0 (- 1) 0")
    case (Inl w)
    have run: "access_cache a c = Inr (c1\<lparr>hit_count := hit_count c + 1,
        c_lines := (c_lines c)[?i := ?ls[w := (?ls ! w)\<lparr>last_use_time := ?T'\<rparr>]]\<rparr>)"
      using geo Inl unfolding access_cache_def c1_def [symmetric] Let_def by (simp add: eq)
    have "lru_hit ?W ?idx ?tg as a" "lru_rel (?ls[w := (?ls ! w)\<lparr>last_use_time := ?T'\<rparr>]) (?stk (as @ [a]) ?i) ?T'"
      using st unfolding Inl by simp_all
    with inv' [of "?ls[w := (?ls ! w)\<lparr>last_use_time := ?T'\<rparr>]"] set_i(1) [OF i] run show ?thesis by simp
  next
    case (Inr w)
    let ?x = "\<lparr>cl_valid = True, cl_tag = ?t, last_use_time = ?T'\<rparr>"
    have run: "access_cache a c = Inr (c1\<lparr>c_lines := (c_lines c)[?i := ?ls[w := ?x]]\<rparr>)"
      using geo Inr unfolding access_cache_def c1_def [symmetric] Let_def by (simp add: eq)
    have "\<not> lru_hit ?W ?idx ?tg as a" "lru_rel (?ls[w := ?x]) (?stk (as @ [a]) ?i) ?T'"
      using st unfolding Inr by simp_all
    moreover have "c1\<lparr>hit_count := hit_count c + 0\<rparr> = c1" using eq(5) by (simp add: c1_def)
    ultimately have "cache_inv c0 (as @ [a]) (c1\<lparr>c_lines := (c_lines c)[?i := ?ls[w := ?x]]\<rparr>)"
      using inv' [of "?ls[w := ?x]"] set_i(1) [OF i] by (simp del: add_0_right)
    with run show ?thesis by blast
  qed
qed

lemma access_all:
  assumes "cache_inv c0 as c" "geometry_ok c0" "0 < unat (c_ways c0)" "length as + length bs < 2 ^ 64"
  shows "\<exists>c'. foldR access_cache bs c = Inr c' \<and> cache_inv c0 (as @ bs) c'"
  using assms(1,4)
proof (induction bs arbitrary: as c)
  case (Cons a bs)
  obtain c1 where c1: "access_cache a c = Inr c1" "cache_inv c0 (as @ [a]) c1"
    using access_step [OF Cons.prems(1) assms(2,3)] Cons.prems(2) by auto
  with Cons.IH [OF c1(2)] Cons.prems(2) show ?case by auto
qed simp

lemma replay_expand: "replay ns c = foldR access_cache (expand_nodes ns) c"
proof -
  have "replay_node = (\<lambda>x. foldR access_cache ((\<lambda>(s, c). map (\<lambda>k. s + 4 * of_nat k) [0..<unat c]) x))"
    by (rule ext)+ (simp add: replay_node_def split_beta foldR_over_map mult.commute)
  then show ?thesis by (simp add: replay_def expand_nodes_def foldR_concat foldR_over_map)
qed

section \<open>Properties\<close>

text \<open>C24: Replaying the trace file that NEMU wrote for a run, the simulator counts every instruction
  of the run once, and as hits exactly those whose line is, at that moment, among the last
  \<open>ways\<close> different lines used in its set, whatever the memory of the new lines contained.\<close>

theorem cachesim_counts_lru_hits:
  assumes init: "init_cache junk s w b = Inr c" and g: "geometry_ok c"
    and run: "length pcs < 2 ^ 32" "cur_count t = 0"
  shows "\<exists>ns t' c'. finalize_itrace_bin (fold itrace_bin_record pcs (init_itrace_bin t)) = (Some ns, t') \<and>
    cachesim junk s w b ns = Inr c' \<and> total_access c' = of_nat (length pcs) \<and>
    unat (hit_count c') = lru_hits (unat w) (index_of c) (tag_of c) pcs"
proof -
  obtain ns t' where ns: "finalize_itrace_bin (fold itrace_bin_record pcs (init_itrace_bin t)) = (Some ns, t')"
    "expand_nodes ns = pcs" using itrace_bin_roundtrip [OF run] by blast
  note i = cache_inv_init [OF init]
  obtain c' where c': "foldR access_cache pcs c = Inr c'" "cache_inv c pcs c'"
    using access_all [OF i(1) g, of pcs] i(2,5) run(1) by auto
  have "cachesim junk s w b ns = Inr c'"
    using c'(1) by (simp add: cachesim_def init replay_expand ns(2))
  moreover have "lru_hits (unat w) (index_of c) (tag_of c) pcs < 2 ^ 64"
    using lru_hits_le [of "unat w" "index_of c" "tag_of c" pcs] run(1) by simp
  then have "unat (hit_count c') = lru_hits (unat w) (index_of c) (tag_of c) pcs"
    using c'(2) i(2) unfolding cache_inv_def by (simp add: unat_of_nat)
  ultimately show ?thesis using ns(1) c'(2) unfolding cache_inv_def by blast
qed

text \<open>With powers of two, the set and the tag of an address together are its block number, so that
  the reference counts uses of memory blocks.\<close>

definition pow2_geometry :: "ICache \<Rightarrow> nat \<Rightarrow> nat \<Rightarrow> bool" where
  "pow2_geometry c k m \<longleftrightarrow> unat (block_size c) = 2 ^ k \<and> unat (num_sets c) = 2 ^ m \<and> k + m < 32"

lemma log2_floor_pow2: "log2_floor (2 ^ k) = k"
proof (induction k)
  case (Suc k)
  have "(1 :: nat) < 2 ^ Suc k" by (rule one_less_power) simp_all
  then have "\<not> (2 :: nat) ^ Suc k \<le> 1" "(2 :: nat) ^ Suc k div 2 = 2 ^ k" by (simp_all only: not_le) simp
  with Suc show ?case by (subst log2_floor.simps) simp
qed (simp add: log2_floor.simps)

lemma log2_round_pow2: "unat n = 2 ^ k \<Longrightarrow> log2_round n = k"
proof -
  assume n: "unat n = 2 ^ k"
  have "(2 :: nat) ^ (2 * k + 1) = 2 * (2 ^ k)\<^sup>2" "0 < (2 :: nat) ^ k" by (simp_all add: power_mult [symmetric] mult.commute)
  then have "\<not> (2 :: nat) ^ (2 * k + 1) \<le> (2 ^ k)\<^sup>2" by (simp add: not_le)
  then show ?thesis by (simp add: log2_round_def n log2_floor_pow2 Let_def del: power_Suc)
qed

text \<open>In a cache whose block size and number of sets are powers of two, two addresses meet in
  one line exactly when they are in the same block of memory.\<close>

lemma cache_lines_are_blocks:
  assumes "pow2_geometry c k m"
  shows "index_of c x = index_of c y \<and> tag_of c x = tag_of c y \<longleftrightarrow>
    unat x div unat (block_size c) = unat y div unat (block_size c)"
proof -
  have g: "unat (block_size c) = 2 ^ k" "unat (num_sets c) = 2 ^ m" using assms by (simp_all add: pow2_geometry_def)
  have "num_sets c = of_nat (unat (num_sets c))" by simp
  then have n: "num_sets c - 1 = mask m" unfolding g(2) by (simp add: mask_eq_exp_minus_1)
  have o: "offset_bits c = k" "log2_round (num_sets c) = m" using g by (simp_all add: offset_bits_def log2_round_pow2)
  let ?b = "\<lambda>x. drop_bit k x"
  have i: "index_of c z = unat (take_bit m (?b z))" "tag_of c z = drop_bit m (?b z)" for z
    by (simp_all add: index_of_def tag_of_def o n take_bit_eq_mask add.commute)
  have "(take_bit m (?b x) = take_bit m (?b y) \<and> drop_bit m (?b x) = drop_bit m (?b y)) \<longleftrightarrow> ?b x = ?b y"
    using bits_ident [of m "?b x"] bits_ident [of m "?b y"] by metis
  also have "\<dots> \<longleftrightarrow> unat x div 2 ^ k = unat y div 2 ^ k"
    by (simp only: word_unat_eq_iff unat_drop_bit_eq) (simp only: drop_bit_eq_div)
  finally show ?thesis by (simp add: i g(1) word_unat_eq_iff)
qed

text \<open>With the same sets and blocks, a cache of more ways never has fewer hits on the same run.\<close>

lemma more_ways_more_hits:
  assumes c: "init_cache junk s w b = Inr c" "geometry_ok c" and d: "init_cache junk' s' w' b = Inr d"
    and sets: "num_sets d = num_sets c" and ways: "w \<le> w'" and n: "length pcs < 2 ^ 64"
  shows "\<exists>c' d'. foldR access_cache pcs c = Inr c' \<and> foldR access_cache pcs d = Inr d' \<and>
    hit_count c' \<le> hit_count d'"
proof -
  note ic = cache_inv_init [OF c(1)] and id = cache_inv_init [OF d]
  have gd: "geometry_ok d" using c(2) ic(3) id(3) sets by (simp add: geometry_ok_def offset_bits_def)
  have same: "index_of d = index_of c" "tag_of d = tag_of c"
    using ic(3) id(3) sets by (simp_all add: fun_eq_iff index_of_def tag_of_def offset_bits_def)
  obtain c' where c': "foldR access_cache pcs c = Inr c'" "cache_inv c pcs c'"
    using access_all [OF ic(1) c(2), of pcs] ic(2,5) n by auto
  obtain d' where d': "foldR access_cache pcs d = Inr d'" "cache_inv d pcs d'"
    using access_all [OF id(1) gd, of pcs] id(2,5) n by auto
  let ?h = "\<lambda>w. lru_hits (unat w) (index_of c) (tag_of c) pcs"
  have "unat w \<le> unat w'" using ways by (simp add: word_le_nat_alt)
  then have "?h w \<le> ?h w'" by (rule lru_hits_mono)
  moreover have "?h w < 2 ^ 64" "?h w' < 2 ^ 64"
    by (rule order_le_less_trans [OF lru_hits_le n])+
  ultimately have "hit_count c' \<le> hit_count d'"
    using c'(2) d'(2) ic(2) id(2) unfolding cache_inv_def same by (simp add: word_le_nat_alt unat_of_nat)
  with c'(1) d'(1) show ?thesis by blast
qed

section \<open>A small cache\<close>

text \<open>128 bytes in two ways of 16-byte blocks: four sets.\<close>

lemma small_cache:
  assumes "init_cache junk 128 2 16 = Inr c"
  shows "pow2_geometry c 4 2" "geometry_ok c" "index_of c a = unat (drop_bit 4 a AND 3)" "tag_of c a = drop_bit 6 a"
proof -
  have f: "block_size c = 16" "num_sets c = 4" using cache_inv_init(3,4) [OF assms] by simp_all
  have l: "log2_round 16 = 4" "log2_round 4 = 2" by (rule log2_round_pow2; simp)+
  show "pow2_geometry c 4 2" by (simp add: pow2_geometry_def f)
  show "geometry_ok c" by (simp add: geometry_ok_def offset_bits_def f l)
  show "index_of c a = unat (drop_bit 4 a AND 3)" "tag_of c a = drop_bit 6 a"
    by (simp_all add: index_of_def tag_of_def offset_bits_def f l)
qed

definition jumpy_run :: "u32 list" where
  "jumpy_run = [0x80000000, 0x80000004, 0x80000040, 0x80000000, 0x80000080, 0x80000044, 0x80000084]"

lemma jumpy_run_hits:
  assumes "init_cache junk 128 2 16 = Inr c"
  shows "lru_hits 2 (index_of c) (tag_of c) jumpy_run = 3"
  by (simp add: lru_hits_def lru_hit_def recent_def jumpy_run_def upt_rec small_cache(3,4) [OF assms])

lemma cachesim_counts_lru_hits_witness:
  "\<exists>c ns t' c'. init_cache (\<lambda>i j. 7) 128 2 16 = Inr c \<and>
     finalize_itrace_bin (fold itrace_bin_record jumpy_run
       (init_itrace_bin \<lparr>bin_out = None, cur_start = 9, cur_count = 0, last_pc = 0\<rparr>)) = (Some ns, t') \<and>
     cachesim (\<lambda>i j. 7) 128 2 16 ns = Inr c' \<and> total_access c' = 7 \<and> unat (hit_count c') = 3"
proof -
  let ?t = "\<lparr>bin_out = None, cur_start = 9, cur_count = 0, last_pc = 0\<rparr>"
  obtain c where c: "init_cache (\<lambda>i j. 7) 128 2 16 = Inr c" by (simp add: init_cache_def)
  have "length jumpy_run = 7" by (simp add: jumpy_run_def)
  with cachesim_counts_lru_hits [OF c small_cache(2) [OF c], of jumpy_run ?t] jumpy_run_hits [OF c]
  have "\<exists>ns t' c'. finalize_itrace_bin (fold itrace_bin_record jumpy_run (init_itrace_bin ?t)) = (Some ns, t') \<and>
      cachesim (\<lambda>i j. 7) 128 2 16 ns = Inr c' \<and> total_access c' = 7 \<and> unat (hit_count c') = 3"
    by simp
  with c show ?thesis by blast
qed

lemma cache_lines_are_blocks_witness:
  "\<exists>c. init_cache (\<lambda>i j. 7) 128 2 16 = Inr c \<and>
     (index_of c 0x80000044 = index_of c 0x8000004c \<and> tag_of c 0x80000044 = tag_of c 0x8000004c) \<and>
     \<not> (index_of c 0x80000044 = index_of c 0x80000084 \<and> tag_of c 0x80000044 = tag_of c 0x80000084)"
proof -
  obtain c where c: "init_cache (\<lambda>i j. 7) 128 2 16 = Inr c" by (simp add: init_cache_def)
  have "unat (block_size c) = 16" using cache_inv_init(3) [OF c] by simp
  with cache_lines_are_blocks [OF small_cache(1) [OF c], of "0x80000044" "0x8000004c"]
    cache_lines_are_blocks [OF small_cache(1) [OF c], of "0x80000044" "0x80000084"]
  have "(index_of c 0x80000044 = index_of c 0x8000004c \<and> tag_of c 0x80000044 = tag_of c 0x8000004c)"
    "\<not> (index_of c 0x80000044 = index_of c 0x80000084 \<and> tag_of c 0x80000044 = tag_of c 0x80000084)"
    by simp_all
  with c show ?thesis by blast
qed

lemma more_ways_more_hits_witness:
  "\<exists>c d c' d'. init_cache (\<lambda>i j. 7) 128 2 16 = Inr c \<and> init_cache (\<lambda>i j. 0) 256 4 16 = Inr d \<and>
     foldR access_cache jumpy_run c = Inr c' \<and> foldR access_cache jumpy_run d = Inr d' \<and> hit_count c' \<le> hit_count d'"
proof -
  obtain c where c: "init_cache (\<lambda>i j. 7) 128 2 16 = Inr c" by (simp add: init_cache_def)
  obtain d where d: "init_cache (\<lambda>i j. 0) 256 4 16 = Inr d" by (simp add: init_cache_def)
  have "num_sets d = num_sets c" using cache_inv_init(4) [OF c] cache_inv_init(4) [OF d] by simp
  moreover have "length jumpy_run < 2 ^ 64" by (simp add: jumpy_run_def)
  ultimately show ?thesis
    using more_ways_more_hits [OF c small_cache(2) [OF c] d] c d by auto
qed

text \<open>With three sets the mask selects set 0 or 2 and the tag drops two bits: blocks 0 and 1 are
  taken for the same line.\<close>

lemma three_sets_alias:
  "\<exists>c. init_cache (\<lambda>i j. 7) 96 2 16 = Inr c \<and> num_sets c = 3 \<and>
     index_of c 0x80000000 = index_of c 0x80000010 \<and> tag_of c 0x80000000 = tag_of c 0x80000010"
proof -
  obtain c where c: "init_cache (\<lambda>i j. 7) 96 2 16 = Inr c" by (simp add: init_cache_def)
  have f: "block_size c = 16" "num_sets c = 3" using cache_inv_init(3,4) [OF c] by simp_all
  have "log2_floor 3 = 1" by (simp add: log2_floor.simps)
  then have l: "log2_round 3 = 2" "log2_round 16 = 4"
    by (simp add: log2_round_def Let_def) (rule log2_round_pow2, simp)
  show ?thesis using c f by (auto simp: index_of_def tag_of_def offset_bits_def l)
qed

end
