(* ===== verification/Spec2Isabelle.thy ===== *)
theory Spec2Isabelle
  imports Device_Properties Nemu_Trace Decode_Properties Riscv_Properties Sdb_Expr_Properties
    Cpu_Properties Difftest_Ref Monitor_Properties Klib_Stdlib
    Am_Ioe_Properties Yield_Os_Properties Am_Trm Soc_Boot Soc_Ioe
    Snake_Screen Cachesim
begin

text \<open>
  A verification library for the C code of \<open>ysyx_workbench\<close>: the RISC-V emulator NEMU and
  the bare-metal software that runs on it.

  NEMU (\<open>nemu/\<close>) interprets RISC-V programs. A cycle fetches a word from guest memory,
  decodes it with a table of bit patterns, executes it, zeroes \<open>$0\<close>, records it in the
  traces, lets watchpoints and differential testing look at it, and polls the devices. Guest
  memory is a set of host arrays; addresses outside it go to memory-mapped devices.

  Theories, in the order the code builds on itself:

  \<^item> \<open>Nemu_Prelude\<close>: C integers as words; the result type of steps that may stop the
    emulator (failed assertion, panic, undefined behaviour); byte stores and multi-byte access
    to them (locale \<open>byte_store\<close>).
  \<^item> \<open>Nemu_State\<close>: the configuration macros as a record, the CPU, the emulator state,
    memory-mapped regions, device registers, traces; \<open>system\<close> gathers the static variables.
  \<^item> \<open>Host_Memory\<close>: \<open>include/memory/host.h\<close>, \<open>paddr.h\<close>; the guest memories and their bounds.
  \<^item> \<open>Device_Map\<close>, \<open>Devices\<close>, \<open>Devices_Init\<close>, \<open>Device_Properties\<close>: \<open>src/device\<close>.
    \<open>Device_Map\<close> is the bus (locale \<open>io_callbacks\<close>, interpreted on the device handlers in
    \<open>Devices\<close>); \<open>Devices_Init\<close> registers the regions and polls events (locale
    \<open>bounded_fifo\<close>, interpreted on the keyboard queue).
  \<^item> \<open>Guest_Memory\<close>: \<open>src/memory/paddr.c\<close>, \<open>vaddr.c\<close>, with the functions the SystemVerilog
    memories call.
  \<^item> \<open>Nemu_Trace\<close>: the instruction ring, the compressed trace of program counters and the
    function-call trace of \<open>src/utils\<close>.
  \<^item> \<open>Inst_Decode\<close>, \<open>Decode_Properties\<close>: \<open>include/cpu/decode.h\<close> and the tables of
    \<open>src/isa/riscv32/inst.c\<close>; the decoder is proved equal to the RISC-V encoding.
  \<^item> \<open>Riscv_Exec\<close>, \<open>Riscv_Properties\<close>: the execute bodies, traps and CSRs, and what each
    group of instructions computes.
  \<^item> \<open>Sdb_Expr\<close>, \<open>Sdb_Expr_Properties\<close>: the debugger's expression evaluator, from the
    characters to the value.
  \<^item> \<open>Sdb_Watchpoint\<close>: the pool of watchpoints, two lists linked through an array (locale
    \<open>slot_pool\<close>, interpreted on the pool), refining an abstract pair of lists.
  \<^item> \<open>Npc_Sim\<close>: \<open>src/npc/npc.c\<close>, the processor in Verilog as the emulated machine: \<open>emu\<close> is
    the state of the whole emulator, \<open>externals\<close> what it is linked with (the Verilated model,
    the disassembler, the reference of differential testing).
  \<^item> \<open>Difftest\<close>, \<open>Difftest_Ref\<close>: \<open>src/cpu/difftest\<close> on both sides, the contract of the
    reference's registers (locale \<open>reference_registers\<close>, interpreted on NEMU as reference).
  \<^item> \<open>Cpu_Exec\<close>, \<open>Cpu_Properties\<close>: \<open>src/cpu/cpu-exec.c\<close>, the loop that runs instructions,
    with the state machine of \<open>nemu_state\<close>, and the run of the built-in program.
  \<^item> \<open>Sdb_Commands\<close>, \<open>Sdb_Properties\<close>: \<open>src/monitor/sdb/sdb.c\<close>, the commands and the
    command loop; a breakpoint is followed from its command to the stop.
  \<^item> \<open>Trace_Elf\<close>: the ELF reader of \<open>src/utils/trace.c\<close>.
  \<^item> \<open>Monitor\<close>, \<open>Monitor_Properties\<close>: \<open>src/monitor/monitor.c\<close> and \<open>nemu-main.c\<close>: options,
    loading, the order of initialisation, and \<open>main\<close>, whose default run is proved to end well.
  \<^item> \<open>Klib_String\<close>, \<open>Klib_Stdlib\<close>: the bare-metal C library \<open>abstract-machine/klib/src\<close>, on
    a byte memory (locale \<open>block_copy\<close>, interpreted on \<open>memcpy\<close> and \<open>memmove\<close>).

  The runtime of bare-metal programs, \<open>abstract-machine/am\<close>, is modelled as it runs on the
  emulator: its accesses are the guest's loads and stores, its trap code the interpreter's
  instructions.

  \<^item> \<open>Am_Bus\<close>: the accessors of \<open>riscv.h\<close>; what a device register and a word of memory do (locale
    \<open>word_store\<close>, interpreted on the emulator, with the copy and fill loops proved in it).
  \<^item> \<open>Am_Ioe\<close>, \<open>Am_Ioe_Properties\<close>: \<open>src/platform/nemu\<close>, the drivers of the emulator's devices and
    their table; clock, keyboard, screen and serial port from the driver to the device and back.
  \<^item> \<open>Am_Cte\<close>, \<open>Am_Cte_Properties\<close>: \<open>src/riscv/nemu/cte.c\<close> and \<open>trap.S\<close>, the latter as machine code;
    saving, switching and restoring contexts.
  \<^item> \<open>Yield_Os\<close>, \<open>Yield_Os_Properties\<close>: \<open>am-kernels/kernels/yield-os\<close>, two threads in control blocks in
    guest memory, refining an abstract round-robin scheduler.
  \<^item> \<open>Soc_Boot\<close>: \<open>src/riscv/ysyxsoc/trm.c\<close>, the two loaders of the SoC and its serial port.
  \<^item> \<open>Soc_Ioe\<close>: the drivers beside it in \<open>src/riscv/ysyxsoc\<close>, over the accesses of a board that is an
    argument (its PS/2 and VGA controllers are not in the repository): every key comes from the bytes
    of its scan code; the timer also runs on the emulator's CLINT.
  \<^item> \<open>Am_Trm\<close>: \<open>halt\<close> and \<open>_trm_init\<close> of \<open>src/platform/nemu/trm.c\<close>, up to the emulator's exit status.
  \<^item> \<open>Snake\<close>, \<open>Snake_Screen\<close>: the game \<open>am-kernels/kernels/snake\<close>; its ring of points refines a list
    of points, and a round on the emulator's devices is followed from the keys to the pixels.

  Beside the processor stands a tool, \<open>npc/simtools/cachesim\<close>: \<open>Cachesim\<close> models the simulator of an
  instruction cache that replays the compressed trace of \<open>Nemu_Trace\<close>, and proves that its time
  stamps implement replacement of the least recently used line.

  Integers that wrap are words of their C width; signed C arithmetic whose overflow is
  undefined is an \<open>Inl (Undefined \<dots>)\<close>. The loops of the model are structural or have a
  termination proof; a loop that waits on a device, or on a byte of memory, is a
  \<open>partial_function (option)\<close> whose value \<open>None\<close> is not to return, and the theorems about it
  state that it does return. Two loops of \<open>Soc_Boot\<close> take the number of rounds they may run as an
  argument, because a device or a wrap-around of the address could keep them going:
  \<open>wait_ready\<close>, for which one round is enough on the emulator's port, and \<open>clear_bss\<close>, for
  which one more round than \<open>bss\<close> has words is enough.

  Not modelled: text printed for the user; the drawing and sound of SDL; virtual memory of the
  runtime (\<open>vme.c\<close>) and its other platforms (x86, MIPS, LoongArch, native, spike, and on RISC-V the
  plain NPC); the SystemVerilog processor under \<open>npc/\<close>, which is not C; vendored code (kconfig,
  fixdep, libgcc, benchmarks, the NES emulators), the other games and the test programs.
\<close>

end
